(* ===== verification/Prelude.thy ===== *)
theory Prelude
  imports
    Main
    "HOL-Library.Char_ord"
    "HOL-Library.List_Lexorder"
    "HOL-Library.Product_Lexorder"
    "HOL-Library.Sublist"
    "HOL-Library.Finite_Map"
begin

text \<open>
  The vocabulary every component of the development shares.

  \<^item> A Go string is a byte string: \<open>string\<close>, a list of \<open>char\<close> (bytes 0 to 255).  The order
    on it (\<open>Char_ord\<close> and \<open>List_Lexorder\<close>) is Go's byte-wise lexicographic order, and the
    order on tuples (\<open>Product_Lexorder\<close>) is the usual ``compare the first field, then the
    next'' of the \<^verbatim>\<open>less\<close> functions passed to \<^verbatim>\<open>sort.Slice\<close>.
  \<^item> A Go \<^verbatim>\<open>map[string]string\<close> is a finite map \<open>strmap\<close>; reading a missing key gives the empty
    string, as in Go (\<open>get_str\<close>).  A nil map and an empty map are identified.
  \<^item> A Go function that returns \<^verbatim>\<open>(T, error)\<close> returns \<open>'e + 'a\<close>, \<open>Inl\<close> being the error; a
    loop over a slice that stops at the first error is \<open>traverse\<close>.

  The collections \<open>go_spec\<close> (characteristic facts of library functions) and \<open>wf_intros\<close>
  (introduction rules for well-formedness) are filled by the component theories.
\<close>

named_theorems go_spec \<open>characteristic equations of the Go library functions\<close>
named_theorems wf_intros \<open>introduction rules for well-formedness of the model's values\<close>

type_synonym strmap = "(string, string) fmap"

definition get_str :: "strmap \<Rightarrow> string \<Rightarrow> string" where
  "get_str m k = (case fmlookup m k of None \<Rightarrow> '''' | Some v \<Rightarrow> v)"

lemma get_str_upd [simp]: "get_str (fmupd k v m) k' = (if k = k' then v else get_str m k')"
  by (simp add: get_str_def)

lemma get_str_nonempty: "get_str m k \<noteq> '''' \<Longrightarrow> fmlookup m k = Some (get_str m k)"
  by (auto simp: get_str_def split: option.splits)

lemma fmlookup_fmadd_case:
  "fmlookup (fmadd m n) k = (case fmlookup n k of None \<Rightarrow> fmlookup m k | Some v \<Rightarrow> Some v)"
  by (auto simp: fmlookup_dom_iff split: option.split)

section \<open>Loops that stop at the first error\<close>

fun traverse :: "('a \<Rightarrow> 'e + 'b) \<Rightarrow> 'a list \<Rightarrow> 'e + 'b list" where
  "traverse f [] = Inr []"
| "traverse f (x # xs) =
     (case f x of
        Inl e \<Rightarrow> Inl e
      | Inr y \<Rightarrow> (case traverse f xs of Inl e \<Rightarrow> Inl e | Inr ys \<Rightarrow> Inr (y # ys)))"

lemma traverse_Inr_iff: "traverse f xs = Inr ys \<longleftrightarrow> list_all2 (\<lambda>x y. f x = Inr y) xs ys"
proof (induction xs arbitrary: ys)
  case (Cons x xs)
  have "traverse f (x # xs) = Inr ys \<longleftrightarrow>
    (\<exists>z zs. f x = Inr z \<and> traverse f xs = Inr zs \<and> ys = z # zs)"
    by (auto split: sum.splits)
  then show ?case by (auto simp: Cons.IH list_all2_Cons1)
qed auto

lemma traverse_Inr_set: "traverse f xs = Inr ys \<Longrightarrow> y \<in> set ys \<Longrightarrow> \<exists>x \<in> set xs. f x = Inr y"
proof (induction xs arbitrary: ys)
  case (Cons x xs)
  then show ?case by (fastforce split: sum.splits)
qed simp

lemma traverse_Inr_set2: "traverse f xs = Inr ys \<Longrightarrow> x \<in> set xs \<Longrightarrow> \<exists>y \<in> set ys. f x = Inr y"
  unfolding traverse_Inr_iff by (auto simp: in_set_conv_nth list_all2_conv_all_nth)

lemma traverse_Inl: "traverse f xs = Inl e \<Longrightarrow> \<exists>x \<in> set xs. f x = Inl e"
  by (induction xs) (auto split: sum.splits)

lemma traverse_cong [fundef_cong]:
  "xs = ys \<Longrightarrow> (\<And>x. x \<in> set ys \<Longrightarrow> f x = g x) \<Longrightarrow> traverse f xs = traverse g ys"
proof (induction xs arbitrary: ys)
  case (Cons x xs)
  then show ?case by (auto split: sum.split)
qed simp

section \<open>Sorted lists without duplicates\<close>

lemma sorted_distinct_unique:
  "sorted xs \<Longrightarrow> distinct xs \<Longrightarrow> sorted ys \<Longrightarrow> distinct ys \<Longrightarrow> set xs = set ys \<Longrightarrow> xs = ys"
  by (rule sorted_distinct_set_unique)

lemma sort_remdups_eqI: "set xs = set ys \<Longrightarrow> sort (remdups xs) = sort (remdups ys)"
  by (rule sorted_distinct_unique) auto

lemma sort_remdups_idem: "sorted xs \<Longrightarrow> distinct xs \<Longrightarrow> sort (remdups xs) = xs"
  by (simp add: distinct_remdups_id sorted_sort_id)

lemma strict_sorted_map_distinct:
  "sorted (map f xs) \<Longrightarrow> distinct (map f xs) \<Longrightarrow> sort_key f xs = xs"
  by (simp add: sorted_sort_id sort_key_id_if_sorted)

lemma sort_key_unique:
  assumes "distinct xs" "distinct ys" "set xs = set ys" "inj_on f (set xs)"
  shows "sort_key f xs = sort_key f ys"
proof -
  have d: "distinct (map f xs)" "distinct (map f ys)"
    using assms by (simp_all add: distinct_map)
  have "map f (sort_key f xs) = map f (sort_key f ys)"
  proof (rule sorted_distinct_unique)
    show "distinct (map f (sort_key f xs))" "distinct (map f (sort_key f ys))"
      using d assms by (simp_all add: distinct_map)
  qed (simp_all add: assms)
  moreover have "inj_on f (set (sort_key f xs) \<union> set (sort_key f ys))"
    using assms by simp
  ultimately show ?thesis by (rule map_inj_on)
qed

lemma sort_key_sorted_map [simp]: "sorted (map f (sort_key f xs))"
  by (rule sorted_sort_key)

lemma distinct_map_sort_key [simp]: "distinct (map f (sort_key g xs)) = distinct (map f xs)"
  by (simp add: distinct_map)

section \<open>Codecs\<close>

text \<open>
  The interface of a textual format: what the writer of a value promises to its reader.  The
  duration, timestamp and lifecycle formats are its instances.
\<close>

locale codec =
  fixes enc :: "'a \<Rightarrow> string" and dec :: "string \<Rightarrow> 'a option" and ok :: "'a \<Rightarrow> bool"
  assumes dec_enc: "ok x \<Longrightarrow> dec (enc x) = Some x"
begin

lemma enc_inj: "ok x \<Longrightarrow> ok y \<Longrightarrow> enc x = enc y \<longleftrightarrow> x = y"
  using dec_enc by (metis option.inject)

lemma enc_inj_on: "inj_on enc (Collect ok)"
  by (rule inj_onI) (simp add: enc_inj)

lemma dec_enc_iff: "ok x \<Longrightarrow> dec (enc x) = Some y \<longleftrightarrow> y = x"
  using dec_enc by auto

end

end
