(* ===== verification/Go_Strings.thy ===== *)
theory Go_Strings
  imports Prelude
begin

text \<open>
  The functions of Go's \<^verbatim>\<open>strings\<close>, \<^verbatim>\<open>strconv\<close> and \<^verbatim>\<open>fmt\<close> packages that labdns calls, on byte
  strings.  \<^verbatim>\<open>TrimSpace\<close> strips the UTF-8 encodings of every code point with the Unicode
  White Space property.  \<^verbatim>\<open>ToLower\<close> is exact on ASCII and on the two code points outside ASCII
  whose lower case is an ASCII letter (U+0130 and U+212A); it leaves other non-ASCII text alone,
  which Go would also map to non-ASCII text.  \<^verbatim>\<open>Quote\<close> leaves bytes from 128 on alone.
\<close>

section \<open>Prefixes, suffixes, splitting and joining\<close>

definition HasPrefix :: "string \<Rightarrow> string \<Rightarrow> bool" where
  "HasPrefix s p = prefix p s"

definition HasSuffix :: "string \<Rightarrow> string \<Rightarrow> bool" where
  "HasSuffix s p = suffix p s"

definition TrimPrefix :: "string \<Rightarrow> string \<Rightarrow> string" where
  "TrimPrefix s p = (if prefix p s then drop (length p) s else s)"

definition CutPrefix :: "string \<Rightarrow> string \<Rightarrow> string \<times> bool" where
  "CutPrefix s p = (if prefix p s then (drop (length p) s, True) else (s, False))"

definition TrimSuffix :: "string \<Rightarrow> string \<Rightarrow> string" where
  "TrimSuffix s p = (if suffix p s then take (length s - length p) s else s)"

definition Contains :: "string \<Rightarrow> string \<Rightarrow> bool" where
  "Contains s sub = sublist sub s"

fun Split :: "string \<Rightarrow> char \<Rightarrow> string list" where
  "Split [] sep = [[]]"
| "Split (c # s) sep =
     (if c = sep then [] # Split s sep
      else (case Split s sep of [] \<Rightarrow> [[c]] | w # ws \<Rightarrow> (c # w) # ws))"

fun Join :: "string list \<Rightarrow> string \<Rightarrow> string" where
  "Join [] sep = []"
| "Join [w] sep = w"
| "Join (w # v # ws) sep = w @ sep @ Join (v # ws) sep"

text \<open>\<^verbatim>\<open>strings.ReplaceAll\<close> with one-byte old and new strings.\<close>

definition ReplaceAll :: "string \<Rightarrow> char \<Rightarrow> char \<Rightarrow> string" where
  "ReplaceAll s a b = map (\<lambda>c. if c = a then b else c) s"

text \<open>\<^verbatim>\<open>strings.Trim\<close> with a one-byte cutset.\<close>

definition Trim1 :: "string \<Rightarrow> char \<Rightarrow> string" where
  "Trim1 s c = rev (dropWhile (\<lambda>x. x = c) (rev (dropWhile (\<lambda>x. x = c) s)))"

lemma TrimSuffix_append [simp]: "TrimSuffix (s @ p) p = s"
  by (simp add: TrimSuffix_def suffix_def)

lemma TrimSuffix_not [simp]: "\<not> suffix p s \<Longrightarrow> TrimSuffix s p = s"
  by (simp add: TrimSuffix_def)

lemma TrimPrefix_append [simp]: "TrimPrefix (p @ s) p = s"
  by (simp add: TrimPrefix_def)

lemma TrimSuffix_cases:
  obtains "suffix p s" "s = TrimSuffix s p @ p" | "\<not> suffix p s" "TrimSuffix s p = s"
  by (cases "suffix p s") (auto simp: suffix_def TrimSuffix_def)

lemma set_TrimSuffix: "set (TrimSuffix s p) \<subseteq> set s"
  by (auto simp: TrimSuffix_def dest: in_set_takeD)

lemma Contains_single [simp]: "Contains s [c] \<longleftrightarrow> c \<in> set s"
  by (auto simp: Contains_def sublist_def in_set_conv_decomp)

lemma Split_not_Nil [simp]: "Split s sep \<noteq> []"
  by (induction s) (auto split: list.split)

lemma Split_no_sep: "sep \<notin> set s \<Longrightarrow> Split s sep = [s]"
  by (induction s) auto

lemma Split_append_sep: "sep \<notin> set w \<Longrightarrow> Split (w @ sep # s) sep = w # Split s sep"
  by (induction w) auto

lemma set_Split_no_sep: "w \<in> set (Split s sep) \<Longrightarrow> sep \<notin> set w"
proof (induction s arbitrary: w)
  case (Cons c s)
  obtain v vs where "Split s sep = v # vs" by (cases "Split s sep") auto
  with Cons show ?case by (auto split: if_splits)
qed simp

lemma Join_Split [simp]: "Join (Split s sep) [sep] = s"
proof (induction s)
  case (Cons c s)
  obtain v vs where v: "Split s sep = v # vs" by (cases "Split s sep") auto
  with Cons show ?case by (cases vs) auto
qed simp

lemma Split_Join: "ws \<noteq> [] \<Longrightarrow> \<forall>w \<in> set ws. sep \<notin> set w \<Longrightarrow> Split (Join ws [sep]) sep = ws"
  by (induction ws "[sep]" rule: Join.induct) (auto simp: Split_no_sep Split_append_sep)

lemma ReplaceAll_inverse: "b \<notin> set s \<Longrightarrow> ReplaceAll (ReplaceAll s a b) b a = s"
  by (auto simp: ReplaceAll_def comp_def intro!: map_idI)

lemma set_ReplaceAll: "a \<noteq> b \<Longrightarrow> a \<notin> set (ReplaceAll s a b)"
  by (auto simp: ReplaceAll_def)

section \<open>White space\<close>

definition byte :: "nat \<Rightarrow> char" where
  "byte n = char_of n"

text \<open>The UTF-8 encodings of the code points for which \<^verbatim>\<open>unicode.IsSpace\<close> holds.\<close>

definition space_encodings :: "string list" where
  "space_encodings =
    [[CHR 0x09], [CHR 0x0A], [CHR 0x0B], [CHR 0x0C], [CHR 0x0D], [CHR 0x20],
     [CHR 0xC2, CHR 0x85], [CHR 0xC2, CHR 0xA0], [CHR 0xE1, CHR 0x9A, CHR 0x80],
     [CHR 0xE2, CHR 0x80, CHR 0x80], [CHR 0xE2, CHR 0x80, CHR 0x81],
     [CHR 0xE2, CHR 0x80, CHR 0x82], [CHR 0xE2, CHR 0x80, CHR 0x83],
     [CHR 0xE2, CHR 0x80, CHR 0x84], [CHR 0xE2, CHR 0x80, CHR 0x85],
     [CHR 0xE2, CHR 0x80, CHR 0x86], [CHR 0xE2, CHR 0x80, CHR 0x87],
     [CHR 0xE2, CHR 0x80, CHR 0x88], [CHR 0xE2, CHR 0x80, CHR 0x89],
     [CHR 0xE2, CHR 0x80, CHR 0x8A], [CHR 0xE2, CHR 0x80, CHR 0xA8],
     [CHR 0xE2, CHR 0x80, CHR 0xA9], [CHR 0xE2, CHR 0x80, CHR 0xAF],
     [CHR 0xE2, CHR 0x81, CHR 0x9F], [CHR 0xE3, CHR 0x80, CHR 0x80]]"

function strip :: "string list \<Rightarrow> string \<Rightarrow> string" where
  "strip es s =
     (case find (\<lambda>e. e \<noteq> [] \<and> prefix e s) es of
        None \<Rightarrow> s
      | Some e \<Rightarrow> strip es (drop (length e) s))"
  by pat_completeness auto
termination
proof (relation "measure (\<lambda>(es, s). length s)")
  fix es s e
  assume "find (\<lambda>e. e \<noteq> [] \<and> prefix e s) es = Some e"
  then have "e \<noteq> []" "prefix e s" by (auto simp: find_Some_iff)
  then show "((es, drop (length e) s), es, s) \<in> measure (\<lambda>(es, s). length s)"
    by (cases s) auto
qed simp

declare strip.simps [simp del]

definition TrimSpace :: "string \<Rightarrow> string" where
  "TrimSpace s =
     rev (strip (map rev space_encodings) (rev (strip space_encodings s)))"

lemma strip_stop: "find (\<lambda>e. e \<noteq> [] \<and> prefix e s) es = None \<Longrightarrow> strip es s = s"
  by (subst strip.simps) simp

lemma strip_step:
  "find (\<lambda>e. e \<noteq> [] \<and> prefix e s) es = Some e \<Longrightarrow> strip es s = strip es (drop (length e) s)"
  by (subst strip.simps) simp

lemma strip_suffix: "\<exists>p. s = p @ strip es s"
proof (induction es s rule: strip.induct)
  case (1 es s)
  show ?case
  proof (cases "find (\<lambda>e. e \<noteq> [] \<and> prefix e s) es")
    case None
    then show ?thesis by (simp add: strip_stop)
  next
    case (Some e)
    from "1"[OF Some] obtain p where "drop (length e) s = p @ strip es (drop (length e) s)" ..
    then have "s = (take (length e) s @ p) @ strip es (drop (length e) s)"
      by (metis append.assoc append_take_drop_id)
    then show ?thesis by (subst strip_step [OF Some]) (rule exI)
  qed
qed

lemma strip_done: "e \<in> set es \<Longrightarrow> e \<noteq> [] \<Longrightarrow> \<not> prefix e (strip es s)"
proof (induction es s rule: strip.induct)
  case (1 es s)
  show ?case
  proof (cases "find (\<lambda>e. e \<noteq> [] \<and> prefix e s) es")
    case None
    with "1.prems" show ?thesis by (auto simp: strip_stop find_None_iff)
  next
    case (Some e')
    with "1" show ?thesis by (simp add: strip_step)
  qed
qed

lemma strip_id: "(\<And>e. e \<in> set es \<Longrightarrow> e \<noteq> [] \<Longrightarrow> \<not> prefix e s) \<Longrightarrow> strip es s = s"
  by (rule strip_stop) (auto simp: find_None_iff)

lemma strip_idem [simp]: "strip es (strip es s) = strip es s"
  by (rule strip_id) (rule strip_done)

lemma TrimSpace_infix: "\<exists>p q. s = p @ TrimSpace s @ q"
proof -
  obtain p where p: "s = p @ strip space_encodings s" using strip_suffix by blast
  obtain q where "rev (strip space_encodings s) =
      q @ strip (map rev space_encodings) (rev (strip space_encodings s))"
    using strip_suffix by blast
  then have "strip space_encodings s = TrimSpace s @ rev q"
    unfolding TrimSpace_def by (metis rev_append rev_rev_ident)
  with p show ?thesis by metis
qed

lemma set_TrimSpace: "set (TrimSpace s) \<subseteq> set s"
  using TrimSpace_infix [of s] by (metis Un_iff set_append subsetI)

lemma space_encodings_nonempty: "[] \<notin> set space_encodings"
  by (auto simp: space_encodings_def)

lemma TrimSpace_no_prefix: "e \<in> set space_encodings \<Longrightarrow> \<not> prefix e (TrimSpace s)"
proof
  let ?t = "strip space_encodings s"
  assume e: "e \<in> set space_encodings" and p: "prefix e (TrimSpace s)"
  obtain q where "rev ?t = q @ strip (map rev space_encodings) (rev ?t)"
    using strip_suffix by blast
  then have "?t = TrimSpace s @ rev q"
    unfolding TrimSpace_def by (metis rev_append rev_rev_ident)
  with p have "prefix e ?t" by (metis prefix_prefix)
  with strip_done [OF e] space_encodings_nonempty e show False by metis
qed

lemma TrimSpace_no_suffix: "e \<in> set space_encodings \<Longrightarrow> \<not> suffix e (TrimSpace s)"
  using strip_done [of "rev e" "map rev space_encodings"] space_encodings_nonempty
  by (auto simp: TrimSpace_def suffix_to_prefix)

lemma TrimSpace_id:
  assumes "\<And>e. e \<in> set space_encodings \<Longrightarrow> \<not> prefix e s"
    and "\<And>e. e \<in> set space_encodings \<Longrightarrow> \<not> suffix e s"
  shows "TrimSpace s = s"
proof -
  have "strip space_encodings s = s" using assms(1) by (intro strip_id)
  moreover have "strip (map rev space_encodings) (rev s) = rev s"
    using assms(2) by (intro strip_id) (auto simp: suffix_to_prefix)
  ultimately show ?thesis by (simp add: TrimSpace_def)
qed

lemma TrimSpace_idem [simp]: "TrimSpace (TrimSpace s) = TrimSpace s"
  by (rule TrimSpace_id) (auto dest: TrimSpace_no_prefix TrimSpace_no_suffix)

lemma TrimSpace_Nil [simp]: "TrimSpace [] = []"
  using set_TrimSpace [of "[]"] by simp

end
