(* ===== verification/Go_Strconv.thy ===== *)
theory Go_Strconv
  imports Go_Strings
begin

text \<open>
  Letter case, numbers and message formatting: \<^verbatim>\<open>strings.ToLower\<close>, \<^verbatim>\<open>strconv.ParseBool\<close>,
  \<^verbatim>\<open>strconv.ParseInt\<close> (base 10, 64 bits), \<^verbatim>\<open>strconv.Itoa\<close>, \<^verbatim>\<open>strconv.Quote\<close> and the verbs of
  \<^verbatim>\<open>fmt.Sprintf\<close> that occur in labdns.  Decimal printing and reading are inverse
  (\<open>digits_value_show\<close>), which the duration and time formats rest on.
\<close>

abbreviation code :: "char \<Rightarrow> nat" where
  "code c \<equiv> of_char c"

section \<open>Letter case\<close>

definition is_upper :: "char \<Rightarrow> bool" where
  "is_upper c \<longleftrightarrow> 65 \<le> code c \<and> code c \<le> 90"

definition is_ascii :: "char \<Rightarrow> bool" where
  "is_ascii c \<longleftrightarrow> code c < 128"

definition lower_byte :: "char \<Rightarrow> char" where
  "lower_byte c = (if is_upper c then byte (code c + 32) else c)"

fun ToLower :: "string \<Rightarrow> string" where
  "ToLower [] = []"
| "ToLower (c # s) =
     (if c = CHR 0xC4 \<and> prefix [CHR 0xB0] s then CHR ''i'' # ToLower (drop 1 s)
      else if c = CHR 0xE2 \<and> prefix [CHR 0x84, CHR 0xAA] s then CHR ''k'' # ToLower (drop 2 s)
      else lower_byte c # ToLower s)"

lemma code_byte [simp]: "n < 256 \<Longrightarrow> code (byte n) = n"
  by (simp add: byte_def)

lemma lower_byte_not_upper [simp]: "\<not> is_upper (lower_byte c)"
  by (auto simp: lower_byte_def is_upper_def)

lemma lower_byte_id [simp]: "\<not> is_upper c \<Longrightarrow> lower_byte c = c"
  by (simp add: lower_byte_def)

lemma is_ascii_not_lead:
  "is_ascii c \<Longrightarrow> c \<noteq> CHR 0xC4" "is_ascii c \<Longrightarrow> c \<noteq> CHR 0xE2"
  by (auto simp: is_ascii_def)

lemma ToLower_ascii: "\<forall>c \<in> set s. is_ascii c \<Longrightarrow> ToLower s = map lower_byte s"
  by (induction s) (auto dest: is_ascii_not_lead)

lemma ToLower_id: "\<forall>c \<in> set s. is_ascii c \<and> \<not> is_upper c \<Longrightarrow> ToLower s = s"
  by (simp add: ToLower_ascii map_idI)

lemma ToLower_not_upper: "c \<in> set (ToLower s) \<Longrightarrow> \<not> is_upper c"
proof (induction s rule: ToLower.induct)
  case (2 d s)
  moreover have "\<not> is_upper (CHR ''i'')" "\<not> is_upper (CHR ''k'')" by (simp_all add: is_upper_def)
  ultimately show ?case by (auto split: if_splits)
qed simp

section \<open>Printable ASCII\<close>

definition is_graphic :: "char \<Rightarrow> bool" where
  "is_graphic c \<longleftrightarrow> 33 \<le> code c \<and> code c < 127"

lemma space_encoding_hd: "e \<in> set space_encodings \<Longrightarrow> e \<noteq> [] \<and> \<not> is_graphic (hd e)"
proof -
  have "list_all (\<lambda>e. e \<noteq> [] \<and> \<not> is_graphic (hd e)) space_encodings"
    by (simp add: space_encodings_def is_graphic_def)
  then show "e \<in> set space_encodings \<Longrightarrow> ?thesis" by (simp add: list_all_iff)
qed

lemma TrimSpace_graphic: "\<forall>c \<in> set s. is_graphic c \<Longrightarrow> TrimSpace s = s"
proof (rule TrimSpace_id)
  fix e assume s: "\<forall>c \<in> set s. is_graphic c" and e: "e \<in> set space_encodings"
  have "hd e \<in> set e" "\<not> is_graphic (hd e)" using space_encoding_hd [OF e] by simp_all
  with s show "\<not> prefix e s" "\<not> suffix e s"
    by (auto dest: set_mono_prefix set_mono_suffix)
qed

section \<open>Decimal numbers\<close>

definition is_digit :: "char \<Rightarrow> bool" where
  "is_digit c \<longleftrightarrow> 48 \<le> code c \<and> code c \<le> 57"

definition digit_val :: "char \<Rightarrow> nat" where
  "digit_val c = code c - 48"

definition digit_char :: "nat \<Rightarrow> char" where
  "digit_char d = byte (48 + d)"

fun show_nat :: "nat \<Rightarrow> string" where
  "show_nat n = (if n < 10 then [digit_char n] else show_nat (n div 10) @ [digit_char (n mod 10)])"

declare show_nat.simps [simp del]

definition Itoa :: "int \<Rightarrow> string" where
  "Itoa i = (if i < 0 then CHR ''-'' # show_nat (nat (- i)) else show_nat (nat i))"

definition digits_value :: "string \<Rightarrow> nat" where
  "digits_value s = foldl (\<lambda>acc c. acc * 10 + digit_val c) 0 s"

lemma digit_char_props [simp]:
  "d < 10 \<Longrightarrow> is_digit (digit_char d)" "d < 10 \<Longrightarrow> digit_val (digit_char d) = d"
  by (simp_all add: is_digit_def digit_val_def digit_char_def)

lemma digit_char_digit_val [simp]: "is_digit c \<Longrightarrow> digit_char (digit_val c) = c"
  by (simp add: is_digit_def digit_val_def digit_char_def byte_def)

lemma digit_val_less [simp]: "is_digit c \<Longrightarrow> digit_val c < 10"
  by (auto simp: is_digit_def digit_val_def)

lemma foldl_digits: "foldl (\<lambda>acc c. acc * 10 + digit_val c) a s = a * 10 ^ length s + digits_value s"
proof (induction s rule: rev_induct)
  case (snoc c s)
  then show ?case by (simp add: digits_value_def algebra_simps)
qed (simp add: digits_value_def)

lemma digits_value_Nil [simp]: "digits_value [] = 0"
  by (simp add: digits_value_def)

lemma digits_value_snoc [simp]: "digits_value (s @ [c]) = digits_value s * 10 + digit_val c"
  by (simp add: digits_value_def)

lemma digits_value_append: "digits_value (s @ t) = digits_value s * 10 ^ length t + digits_value t"
  unfolding digits_value_def foldl_append by (subst foldl_digits) (simp add: digits_value_def)

lemma digits_value_Cons: "digits_value (c # s) = digit_val c * 10 ^ length s + digits_value s"
  using digits_value_append [of "[c]" s] by (simp add: digits_value_def)

lemma digits_value_less: "\<forall>c \<in> set s. is_digit c \<Longrightarrow> digits_value s < 10 ^ length s"
proof (induction s rule: rev_induct)
  case (snoc c s)
  then have "digits_value s + 1 \<le> 10 ^ length s" "digit_val c < 10" by auto
  then have "(digits_value s + 1) * 10 \<le> 10 ^ length s * 10" by (intro mult_right_mono) auto
  with \<open>digit_val c < 10\<close> show ?case by simp
qed simp

lemma show_nat_digits: "c \<in> set (show_nat n) \<Longrightarrow> is_digit c"
proof (induction n rule: show_nat.induct)
  case (1 n)
  then show ?case by (cases "n < 10") (auto simp: show_nat.simps [of n])
qed

lemma show_nat_not_Nil [simp]: "show_nat n \<noteq> []"
  by (subst show_nat.simps) simp

lemma digits_value_show [simp]: "digits_value (show_nat n) = n"
proof (induction n rule: show_nat.induct)
  case (1 n)
  show ?case
  proof (cases "n < 10")
    case True
    then show ?thesis by (simp add: show_nat.simps [of n] digits_value_def)
  next
    case False
    with "1" show ?thesis by (simp add: show_nat.simps [of n] div_mult_mod_eq)
  qed
qed

lemma digit_char_zero: "d < 10 \<Longrightarrow> digit_char d = CHR ''0'' \<Longrightarrow> d = 0"
  by (drule arg_cong [where f = code]) (simp add: digit_char_def)

lemma show_nat_no_leading_zero: "n \<noteq> 0 \<Longrightarrow> hd (show_nat n) \<noteq> CHR ''0''"
proof (induction n rule: show_nat.induct)
  case (1 n)
  then show ?case
    by (cases "n < 10") (auto simp: show_nat.simps [of n] dest: digit_char_zero)
qed

section \<open>strconv.ParseBool and strconv.ParseInt\<close>

definition ParseBool :: "string \<Rightarrow> bool option" where
  "ParseBool s =
     (if s \<in> set [''1'', ''t'', ''T'', ''TRUE'', ''true'', ''True''] then Some True
      else if s \<in> set [''0'', ''f'', ''F'', ''FALSE'', ''false'', ''False''] then Some False
      else None)"

text \<open>\<^verbatim>\<open>strconv.ParseInt(s, 10, 64)\<close>: \<open>None\<close> is a syntax or range error.\<close>

definition ParseInt :: "string \<Rightarrow> int option" where
  "ParseInt s =
     (let neg = prefix ''-'' s;
          body = (if prefix ''-'' s \<or> prefix ''+'' s then drop 1 s else s);
          n = int (digits_value body)
      in if body = [] \<or> \<not> list_all is_digit body then None
         else if neg then (if n \<le> 2 ^ 63 then Some (- n) else None)
         else (if n < 2 ^ 63 then Some n else None))"

lemma ParseInt_bounds: "ParseInt s = Some n \<Longrightarrow> - (2 ^ 63) \<le> n \<and> n < 2 ^ 63"
  by (auto simp: ParseInt_def Let_def split: if_splits)

lemma show_nat_no_sign: "\<not> prefix ''-'' (show_nat n)" "\<not> prefix ''+'' (show_nat n)"
  using show_nat_digits [of "CHR ''-''" n] show_nat_digits [of "CHR ''+''" n]
  by (auto simp: is_digit_def dest!: set_mono_prefix)

lemma ParseInt_show_nat: "n < 2 ^ 63 \<Longrightarrow> ParseInt (show_nat n) = Some (int n)"
  by (auto simp: ParseInt_def Let_def show_nat_no_sign list_all_iff dest: show_nat_digits)

section \<open>strconv.Quote and fmt.Sprintf\<close>

definition hex_digit :: "nat \<Rightarrow> char" where
  "hex_digit n = (if n < 10 then byte (48 + n) else byte (87 + n))"

definition quote_byte :: "char \<Rightarrow> string" where
  "quote_byte c =
     (let n = code c; bs = CHR 0x5C in
      if n = 34 \<or> n = 92 then [bs, c]
      else if n = 7 then [bs, CHR ''a''] else if n = 8 then [bs, CHR ''b'']
      else if n = 12 then [bs, CHR ''f''] else if n = 10 then [bs, CHR ''n'']
      else if n = 13 then [bs, CHR ''r''] else if n = 9 then [bs, CHR ''t'']
      else if n = 11 then [bs, CHR ''v'']
      else if n < 32 \<or> n = 127 then [bs, CHR ''x'', hex_digit (n div 16), hex_digit (n mod 16)]
      else [c])"

definition Quote :: "string \<Rightarrow> string" where
  "Quote s = CHR 0x22 # concat (map quote_byte s) @ [CHR 0x22]"

datatype fmt_arg = FStr string | FInt int | FBool bool

fun format_arg :: "char \<Rightarrow> fmt_arg \<Rightarrow> string" where
  "format_arg v (FStr s) = (if v = CHR ''q'' then Quote s else s)"
| "format_arg v (FInt n) = Itoa n"
| "format_arg v (FBool b) = (if b then ''true'' else ''false'')"

fun Sprintf :: "string \<Rightarrow> fmt_arg list \<Rightarrow> string" where
  "Sprintf [] args = []"
| "Sprintf [c] args = [c]"
| "Sprintf (c # v # fmt) [] = c # Sprintf (v # fmt) []"
| "Sprintf (c # v # fmt) (a # args) =
     (if c = CHR ''%'' then format_arg v a @ Sprintf fmt args else c # Sprintf (v # fmt) (a # args))"

text \<open>Messages are opaque to the proofs.\<close>

declare Sprintf.simps [simp del] format_arg.simps [simp del]

end
