(* ===== verification/Errors.thy ===== *)
theory Errors
  imports Go_Strconv
begin

text \<open>
  Go error values and the markers labdns puts on them: \<^verbatim>\<open>internal/source/errors.go\<close>, the
  \<^verbatim>\<open>invalidStateError\<close> of \<^verbatim>\<open>internal/dnsendpoint/writer.go\<close> and the terminal wrapping of
  \<^verbatim>\<open>internal/controller/source_controller.go\<close>.

  An error is a chain: \<open>WrapErr p e\<close> is \<^verbatim>\<open>fmt.Errorf("...%w", e)\<close> with \<open>p\<close> the text in front of the
  wrapped error (every \<^verbatim>\<open>%w\<close> of the sources is at the end of its format).  \<open>StatusErr\<close> is an error
  of the Kubernetes API with its status reason; \<open>TerminalErr\<close> is controller-runtime's
  \<^verbatim>\<open>reconcile.TerminalError\<close>, which tells the work queue not to retry.
\<close>

datatype status_reason = NotFound | Conflict | AlreadyExists | OtherReason string

datatype goerr =
    ErrMsg string
  | WrapErr string goerr
  | is_invalidError: invalidError goerr
  | is_dependencyError: dependencyError string goerr
  | is_invalidStateError: invalidStateError goerr
  | StatusErr status_reason string
  | is_TerminalErr: TerminalErr goerr

type_synonym 'a result = "goerr + 'a"

definition and_then :: "'a result \<Rightarrow> ('a \<Rightarrow> 'b result) \<Rightarrow> 'b result" where
  "and_then r f = (case r of Inl e \<Rightarrow> Inl e | Inr x \<Rightarrow> f x)"

text \<open>An error of a standard-library function whose text is not modelled.\<close>

definition std_error :: goerr where
  "std_error = ErrMsg ''''"

fun Error :: "goerr \<Rightarrow> string" where
  "Error (ErrMsg m) = m"
| "Error (WrapErr p e) = p @ Error e"
| "Error (invalidError e) = Error e"
| "Error (dependencyError r e) = Error e"
| "Error (invalidStateError e) = Error e"
| "Error (StatusErr r m) = m"
| "Error (TerminalErr e) = ''terminal error: '' @ Error e"

text \<open>\<^verbatim>\<open>errors.As\<close>: the first error of the chain with the wanted type.\<close>

fun errors_As :: "(goerr \<Rightarrow> bool) \<Rightarrow> goerr \<Rightarrow> goerr option" where
  "errors_As P (ErrMsg m) = (if P (ErrMsg m) then Some (ErrMsg m) else None)"
| "errors_As P (WrapErr p e) = (if P (WrapErr p e) then Some (WrapErr p e) else errors_As P e)"
| "errors_As P (invalidError e) = (if P (invalidError e) then Some (invalidError e) else errors_As P e)"
| "errors_As P (dependencyError r e) =
     (if P (dependencyError r e) then Some (dependencyError r e) else errors_As P e)"
| "errors_As P (invalidStateError e) =
     (if P (invalidStateError e) then Some (invalidStateError e) else errors_As P e)"
| "errors_As P (StatusErr r m) = (if P (StatusErr r m) then Some (StatusErr r m) else None)"
| "errors_As P (TerminalErr e) = (if P (TerminalErr e) then Some (TerminalErr e) else errors_As P e)"

lemma errors_As_sound: "errors_As P e = Some e' \<Longrightarrow> P e'"
  by (induction e) (auto split: if_splits)

definition IsInvalid :: "goerr \<Rightarrow> bool" where
  "IsInvalid e \<longleftrightarrow> errors_As is_invalidError e \<noteq> None"

definition mark_invalid :: "goerr \<Rightarrow> goerr" where
  "mark_invalid e = (if IsInvalid e then e else invalidError e)"

text \<open>\<open>None\<close> is the nil error.\<close>

fun Invalid :: "goerr option \<Rightarrow> goerr option" where
  "Invalid None = None"
| "Invalid (Some e) = Some (mark_invalid e)"

definition dependency :: "string \<Rightarrow> goerr \<Rightarrow> goerr" where
  "dependency reason e = dependencyError reason e"

definition WarningReason :: "goerr \<Rightarrow> string option" where
  "WarningReason e =
     (case errors_As is_dependencyError e of
        Some (dependencyError reason _) \<Rightarrow> Some reason
      | _ \<Rightarrow> None)"

definition IsInvalidState :: "goerr \<Rightarrow> bool" where
  "IsInvalidState e \<longleftrightarrow> errors_As is_invalidStateError e \<noteq> None"

definition mark_invalidState :: "goerr \<Rightarrow> goerr" where
  "mark_invalidState e = (if IsInvalidState e then e else invalidStateError e)"

fun invalidState :: "goerr option \<Rightarrow> goerr option" where
  "invalidState None = None"
| "invalidState (Some e) = Some (mark_invalidState e)"

definition status_reason :: "goerr \<Rightarrow> status_reason option" where
  "status_reason e =
     (case errors_As (\<lambda>x. case x of StatusErr _ _ \<Rightarrow> True | _ \<Rightarrow> False) e of
        Some (StatusErr r _) \<Rightarrow> Some r
      | _ \<Rightarrow> None)"

definition IsNotFound :: "goerr \<Rightarrow> bool" where
  "IsNotFound e \<longleftrightarrow> status_reason e = Some NotFound"

definition IsConflict :: "goerr \<Rightarrow> bool" where
  "IsConflict e \<longleftrightarrow> status_reason e = Some Conflict"

definition IsAlreadyExists :: "goerr \<Rightarrow> bool" where
  "IsAlreadyExists e \<longleftrightarrow> status_reason e = Some AlreadyExists"

fun terminalSourceError :: "goerr option \<Rightarrow> goerr option" where
  "terminalSourceError None = None"
| "terminalSourceError (Some e) = (if \<not> IsInvalid e then Some e else Some (TerminalErr e))"

fun terminalOutputError :: "goerr option \<Rightarrow> goerr option" where
  "terminalOutputError None = None"
| "terminalOutputError (Some e) = (if \<not> IsInvalidState e then Some e else Some (TerminalErr e))"

definition resolutionWarningReason :: "goerr \<Rightarrow> string" where
  "resolutionWarningReason e =
     (case WarningReason e of Some reason \<Rightarrow> reason | None \<Rightarrow> ''ResolutionFailed'')"

section \<open>The markers survive context\<close>

lemma IsInvalid_simps [simp]:
  "\<not> IsInvalid (ErrMsg m)" "IsInvalid (WrapErr p e) \<longleftrightarrow> IsInvalid e" "IsInvalid (invalidError e)"
  "IsInvalid (dependencyError r e) \<longleftrightarrow> IsInvalid e" "\<not> IsInvalid (StatusErr sr m)"
  "IsInvalid (invalidStateError e) \<longleftrightarrow> IsInvalid e" "IsInvalid (TerminalErr e) \<longleftrightarrow> IsInvalid e"
  by (simp_all add: IsInvalid_def)

lemma IsInvalidState_simps [simp]:
  "\<not> IsInvalidState (ErrMsg m)" "IsInvalidState (WrapErr p e) \<longleftrightarrow> IsInvalidState e"
  "IsInvalidState (invalidError e) \<longleftrightarrow> IsInvalidState e"
  "IsInvalidState (dependencyError r e) \<longleftrightarrow> IsInvalidState e" "\<not> IsInvalidState (StatusErr sr m)"
  "IsInvalidState (invalidStateError e)" "IsInvalidState (TerminalErr e) \<longleftrightarrow> IsInvalidState e"
  by (simp_all add: IsInvalidState_def)

lemma status_reason_simps [simp]:
  "status_reason (ErrMsg m) = None" "status_reason (StatusErr r m) = Some r"
  "status_reason (WrapErr p e) = status_reason e" "status_reason (invalidError e) = status_reason e"
  "status_reason (dependencyError d e) = status_reason e"
  "status_reason (invalidStateError e) = status_reason e"
  by (simp_all add: status_reason_def)

lemma WarningReason_simps [simp]:
  "WarningReason (ErrMsg m) = None" "WarningReason (StatusErr r m) = None"
  "WarningReason (WrapErr p e) = WarningReason e" "WarningReason (invalidError e) = WarningReason e"
  "WarningReason (dependencyError d e) = Some d"
  "WarningReason (invalidStateError e) = WarningReason e"
  by (simp_all add: WarningReason_def)

lemma mark_invalid_IsInvalid [simp]: "IsInvalid (mark_invalid e)"
  by (simp add: mark_invalid_def)

lemma mark_invalid_Error [simp]: "Error (mark_invalid e) = Error e"
  by (simp add: mark_invalid_def)

lemma mark_invalid_idem [simp]: "mark_invalid (mark_invalid e) = mark_invalid e"
  by (simp add: mark_invalid_def)

lemma mark_invalid_simps [simp]:
  "status_reason (mark_invalid e) = status_reason e" "WarningReason (mark_invalid e) = WarningReason e"
  by (simp_all add: mark_invalid_def)

lemma mark_invalidState_IsInvalidState [simp]: "IsInvalidState (mark_invalidState e)"
  by (simp add: mark_invalidState_def)

lemma mark_invalidState_status [simp]: "status_reason (mark_invalidState e) = status_reason e"
  by (simp add: mark_invalidState_def)

end
