(* ===== verification/Names.thy ===== *)
theory Names
  imports Errors
begin

text \<open>
  \<^verbatim>\<open>internal/source/names.go\<close>: hostname normalisation and zone matching.

  \<^verbatim>\<open>validation.IsDNS1123Subdomain\<close> of \<^verbatim>\<open>k8s.io/apimachinery\<close> is the parameter \<open>D\<close>, which returns the
  list of complaints about a name.  Theorems that rely on it assume \<open>dns1123_doc D\<close>, the
  documented rule: lower-case alphanumerics, \<open>-\<close> and \<open>.\<close>, starting and ending with an
  alphanumeric, at most 253 bytes.
\<close>

type_synonym name_check = "string \<Rightarrow> string list"

definition check_hostname :: "name_check \<Rightarrow> string \<Rightarrow> string \<Rightarrow> string result" where
  "check_hostname D check value =
     (let errs = D check in
      if length errs \<noteq> 0
      then Inl (mark_invalid (ErrMsg (Sprintf ''not a DNS hostname: %s'' [FStr (Join errs '', '')])))
      else Inr value)"

definition wildcard_error :: goerr where
  "wildcard_error =
     mark_invalid (ErrMsg ''wildcard is permitted only as the complete first label'')"

definition NormalizeHostname :: "name_check \<Rightarrow> string \<Rightarrow> string result" where
  "NormalizeHostname D raw =
     (let value = ToLower (TrimSuffix (TrimSpace raw) ''.'') in
      case CutPrefix value ''*.'' of
        (remainder, wildcard) \<Rightarrow>
          if wildcard
          then (if Contains remainder ''*'' then Inl wildcard_error
                else check_hostname D remainder value)
          else if Contains value ''*'' then Inl wildcard_error
          else check_hostname D value value)"

definition zone_step :: "string \<Rightarrow> string \<Rightarrow> string \<Rightarrow> string" where
  "zone_step hostname best zone0 =
     (let zone = ToLower (TrimSuffix zone0 ''.'') in
      if (hostname = zone \<or> HasSuffix hostname (''.'' @ zone)) \<and> length zone > length best
      then zone else best)"

definition matchingZone :: "string \<Rightarrow> string list \<Rightarrow> string" where
  "matchingZone hostname0 zones =
     (let hostname = TrimPrefix (ToLower (TrimSuffix hostname0 ''.'')) ''*.'' in
      foldl (zone_step hostname) '''' zones)"

section \<open>What a normalised hostname looks like\<close>

definition is_dns_char :: "char \<Rightarrow> bool" where
  "is_dns_char c \<longleftrightarrow>
     97 \<le> code c \<and> code c \<le> 122 \<or> is_digit c \<or> c = CHR ''-'' \<or> c = CHR ''.''"

definition is_alnum :: "char \<Rightarrow> bool" where
  "is_alnum c \<longleftrightarrow> 97 \<le> code c \<and> code c \<le> 122 \<or> is_digit c"

definition dns1123_shape :: "string \<Rightarrow> bool" where
  "dns1123_shape s \<longleftrightarrow>
     s \<noteq> [] \<and> length s \<le> 253 \<and> list_all is_dns_char s \<and> is_alnum (hd s) \<and> is_alnum (last s)"

definition dns1123_doc :: "name_check \<Rightarrow> bool" where
  "dns1123_doc D \<longleftrightarrow> (\<forall>s. D s = [] \<longrightarrow> dns1123_shape s)"

definition wildcard_body :: "string \<Rightarrow> string" where
  "wildcard_body h = TrimPrefix h ''*.''"

definition wf_hostname :: "name_check \<Rightarrow> string \<Rightarrow> bool" where
  "wf_hostname D h \<longleftrightarrow> D (wildcard_body h) = [] \<and> CHR ''*'' \<notin> set (wildcard_body h)"

lemma dns_char_props:
  assumes "is_dns_char c \<or> c = CHR ''*''"
  shows "is_ascii c" "\<not> is_upper c" "is_graphic c"
  using assms
  by (auto simp: is_dns_char_def is_ascii_def is_upper_def is_digit_def is_graphic_def)

lemma clean_hostname_fixed:
  assumes "\<forall>c \<in> set s. is_dns_char c \<or> c = CHR ''*''" and "s \<noteq> []" "last s \<noteq> CHR ''.''"
  shows "ToLower (TrimSuffix (TrimSpace s) ''.'') = s"
proof -
  have "TrimSpace s = s" using assms(1) by (intro TrimSpace_graphic) (blast intro: dns_char_props)
  moreover have "\<not> suffix ''.'' s" using assms(2,3) by (auto simp: suffix_def)
  moreover have "ToLower s = s" using assms(1) dns_char_props by (intro ToLower_id) blast
  ultimately show ?thesis by simp
qed

lemma NormalizeHostname_Inr_iff:
  "NormalizeHostname D raw = Inr h \<longleftrightarrow>
     h = ToLower (TrimSuffix (TrimSpace raw) ''.'') \<and> wf_hostname D h"
proof -
  let ?v = "ToLower (TrimSuffix (TrimSpace raw) ''.'')"
  show ?thesis
    by (auto simp: NormalizeHostname_def Let_def CutPrefix_def wf_hostname_def wildcard_body_def
        TrimPrefix_def check_hostname_def split: if_splits)
qed

lemma NormalizeHostname_error: "NormalizeHostname D raw = Inl e \<Longrightarrow> IsInvalid e"
  by (auto simp: NormalizeHostname_def Let_def CutPrefix_def check_hostname_def wildcard_error_def
      split: if_splits)

lemma wf_hostname_chars:
  assumes "dns1123_doc D" "wf_hostname D h"
  shows "\<forall>c \<in> set h. is_dns_char c \<or> c = CHR ''*''" "h \<noteq> []" "last h \<noteq> CHR ''.''"
proof -
  have body: "dns1123_shape (wildcard_body h)"
    using assms by (auto simp: dns1123_doc_def wf_hostname_def)
  have h: "h = wildcard_body h \<or> h = ''*.'' @ wildcard_body h"
    by (auto simp: wildcard_body_def TrimPrefix_def prefix_def)
  have last: "last (wildcard_body h) \<noteq> CHR ''.''"
    using body by (auto simp: dns1123_shape_def is_alnum_def is_digit_def)
  have ne: "wildcard_body h \<noteq> []" using body by (simp add: dns1123_shape_def)
  show "\<forall>c \<in> set h. is_dns_char c \<or> c = CHR ''*''"
    using h body by (auto simp: dns1123_shape_def list_all_iff is_dns_char_def)
       (metis Un_iff set_append set_ConsD empty_iff list.set(1))+
  show "h \<noteq> []" using h ne by auto
  show "last h \<noteq> CHR ''.''" using h ne last by (metis last_appendR)
qed

section \<open>Zone matching is the longest label-boundary suffix\<close>

definition host_key :: "string \<Rightarrow> string" where
  "host_key hostname = TrimPrefix (ToLower (TrimSuffix hostname ''.'')) ''*.''"

definition zone_key :: "string \<Rightarrow> string" where
  "zone_key zone = ToLower (TrimSuffix zone ''.'')"

definition labels :: "string \<Rightarrow> string list" where
  "labels name = Split name CHR ''.''"

text \<open>The reference: the zone's labels are the last labels of the hostname.\<close>

definition in_zone :: "string \<Rightarrow> string \<Rightarrow> bool" where
  "in_zone host zone \<longleftrightarrow> zone \<noteq> '''' \<and> suffix (labels zone) (labels host)"

definition zone_candidates :: "string \<Rightarrow> string list \<Rightarrow> string set" where
  "zone_candidates hostname zones = {z \<in> zone_key ` set zones. in_zone (host_key hostname) z}"

lemma Split_append: "Split (a @ sep # b) sep = Split a sep @ Split b sep"
  by (induction a) (auto split: list.split)

lemma Join_append: "ws \<noteq> [] \<Longrightarrow> vs \<noteq> [] \<Longrightarrow> Join (ws @ vs) sep = Join ws sep @ sep @ Join vs sep"
  by (induction ws sep rule: Join.induct) (auto simp: neq_Nil_conv)

lemma label_suffix_iff: "suffix (labels z) (labels h) \<longleftrightarrow> h = z \<or> HasSuffix h (''.'' @ z)"
proof
  assume "suffix (labels z) (labels h)"
  then obtain ws where ws: "labels h = ws @ labels z" by (auto simp: suffix_def)
  have h: "h = Join (labels h) ''.''" and z: "z = Join (labels z) ''.''"
    by (simp_all add: labels_def)
  show "h = z \<or> HasSuffix h (''.'' @ z)"
  proof (cases "ws = []")
    case True
    with ws h z show ?thesis by simp
  next
    case False
    then have "h = Join ws ''.'' @ ''.'' @ z"
      by (subst h, subst ws, subst Join_append) (simp_all add: labels_def)
    then show ?thesis by (auto simp: HasSuffix_def suffix_def)
  qed
next
  assume "h = z \<or> HasSuffix h (''.'' @ z)"
  then show "suffix (labels z) (labels h)"
    by (auto simp: HasSuffix_def suffix_def labels_def Split_append)
qed

lemma zone_step_eq:
  "zone_step h best z = (if in_zone h (zone_key z) \<and> length best < length (zone_key z)
     then zone_key z else best)"
  by (auto simp: zone_step_def zone_key_def in_zone_def label_suffix_iff Let_def)

lemma zone_fold:
  "let r = foldl (zone_step h) best zones; C = {z \<in> zone_key ` set zones. in_zone h z}
   in (r = best \<or> r \<in> C) \<and> length best \<le> length r \<and> (\<forall>z \<in> C. length z \<le> length r)"
proof (induction zones arbitrary: best)
  case (Cons z zones)
  from Cons [of "zone_step h best z"] show ?case
    by (auto simp: Let_def zone_step_eq split: if_splits)
qed simp

lemma in_zone_same_length: "in_zone h y \<Longrightarrow> in_zone h z \<Longrightarrow> length y = length z \<Longrightarrow> y = z"
proof -
  assume "in_zone h y" "in_zone h z" "length y = length z"
  then have "suffix y h" "suffix z h"
    by (auto simp: in_zone_def label_suffix_iff HasSuffix_def dest: suffix_ConsD)
  with \<open>length y = length z\<close> show "y = z" by (auto simp: suffix_def)
qed

lemma matchingZone_fold: "matchingZone hostname zones = foldl (zone_step (host_key hostname)) '''' zones"
  by (simp add: matchingZone_def host_key_def Let_def)

text \<open>C27: \<open>matchingZone\<close> answers the longest configured zone whose labels are the last labels of
  the (normalised, wildcard-stripped) hostname, and the empty string exactly when the hostname is
  in none of the zones; the order of the zones does not matter.\<close>

theorem matchingZone_longest_suffix:
  "matchingZone hostname zones = z \<longleftrightarrow>
     (if zone_candidates hostname zones = {} then z = ''''
      else z \<in> zone_candidates hostname zones \<and>
           (\<forall>z' \<in> zone_candidates hostname zones. length z' \<le> length z))"
proof -
  let ?r = "matchingZone hostname zones" and ?C = "zone_candidates hostname zones"
  have fold: "?r = '''' \<or> ?r \<in> ?C" and longest: "\<forall>z \<in> ?C. length z \<le> length ?r"
    using zone_fold [of "host_key hostname" "''''" zones]
    by (auto simp: Let_def matchingZone_fold zone_candidates_def)
  have "?r \<in> ?C" if "?C \<noteq> {}"
  proof -
    from that obtain z where "z \<in> ?C" by blast
    with longest have "length z \<le> length ?r" "z \<noteq> ''''"
      by (auto simp: zone_candidates_def in_zone_def)
    with fold show ?thesis by auto
  qed
  moreover have "y = z" if "y \<in> ?C" "z \<in> ?C" "length y = length z" for y z
    using that by (auto simp: zone_candidates_def intro: in_zone_same_length)
  ultimately show ?thesis using fold longest
    by (cases "?C = {}") (auto, metis order_antisym)
qed

theorem matchingZone_longest_suffix_witness:
  "matchingZone ''*.App.Lab.Example.'' [''example'', ''Lab.example.'', ''b.example''] = ''lab.example''"
proof -
  have "zone_candidates ''*.App.Lab.Example.'' [''example'', ''Lab.example.'', ''b.example''] = {''example'', ''lab.example''}"
    unfolding zone_candidates_def in_zone_def by code_simp
  then show ?thesis unfolding matchingZone_longest_suffix by simp
qed

text \<open>C28: a successful \<open>NormalizeHostname\<close> yields a name whose only possible wildcard is a leading
  \<open>*.\<close>, whose remainder passes the DNS-1123 check, and which is a fixed point: normalising it
  again changes nothing.  A rejected hostname is always reported as a deterministic (invalid)
  error.\<close>

theorem NormalizeHostname_correct:
  assumes "dns1123_doc D"
  shows "case NormalizeHostname D raw of
           Inl e \<Rightarrow> IsInvalid e
         | Inr h \<Rightarrow> wf_hostname D h \<and> NormalizeHostname D h = Inr h \<and>
                   (\<forall>c \<in> set h. \<not> is_upper c) \<and> \<not> HasSuffix h ''.''"
proof (cases "NormalizeHostname D raw")
  case (Inl e)
  then show ?thesis by (simp add: NormalizeHostname_error)
next
  case (Inr h)
  then have wf: "wf_hostname D h" unfolding NormalizeHostname_Inr_iff by blast
  note chars = wf_hostname_chars [OF assms wf]
  have "NormalizeHostname D h = Inr h"
    using clean_hostname_fixed [OF chars] wf unfolding NormalizeHostname_Inr_iff by metis
  moreover have "\<forall>c \<in> set h. \<not> is_upper c" using chars(1) dns_char_props(2) by blast
  moreover have "\<not> HasSuffix h ''.''" using chars(2,3) by (auto simp: HasSuffix_def suffix_def)
  ultimately show ?thesis using Inr wf by simp
qed

definition dns1123_ref :: name_check where
  "dns1123_ref s = (if dns1123_shape s then [] else [''invalid''])"

lemma dns1123_ref_doc: "dns1123_doc dns1123_ref"
  by (simp add: dns1123_doc_def dns1123_ref_def)

theorem NormalizeHostname_correct_witness:
  "dns1123_doc dns1123_ref \<and> NormalizeHostname dns1123_ref '' *.Example.COM.'' = Inr ''*.example.com'' \<and>
   NormalizeHostname dns1123_ref ''*.example.com'' = Inr ''*.example.com''"
proof -
  have n: "NormalizeHostname dns1123_ref '' *.Example.COM.'' = Inr ''*.example.com''"
    unfolding NormalizeHostname_Inr_iff by (intro conjI; code_simp)
  show ?thesis
    using NormalizeHostname_correct [OF dns1123_ref_doc, of "'' *.Example.COM.''"] n dns1123_ref_doc
    by simp
qed

end
