(* ===== verification/Go_Time.thy ===== *)
theory Go_Time
  imports Go_Strconv "HOL-Library.Monad_Syntax"
begin

text \<open>
  Go's \<^verbatim>\<open>time\<close> package as far as labdns uses it.

  \<^item> A \<^verbatim>\<open>time.Duration\<close> is an \<open>int\<close> number of nanoseconds between $-2^{63}$ and $2^{63}-1$;
    \<open>ParseDuration\<close> and \<open>Duration_String\<close> follow the library's algorithms.  The fraction of a unit
    is computed exactly where Go goes through \<^verbatim>\<open>float64\<close>; the two agree on every string
    \<^verbatim>\<open>Duration.String\<close> prints, whose fractions are whole nanoseconds.
  \<^item> A \<^verbatim>\<open>time.Time\<close> in UTC is an \<open>int\<close> number of nanoseconds since the Unix epoch; \<open>FormatRFC3339\<close>
    and \<open>ParseRFC3339\<close> are \<^verbatim>\<open>Format\<close> and \<^verbatim>\<open>Parse\<close> with the layout \<^verbatim>\<open>time.RFC3339Nano\<close>, the calendar
    being the proleptic Gregorian one.  \<^verbatim>\<open>time.Parse\<close> also takes some sloppy spellings, which
    the canonicity check of the only caller rejects; \<open>ParseRFC3339\<close> rejects them at once.

  The main facts are the two round trips \<open>ParseDuration_String\<close> and \<open>ParseRFC3339_Format\<close>.
\<close>

section \<open>Fixed-width decimals and fractions\<close>

fun pad :: "nat \<Rightarrow> nat \<Rightarrow> string" where
  "pad 0 v = []"
| "pad (Suc n) v = pad n (v div 10) @ [digit_char (v mod 10)]"

definition strip_zeros :: "string \<Rightarrow> string" where
  "strip_zeros s = rev (dropWhile (\<lambda>c. c = CHR ''0'') (rev s))"

text \<open>\<^verbatim>\<open>fmtFrac\<close>: the decimals of \<open>v / 10 ^ prec\<close> without trailing zeros.\<close>

definition frac_digits :: "nat \<Rightarrow> nat \<Rightarrow> string" where
  "frac_digits prec v = strip_zeros (pad prec (v mod 10 ^ prec))"

definition fmtFrac :: "nat \<Rightarrow> nat \<Rightarrow> string" where
  "fmtFrac prec v = (let ds = frac_digits prec v in if ds = [] then [] else CHR ''.'' # ds)"

lemma length_pad [simp]: "length (pad n v) = n"
  by (induction n arbitrary: v) auto

lemma pad_digits: "c \<in> set (pad n v) \<Longrightarrow> is_digit c"
  by (induction n arbitrary: v) auto

lemma digits_value_pad: "digits_value (pad n v) = v mod 10 ^ n"
proof (induction n arbitrary: v)
  case (Suc n)
  have "v mod 10 ^ Suc n = v mod 10 + 10 * (v div 10 mod 10 ^ n)"
    by (simp add: mod_mult2_eq)
  with Suc show ?case by simp
qed simp

lemma digits_value_zeros: "digits_value (replicate k (CHR ''0'')) = 0"
  by (induction k) (simp_all add: digits_value_Cons digit_val_def)

lemma strip_zeros_append: "\<exists>k. s = strip_zeros s @ replicate k (CHR ''0'')"
proof -
  let ?z = "\<lambda>c. c = CHR ''0''"
  have "takeWhile ?z (rev s) = replicate (length (takeWhile ?z (rev s))) (CHR ''0'')"
    by (rule replicate_length_same [symmetric]) (auto dest: set_takeWhileD)
  then have "rev (takeWhile ?z (rev s)) = replicate (length (takeWhile ?z (rev s))) (CHR ''0'')"
    by (metis rev_replicate)
  moreover have "s = strip_zeros s @ rev (takeWhile ?z (rev s))"
    unfolding strip_zeros_def by (metis rev_append rev_rev_ident takeWhile_dropWhile_id)
  ultimately show ?thesis by metis
qed

lemma frac_digits_digits: "c \<in> set (frac_digits prec v) \<Longrightarrow> is_digit c"
  using strip_zeros_append [of "pad prec (v mod 10 ^ prec)"] pad_digits [of c prec "v mod 10 ^ prec"]
  by (metis Un_iff frac_digits_def set_append)

lemma frac_digits_length: "length (frac_digits prec v) \<le> prec"
  using strip_zeros_append [of "pad prec (v mod 10 ^ prec)"]
  by (metis frac_digits_def le_add1 length_append length_pad)

lemma frac_digits_value:
  "digits_value (frac_digits prec v) * 10 ^ (prec - length (frac_digits prec v)) = v mod 10 ^ prec"
proof -
  let ?p = "pad prec (v mod 10 ^ prec)"
  obtain k where k: "?p = frac_digits prec v @ replicate k (CHR ''0'')"
    using strip_zeros_append [of ?p] unfolding frac_digits_def by blast
  then have "length (frac_digits prec v) + k = prec"
    by (metis length_append length_pad length_replicate)
  then have "prec - length (frac_digits prec v) = k" by linarith
  moreover have "v mod 10 ^ prec = digits_value (frac_digits prec v) * 10 ^ k"
    using arg_cong [OF k, of digits_value]
    by (simp add: digits_value_pad digits_value_append digits_value_zeros)
  ultimately show ?thesis by simp
qed

section \<open>Durations\<close>

definition max_duration :: int where "max_duration = 2 ^ 63 - 1"

abbreviation second_ns :: int where "second_ns \<equiv> 1000000000"

definition duration_nat :: "nat \<Rightarrow> string" where
  "duration_nat u =
     (if u < 10 ^ 9 then
        (if u = 0 then ''0s''
         else if u < 10 ^ 3 then show_nat u @ ''ns''
         else if u < 10 ^ 6 then show_nat (u div 10 ^ 3) @ fmtFrac 3 u @ [CHR 0xC2, CHR 0xB5, CHR ''s'']
         else show_nat (u div 10 ^ 6) @ fmtFrac 6 u @ ''ms'')
      else
        (let secs = u div 10 ^ 9; mins = secs div 60; hours = mins div 60 in
         (if hours > 0 then show_nat hours @ ''h'' else []) @
         (if mins > 0 then show_nat (mins mod 60) @ ''m'' else []) @
         show_nat (secs mod 60) @ fmtFrac 9 u @ ''s''))"

definition Duration_String :: "int \<Rightarrow> string" where
  "Duration_String d = (if d < 0 then CHR ''-'' # duration_nat (nat (- d)) else duration_nat (nat d))"

definition unit_value :: "string \<Rightarrow> nat option" where
  "unit_value u =
     map_of [(''ns'', 1), (''us'', 10 ^ 3), ([CHR 0xC2, CHR 0xB5, CHR ''s''], 10 ^ 3),
             ([CHR 0xCE, CHR 0xBC, CHR ''s''], 10 ^ 3), (''ms'', 10 ^ 6), (''s'', 10 ^ 9),
             (''m'', 60 * 10 ^ 9), (''h'', 3600 * 10 ^ 9)] u"

text \<open>\<^verbatim>\<open>leadingFraction\<close>: digits beyond the precision of 63 bits are read but ignored.\<close>

fun leading_fraction :: "nat \<Rightarrow> nat \<Rightarrow> string \<Rightarrow> nat \<times> nat" where
  "leading_fraction x scale [] = (x, scale)"
| "leading_fraction x scale (c # cs) =
     (let y = x * 10 + digit_val c in
      if x > (2 ^ 63 - 1) div 10 \<or> y > 2 ^ 63 then (x, scale)
      else leading_fraction y (scale * 10) cs)"

definition is_num_char :: "char \<Rightarrow> bool" where
  "is_num_char c \<longleftrightarrow> c = CHR ''.'' \<or> is_digit c"

text \<open>One ``number unit'' group: its value in nanoseconds and the rest of the string.\<close>

definition duration_group :: "string \<Rightarrow> (nat \<times> string) option" where
  "duration_group s =
     (let ds = takeWhile is_digit s; s1 = dropWhile is_digit s;
          dot = prefix ''.'' s1;
          fs = (if dot then takeWhile is_digit (drop 1 s1) else []);
          s2 = (if dot then dropWhile is_digit (drop 1 s1) else s1);
          u = takeWhile (\<lambda>c. \<not> is_num_char c) s2; rest = dropWhile (\<lambda>c. \<not> is_num_char c) s2;
          v = digits_value ds
      in if ds = [] \<and> fs = [] then None
         else if v > 2 ^ 63 then None
         else if u = [] then None
         else (case unit_value u of
                 None \<Rightarrow> None
               | Some unit \<Rightarrow>
                   if v > 2 ^ 63 div unit then None
                   else (case leading_fraction 0 1 fs of
                           (f, scale) \<Rightarrow>
                             (let total = v * unit + f * unit div scale in
                              if total > 2 ^ 63 then None else Some (total, rest)))))"

lemma duration_group_shorter: "duration_group s = Some (v, rest) \<Longrightarrow> length rest < length s"
proof -
  assume grp: "duration_group s = Some (v, rest)"
  define s1 where "s1 = dropWhile is_digit s"
  define s2 where "s2 = (if prefix ''.'' s1 then dropWhile is_digit (drop 1 s1) else s1)"
  have rest: "rest = dropWhile (\<lambda>c. \<not> is_num_char c) s2"
    and u: "takeWhile (\<lambda>c. \<not> is_num_char c) s2 \<noteq> []"
    using grp by (auto simp: duration_group_def Let_def s1_def s2_def
        split: if_splits option.splits prod.splits)
  have "length rest < length s2"
    unfolding rest using u by (metis length_append length_greater_0_conv less_add_same_cancel2
        takeWhile_dropWhile_id)
  also have "length s2 \<le> length s1"
    unfolding s2_def using length_dropWhile_le [of is_digit "drop 1 s1"] by auto
  also have "length s1 \<le> length s" unfolding s1_def by (rule length_dropWhile_le)
  finally show "length rest < length s" .
qed

text \<open>The running total is a \<^verbatim>\<open>uint64\<close> that wraps around before it is compared with $2^{63}$.\<close>

function duration_groups :: "nat \<Rightarrow> string \<Rightarrow> nat option" where
  "duration_groups d s =
     (if s = [] then Some d
      else (case duration_group s of
              None \<Rightarrow> None
            | Some (v, rest) \<Rightarrow>
                (let d' = (d + v) mod 2 ^ 64 in
                 if d' > 2 ^ 63 then None else duration_groups d' rest)))"
  by pat_completeness auto
termination
  by (relation "measure (\<lambda>(d, s). length s)") (auto dest: duration_group_shorter)

declare duration_groups.simps [simp del]

definition ParseDuration :: "string \<Rightarrow> int option" where
  "ParseDuration orig =
     (let neg = prefix ''-'' orig;
          s = (if prefix ''-'' orig \<or> prefix ''+'' orig then drop 1 orig else orig)
      in if s = ''0'' then Some 0
         else if s = [] then None
         else (case duration_groups 0 s of
                 None \<Rightarrow> None
               | Some d \<Rightarrow>
                   if neg then Some (- int d)
                   else if d > 2 ^ 63 - 1 then None else Some (int d)))"

section \<open>Durations: printing and parsing are inverse\<close>

lemma leading_fraction_short:
  "\<forall>c \<in> set fs. is_digit c \<Longrightarrow> x * 10 ^ length fs + 10 ^ length fs \<le> 10 ^ 18 \<Longrightarrow>
     leading_fraction x scale fs = (x * 10 ^ length fs + digits_value fs, scale * 10 ^ length fs)"
proof (induction fs arbitrary: x scale)
  case (Cons c fs)
  let ?y = "x * 10 + digit_val c" and ?n = "length fs"
  have c: "digit_val c < 10" using Cons.prems(1) by simp
  have "?y * 10 ^ ?n + 10 ^ ?n \<le> (x * 10 + 9) * 10 ^ ?n + 10 ^ ?n"
    using c by (intro add_mono mult_right_mono) auto
  also have "\<dots> = x * 10 ^ length (c # fs) + 10 ^ length (c # fs)" by (simp add: algebra_simps)
  finally have y: "?y * 10 ^ ?n + 10 ^ ?n \<le> 10 ^ 18" using Cons.prems(2) by linarith
  have "?y * 1 \<le> ?y * 10 ^ ?n" by (intro mult_left_mono) auto
  then have "?y \<le> ?y * 10 ^ ?n + 10 ^ ?n" by (simp add: trans_le_add1)
  with y have "?y \<le> 10 ^ 18" by (rule order_trans [rotated])
  moreover from this have "x \<le> (2 ^ 63 - 1) div 10" by simp
  ultimately have "leading_fraction x scale (c # fs) = leading_fraction ?y (scale * 10) fs"
    by (simp add: Let_def)
  also have "\<dots> = (?y * 10 ^ ?n + digits_value fs, scale * 10 * 10 ^ ?n)"
    using Cons.IH Cons.prems(1) y by simp
  finally have step: "leading_fraction x scale (c # fs) =
      (?y * 10 ^ ?n + digits_value fs, scale * 10 * 10 ^ ?n)" .
  show ?case unfolding step by (simp add: digits_value_Cons algebra_simps)
qed simp

definition point :: "string \<Rightarrow> string" where
  "point fs = (if fs = [] then [] else CHR ''.'' # fs)"

lemma fmtFrac_point: "fmtFrac prec v = point (frac_digits prec v)"
  by (simp add: fmtFrac_def point_def Let_def)

lemma takeWhile_stop: "\<forall>x \<in> set xs. P x \<Longrightarrow> ys = [] \<or> \<not> P (hd ys) \<Longrightarrow>
   takeWhile P (xs @ ys) = xs \<and> dropWhile P (xs @ ys) = ys"
  by (cases ys) (auto simp: dropWhile_append2 takeWhile_append2)

lemma duration_group_print:
  assumes ds: "ds \<noteq> []" "\<forall>c \<in> set ds. is_digit c" and fs: "\<forall>c \<in> set fs. is_digit c" "length fs \<le> 9"
    and u: "u \<noteq> []" "\<forall>c \<in> set u. \<not> is_num_char c" "unit_value u = Some unit"
    and rest: "rest = [] \<or> is_num_char (hd rest)"
    and bound: "digits_value ds * unit + digits_value fs * unit div 10 ^ length fs \<le> 2 ^ 63"
  shows "duration_group (ds @ point fs @ u @ rest) =
    Some (digits_value ds * unit + digits_value fs * unit div 10 ^ length fs, rest)"
proof -
  have hd_u: "\<not> is_num_char (hd u)" using u by simp
  have unit0: "unit > 0" using u(3) by (auto simp: unit_value_def split: if_splits)
  have s1: "takeWhile is_digit (ds @ point fs @ u @ rest) = ds"
    "dropWhile is_digit (ds @ point fs @ u @ rest) = point fs @ u @ rest"
    using takeWhile_stop [of ds is_digit "point fs @ u @ rest"] ds(2) hd_u u(1)
    by (auto simp: point_def is_num_char_def is_digit_def)
  have dot: "prefix ''.'' (point fs @ u @ rest) \<longleftrightarrow> fs \<noteq> []"
    using hd_u u(1) by (cases u) (auto simp: point_def is_num_char_def)
  have s2: "takeWhile is_digit (fs @ u @ rest) = fs" "dropWhile is_digit (fs @ u @ rest) = u @ rest"
    using takeWhile_stop [of fs is_digit "u @ rest"] fs(1) hd_u u(1) by (auto simp: is_num_char_def)
  have s3: "takeWhile (\<lambda>c. \<not> is_num_char c) (u @ rest) = u"
    "dropWhile (\<lambda>c. \<not> is_num_char c) (u @ rest) = rest"
    using takeWhile_stop [of u "\<lambda>c. \<not> is_num_char c" rest] u(2) rest by auto
  have v: "digits_value ds \<le> 2 ^ 63 div unit"
    using bound unit0 by (subst less_eq_div_iff_mult_less_eq) (simp_all add: algebra_simps)
  have "digits_value ds * 1 \<le> digits_value ds * unit" using unit0 by (intro mult_left_mono) auto
  then have v': "digits_value ds \<le> 2 ^ 63" using bound by linarith
  have f: "leading_fraction 0 1 fs = (digits_value fs, 10 ^ length fs)"
    using leading_fraction_short [of fs 0 1] fs power_increasing [of "length fs" 18 "10::nat"] by simp
  show ?thesis
    using ds(1) u(1,3) v v' f bound s1 s2 s3 dot
    by (cases "fs = []") (simp_all add: duration_group_def Let_def point_def)
qed

lemma duration_groups_step:
  assumes "duration_group s = Some (v, rest)" "d + v < 2 ^ 63"
  shows "duration_groups d s = duration_groups (d + v) rest"
proof -
  have "s \<noteq> []" using duration_group_shorter [OF assms(1)] by auto
  then show ?thesis using assms by (simp add: duration_groups.simps [of d s] Let_def)
qed

lemma duration_groups_Nil [simp]: "duration_groups d [] = Some d"
  by (simp add: duration_groups.simps)

lemmas print_digits = show_nat_digits frac_digits_digits

lemma unit_facts:
  "unit_value ''ns'' = Some 1" "unit_value [CHR 0xC2, CHR 0xB5, CHR ''s''] = Some (10 ^ 3)"
  "unit_value ''ms'' = Some (10 ^ 6)" "unit_value ''s'' = Some (10 ^ 9)"
  "unit_value ''m'' = Some (60 * 10 ^ 9)" "unit_value ''h'' = Some (3600 * 10 ^ 9)"
  by (simp_all add: unit_value_def)

lemma frac_print_value:
  "n * 10 ^ prec + digits_value (frac_digits prec v) * 10 ^ prec div 10 ^ length (frac_digits prec v)
    = n * 10 ^ prec + v mod 10 ^ prec"
proof -
  let ?f = "frac_digits prec v"
  have "(10::nat) ^ prec = 10 ^ (prec - length ?f) * 10 ^ length ?f"
    using frac_digits_length [of prec v] by (simp flip: power_add)
  then have "digits_value ?f * 10 ^ prec div 10 ^ length ?f = digits_value ?f * 10 ^ (prec - length ?f)"
    by (metis (no_types, lifting) mult.assoc nonzero_mult_div_cancel_right power_not_zero zero_neq_numeral)
  then show ?thesis by (simp add: frac_digits_value)
qed

lemma group_print:
  assumes "prec \<le> 9" "unit_value u = Some (10 ^ prec)" "u \<noteq> []" "\<forall>c \<in> set u. \<not> is_num_char c"
    and "n * 10 ^ prec + v mod 10 ^ prec < 2 ^ 63" "d + n * 10 ^ prec + v mod 10 ^ prec < 2 ^ 63"
  shows "duration_groups d (show_nat n @ fmtFrac prec v @ u) = Some (d + n * 10 ^ prec + v mod 10 ^ prec)"
proof -
  have "duration_group (show_nat n @ point (frac_digits prec v) @ u @ []) =
      Some (n * 10 ^ prec + v mod 10 ^ prec, [])"
    using assms frac_digits_length [of prec v]
    by (subst duration_group_print) (auto simp: frac_print_value dest: print_digits)
  with assms(6) show ?thesis
    using duration_groups_step [of _ "n * 10 ^ prec + v mod 10 ^ prec" "[]" d]
    by (simp add: fmtFrac_point algebra_simps)
qed

lemma whole_group_print:
  assumes "unit_value u = Some unit" "u \<noteq> []" "\<forall>c \<in> set u. \<not> is_num_char c" "d + n * unit < 2 ^ 63"
  shows "duration_groups d (show_nat n @ u @ show_nat m @ t) = duration_groups (d + n * unit) (show_nat m @ t)"
proof -
  have "is_num_char (hd (show_nat m @ t))"
    using show_nat_digits [of "hd (show_nat m)" m] by (simp add: is_num_char_def hd_append)
  then have "duration_group (show_nat n @ point [] @ u @ (show_nat m @ t)) = Some (n * unit, show_nat m @ t)"
    using assms by (subst duration_group_print) (auto dest: print_digits)
  with assms(4) show ?thesis using duration_groups_step by (simp add: point_def)
qed

lemma not_num_units:
  "\<forall>c \<in> set ''ns''. \<not> is_num_char c" "\<forall>c \<in> set [CHR 0xC2, CHR 0xB5, CHR ''s'']. \<not> is_num_char c"
  "\<forall>c \<in> set ''ms''. \<not> is_num_char c" "\<forall>c \<in> set ''s''. \<not> is_num_char c"
  "\<forall>c \<in> set ''m''. \<not> is_num_char c" "\<forall>c \<in> set ''h''. \<not> is_num_char c"
  by (simp_all add: is_num_char_def is_digit_def)

lemma seconds_print:
  assumes "u < 2 ^ 63" "d + u div 10 ^ 9 mod 60 * 10 ^ 9 + u mod 10 ^ 9 < 2 ^ 63"
  shows "duration_groups d (show_nat (u div 10 ^ 9 mod 60) @ fmtFrac 9 u @ ''s'') =
     Some (d + u div 10 ^ 9 mod 60 * 10 ^ 9 + u mod 10 ^ 9)"
  using assms unit_facts(4) not_num_units(4)
  by (intro group_print) auto

lemma sexagesimal:
  "s = m * 60 + s' \<Longrightarrow> m = h * 60 + m' \<Longrightarrow>
     s * k + r = h * (3600 * k) + m' * (60 * k) + s' * k + (r::nat)"
  by (simp add: algebra_simps)

lemma duration_groups_print: "u < 2 ^ 63 \<Longrightarrow> duration_groups 0 (duration_nat u) = Some u"
proof -
  assume u: "u < 2 ^ 63"
  define secs where "secs = u div 10 ^ 9"
  define mins where "mins = secs div 60"
  define hours where "hours = mins div 60"
  have parts: "u = hours * (3600 * 10 ^ 9) + mins mod 60 * (60 * 10 ^ 9) + secs mod 60 * 10 ^ 9 + u mod 10 ^ 9"
  proof -
    have "u = secs * 10 ^ 9 + u mod 10 ^ 9" "secs = mins * 60 + secs mod 60" "mins = hours * 60 + mins mod 60"
      by (simp_all only: secs_def mins_def hours_def div_mult_mod_eq)
    then show ?thesis using sexagesimal [of secs mins _ hours] by metis
  qed
  consider "u = 0" | "0 < u" "u < 10 ^ 3" | "10 ^ 3 \<le> u" "u < 10 ^ 6" | "10 ^ 6 \<le> u" "u < 10 ^ 9" |
    "10 ^ 9 \<le> u" by linarith
  then show ?thesis
  proof cases
    case 1
    have "duration_group (''0'' @ point [] @ ''s'' @ []) = Some (0, [])"
      using not_num_units(4) unit_facts(4)
      by (subst duration_group_print) (simp_all add: is_digit_def digits_value_Cons digit_val_def)
    then have "duration_groups 0 ''0s'' = Some 0"
      using duration_groups_step [of "''0s''" 0 "[]" 0] by (simp add: point_def)
    with 1 show ?thesis by (simp add: duration_nat_def)
  next
    case 2
    have "fmtFrac 0 u = []" by (simp add: fmtFrac_def frac_digits_def strip_zeros_def)
    then show ?thesis using 2 group_print [of 0 "''ns''" u u 0] unit_facts(1) not_num_units(1)
      by (simp add: duration_nat_def)
  next
    case 3
    then show ?thesis using group_print [of 3 "[CHR 0xC2, CHR 0xB5, CHR ''s'']" "u div 10 ^ 3" u 0]
        unit_facts(2) not_num_units(2) by (simp add: duration_nat_def)
  next
    case 4
    then show ?thesis using group_print [of 6 "''ms''" "u div 10 ^ 6" u 0] unit_facts(3) not_num_units(3)
      by (simp add: duration_nat_def)
  next
    case 5
    let ?S = "show_nat (secs mod 60) @ fmtFrac 9 u @ ''s''"
    have S: "duration_groups (hours * (3600 * 10 ^ 9) + mins mod 60 * (60 * 10 ^ 9)) ?S = Some u"
      unfolding secs_def using seconds_print [of u "hours * (3600 * 10 ^ 9) + mins mod 60 * (60 * 10 ^ 9)"]
        u parts by (simp add: secs_def)
    have M: "duration_groups (hours * (3600 * 10 ^ 9)) (show_nat (mins mod 60) @ ''m'' @ ?S) = Some u"
      using S u parts whole_group_print [OF unit_facts(5) _ not_num_units(5)] by simp
    have H: "duration_groups 0 (show_nat hours @ ''h'' @ show_nat (mins mod 60) @ ''m'' @ ?S) = Some u"
      using M u parts whole_group_print [OF unit_facts(6) _ not_num_units(6)] by simp
    have "duration_nat u = (if hours > 0 then show_nat hours @ ''h'' else []) @
        (if mins > 0 then show_nat (mins mod 60) @ ''m'' else []) @ ?S"
      using 5 by (simp add: duration_nat_def Let_def hours_def mins_def secs_def)
    moreover have "hours > 0 \<Longrightarrow> mins > 0" by (auto simp: hours_def intro: gr0I)
    ultimately show ?thesis using S M H
      by (cases "hours > 0"; cases "mins > 0") (simp_all add: hours_def)
  qed
qed

lemma duration_nat_hd: "duration_nat u \<noteq> [] \<and> is_digit (hd (duration_nat u))"
proof -
  have d: "is_digit (hd (show_nat n))" for n using show_nat_digits [of "hd (show_nat n)" n] by simp
  show ?thesis
    by (auto simp: duration_nat_def Let_def d hd_append is_digit_def [of "CHR ''0''"])
qed

lemma duration_nat_not_0: "u < 2 ^ 63 \<Longrightarrow> duration_nat u \<noteq> ''0''"
proof
  assume u: "u < 2 ^ 63" and "duration_nat u = ''0''"
  then have "duration_groups 0 ''0'' = Some u" using duration_groups_print by metis
  then show False
    by (simp add: duration_groups.simps duration_group_def is_digit_def Let_def split: if_splits)
qed

lemma ParseDuration_bound: "ParseDuration v = Some d \<Longrightarrow> d \<le> max_duration"
  by (auto simp: ParseDuration_def Let_def max_duration_def split: if_splits option.splits)

lemma ParseDuration_String: "0 \<le> d \<Longrightarrow> d \<le> max_duration \<Longrightarrow> ParseDuration (Duration_String d) = Some d"
proof -
  assume d: "0 \<le> d" "d \<le> max_duration"
  then have u: "nat d < 2 ^ 63" by (simp add: max_duration_def)
  have "\<not> prefix ''-'' (duration_nat (nat d))" "\<not> prefix ''+'' (duration_nat (nat d))"
    using duration_nat_hd [of "nat d"] by (auto simp: prefix_def is_digit_def)
  then show ?thesis
    using d u duration_groups_print [OF u] duration_nat_hd [of "nat d"] duration_nat_not_0 [OF u]
    by (simp add: ParseDuration_def Duration_String_def Let_def)
qed

section \<open>Calendar\<close>

definition is_leap :: "int \<Rightarrow> bool" where
  "is_leap y \<longleftrightarrow> y mod 4 = 0 \<and> (y mod 100 \<noteq> 0 \<or> y mod 400 = 0)"

definition daysIn :: "int \<Rightarrow> int \<Rightarrow> int" where
  "daysIn m y =
     (if m = 2 then (if is_leap y then 29 else 28)
      else if m = 4 \<or> m = 6 \<or> m = 9 \<or> m = 11 then 30 else 31)"

text \<open>
  Days since the epoch and civil dates.  Years begin in March, so that the leap day is the last
  day of its year; 719468 days lie between 0000-03-01 and the epoch, and 400 years have 146097
  days.
\<close>

definition days_from_civil :: "int \<Rightarrow> int \<Rightarrow> int \<Rightarrow> int" where
  "days_from_civil y m d =
     (let y' = (if m \<le> 2 then y - 1 else y);
          era = y' div 400; yoe = y' mod 400;
          mp = (if m > 2 then m - 3 else m + 9);
          doy = (153 * mp + 2) div 5 + d - 1;
          doe = yoe * 365 + yoe div 4 - yoe div 100 + doy
      in era * 146097 + doe - 719468)"

text \<open>The position of a day in its 400-year cycle: century, four-year group, year, day of year.\<close>

definition cycle_year :: "int \<Rightarrow> int \<times> int" where
  "cycle_year doe =
     (let c = min 3 (doe div 36524); doc = doe - 36524 * c;
          q = doc div 1461; doq = doc - 1461 * q;
          yq = min 3 (doq div 365)
      in (100 * c + 4 * q + yq, doq - 365 * yq))"

definition civil_from_days :: "int \<Rightarrow> int \<times> int \<times> int" where
  "civil_from_days days =
     (let z = days + 719468; era = z div 146097; doe = z mod 146097;
          (yoe, doy) = cycle_year doe;
          mp = (5 * doy + 2) div 153;
          d = doy - (153 * mp + 2) div 5 + 1;
          m = (if mp < 10 then mp + 3 else mp - 9)
      in (yoe + era * 400 + (if m \<le> 2 then 1 else 0), m, d))"

lemma cycle_year_props:
  assumes "0 \<le> doe" "doe < 146097" "cycle_year doe = (yoe, doy)"
  shows "0 \<le> yoe" "yoe < 400" "0 \<le> doy" "doy \<le> 365"
    "doe = yoe * 365 + yoe div 4 - yoe div 100 + doy"
    "doy = 365 \<Longrightarrow> is_leap (yoe + 1)"
proof -
  define c where "c = min 3 (doe div 36524)"
  define doc where "doc = doe - 36524 * c"
  define q where "q = doc div 1461"
  define doq where "doq = doc - 1461 * q"
  define yq where "yq = min 3 (doq div 365)"
  have eq: "yoe = 100 * c + 4 * q + yq" "doy = doq - 365 * yq"
    using assms(3) by (auto simp: cycle_year_def Let_def c_def doc_def q_def doq_def yq_def)
  have c: "0 \<le> c" "c \<le> 3" "0 \<le> doc" "doc \<le> 36524" "c < 3 \<Longrightarrow> doc < 36524"
    using assms(1,2) unfolding c_def doc_def by (auto simp: min_def)
  have q: "0 \<le> q" "q \<le> 24" "0 \<le> doq" "doq \<le> 1460" "doc = 1461 * q + doq"
    using c unfolding q_def doq_def by auto
  have y: "0 \<le> yq" "yq \<le> 3" "0 \<le> doy" "doy \<le> 365" "doy = 365 \<Longrightarrow> yq = 3"
    using q unfolding yq_def eq by (auto simp: min_def split: if_splits)
  have d4: "yoe div 4 = 25 * c + q" and d100: "yoe div 100 = c"
    using q y unfolding eq by auto
  show "0 \<le> yoe" "yoe < 400" "0 \<le> doy" "doy \<le> 365" using c q y unfolding eq by auto
  show "doe = yoe * 365 + yoe div 4 - yoe div 100 + doy"
    unfolding d4 d100 using q(5) by (simp add: eq doc_def)
  show "is_leap (yoe + 1)" if "doy = 365"
  proof -
    have "yq = 3" "doq = 1460" using that y q eq by auto
    then have y1: "yoe + 1 = 100 * c + 4 * (q + 1)" and c3: "c < 3 \<longrightarrow> q \<le> 23"
      using q c unfolding eq by auto
    show ?thesis
    proof (cases "q = 24")
      case True
      then have "yoe + 1 = 400" using y1 c(1,2) c3 by auto
      then show ?thesis by (simp add: is_leap_def)
    next
      case False
      have m4: "(yoe + 1) mod 4 = 0" unfolding y1 by presburger
      have "(yoe + 1) mod 100 = 4 * (q + 1)" using False q unfolding y1 by simp
      with q m4 show ?thesis by (simp add: is_leap_def)
    qed
  qed
qed

lemma month_day_props:
  assumes "0 \<le> doy" "doy \<le> (365::int)" and mp: "mp = (5 * doy + 2) div 153"
    and d: "d = doy - (153 * mp + 2) div 5 + 1"
  shows "0 \<le> mp" "mp \<le> 11" "1 \<le> d" "d \<le> 31"
    "mp = 11 \<Longrightarrow> d \<le> 29 \<and> (d = 29 \<longrightarrow> doy = 365)" "mp \<in> {1, 3, 6, 8} \<Longrightarrow> d \<le> 30"
proof -
  have b: "153 * mp \<le> 5 * doy + 2" "5 * doy + 2 < 153 * mp + 153" unfolding mp by simp_all
  then have "0 \<le> mp \<and> mp \<le> 11" using assms(1,2) by arith
  then have "mp = 0 \<or> mp = 1 \<or> mp = 2 \<or> mp = 3 \<or> mp = 4 \<or> mp = 5 \<or> mp = 6 \<or> mp = 7 \<or> mp = 8 \<or>
      mp = 9 \<or> mp = 10 \<or> mp = 11" by presburger
  then have "0 \<le> mp \<and> mp \<le> 11 \<and> 1 \<le> d \<and> d \<le> 31 \<and> (mp = 11 \<longrightarrow> d \<le> 29 \<and> (d = 29 \<longrightarrow> doy = 365)) \<and>
      (mp \<in> {1, 3, 6, 8} \<longrightarrow> d \<le> 30)"
    using b assms(1,2) unfolding d by (elim disjE) auto
  then show "0 \<le> mp" "mp \<le> 11" "1 \<le> d" "d \<le> 31"
    "mp = 11 \<Longrightarrow> d \<le> 29 \<and> (d = 29 \<longrightarrow> doy = 365)" "mp \<in> {1, 3, 6, 8} \<Longrightarrow> d \<le> 30"
    by blast+
qed

lemma is_leap_add_400: "is_leap (y + k * 400) = is_leap y"
  using mod_mult_self1 [of y "k * 100" 4] mod_mult_self1 [of y "k * 4" 100] mod_mult_self1 [of y k 400]
  by (simp add: is_leap_def mult.assoc)

lemma civil_from_days_props:
  assumes "civil_from_days days = (y, m, d)"
  shows "days_from_civil y m d = days" "1 \<le> m" "m \<le> 12" "1 \<le> d" "d \<le> daysIn m y"
proof -
  define z where "z = days + 719468"
  define era where "era = z div 146097"
  define doe where "doe = z mod 146097"
  obtain yoe doy where yd: "cycle_year doe = (yoe, doy)" by fastforce
  define mp where "mp = (5 * doy + 2) div 153"
  have doe: "0 \<le> doe" "doe < 146097" unfolding doe_def by auto
  have z: "z = era * 146097 + doe" unfolding era_def doe_def by simp
  note cy = cycle_year_props [OF doe yd]
  have eq: "d = doy - (153 * mp + 2) div 5 + 1" "m = (if mp < 10 then mp + 3 else mp - 9)"
    "y = yoe + era * 400 + (if m \<le> 2 then 1 else 0)"
    using assms yd by (auto simp: civil_from_days_def Let_def mp_def z_def era_def doe_def)
  note md = month_day_props [OF cy(3,4) mp_def eq(1)]
  show m: "1 \<le> m" "m \<le> 12" using md(1,2) unfolding eq(2) by auto
  show "1 \<le> d" by (rule md(3))
  have undo: "(if m \<le> 2 then y - 1 else y) = yoe + era * 400" "(if m > 2 then m - 3 else m + 9) = mp"
    using md(1,2) unfolding eq(2,3) by auto
  show "days_from_civil y m d = days"
    unfolding days_from_civil_def Let_def undo using cy(1,2,5) z eq(1)
    by (simp add: z_def)
  show "d \<le> daysIn m y"
  proof (cases "m = 2")
    case True
    then have "mp = 11" using md(1,2) unfolding eq(2) by (auto split: if_splits)
    moreover have "doy = 365 \<Longrightarrow> is_leap y"
      using cy(6) True is_leap_add_400 [of "yoe + 1" era] by (simp add: eq(3) algebra_simps)
    ultimately show ?thesis using True md(5) by (auto simp: daysIn_def)
  next
    case False
    then show ?thesis using md(1,2,4,6) unfolding eq(2) by (auto simp: daysIn_def split: if_splits)
  qed
qed

section \<open>RFC 3339 with nanoseconds\<close>

definition year_string :: "int \<Rightarrow> string" where
  "year_string y =
     (let digits = (\<lambda>n. if n \<le> 9999 then pad 4 n else show_nat n) in
      if y < 0 then CHR ''-'' # digits (nat (- y)) else digits (nat y))"

definition FormatRFC3339 :: "int \<Rightarrow> string" where
  "FormatRFC3339 t =
     (let secs = t div 10 ^ 9; ns = t mod 10 ^ 9; days = secs div 86400; sod = secs mod 86400;
          (y, m, d) = civil_from_days days
      in year_string y @ ''-'' @ pad 2 (nat m) @ ''-'' @ pad 2 (nat d) @ ''T'' @
         pad 2 (nat (sod div 3600)) @ '':'' @ pad 2 (nat (sod mod 3600 div 60)) @ '':'' @
         pad 2 (nat (sod mod 60)) @ fmtFrac 9 (nat ns) @ ''Z'')"

definition read_digits :: "nat \<Rightarrow> string \<Rightarrow> (int \<times> string) option" where
  "read_digits n s =
     (if n \<le> length s \<and> list_all is_digit (take n s)
      then Some (int (digits_value (take n s)), drop n s) else None)"

definition expect :: "char \<Rightarrow> string \<Rightarrow> string option" where
  "expect c s = (case s of [] \<Rightarrow> None | x # rest \<Rightarrow> if x = c then Some rest else None)"

definition read_fraction :: "string \<Rightarrow> (int \<times> string) option" where
  "read_fraction s =
     (if prefix ''.'' s
      then (let ds = takeWhile is_digit (drop 1 s) in
            if ds = [] then None
            else Some (int (digits_value (take 9 ds) * 10 ^ (9 - length (take 9 ds))),
                       dropWhile is_digit (drop 1 s)))
      else Some (0, s))"

text \<open>The zone designator: the offset from UTC in seconds.\<close>

definition read_zone :: "string \<Rightarrow> int option" where
  "read_zone s =
     (if s = ''Z'' then Some 0
      else if prefix ''+'' s \<or> prefix ''-'' s
      then do {
        (hh, s1) \<leftarrow> read_digits 2 (drop 1 s);
        s2 \<leftarrow> expect CHR '':'' s1;
        (mm, s3) \<leftarrow> read_digits 2 s2;
        if s3 = [] \<and> hh \<le> 23 \<and> mm \<le> 59
        then Some ((if prefix ''-'' s then - 1 else 1) * (hh * 3600 + mm * 60))
        else None }
      else None)"

text \<open>The instant in nanoseconds since the epoch and the zone offset in seconds.\<close>

definition ParseRFC3339 :: "string \<Rightarrow> (int \<times> int) option" where
  "ParseRFC3339 s = do {
     (y, s) \<leftarrow> read_digits 4 s;
     s \<leftarrow> expect CHR ''-'' s;
     (m, s) \<leftarrow> read_digits 2 s;
     s \<leftarrow> expect CHR ''-'' s;
     (d, s) \<leftarrow> read_digits 2 s;
     s \<leftarrow> expect CHR ''T'' s;
     (hh, s) \<leftarrow> read_digits 2 s;
     s \<leftarrow> expect CHR '':'' s;
     (mm, s) \<leftarrow> read_digits 2 s;
     s \<leftarrow> expect CHR '':'' s;
     (ss, s) \<leftarrow> read_digits 2 s;
     (ns, s) \<leftarrow> read_fraction s;
     offset \<leftarrow> read_zone s;
     if 1 \<le> m \<and> m \<le> 12 \<and> 1 \<le> d \<and> d \<le> daysIn m y \<and> hh \<le> 23 \<and> mm \<le> 59 \<and> ss \<le> 59
     then Some ((days_from_civil y m d * 86400 + hh * 3600 + mm * 60 + ss - offset) * 10 ^ 9 + ns, offset)
     else None }"

definition year_of :: "int \<Rightarrow> int" where
  "year_of t = fst (civil_from_days (t div 10 ^ 9 div 86400))"

definition four_digit_year :: "int \<Rightarrow> bool" where
  "four_digit_year t \<longleftrightarrow> 0 \<le> year_of t \<and> year_of t \<le> 9999"

lemma read_digits_pad: "v < 10 ^ n \<Longrightarrow> read_digits n (pad n v @ s) = Some (int v, s)"
  by (auto simp: read_digits_def list_all_iff digits_value_pad dest: pad_digits)

lemma expect_Cons [simp]: "expect c (c # s) = Some s"
  by (simp add: expect_def)

lemma read_fraction_print: "v < 10 ^ 9 \<Longrightarrow> read_fraction (fmtFrac 9 v @ ''Z'') = Some (int v, ''Z'')"
proof -
  assume v: "v < 10 ^ 9"
  let ?f = "frac_digits 9 v"
  have tw: "takeWhile is_digit (?f @ ''Z'') = ?f" "dropWhile is_digit (?f @ ''Z'') = ''Z''"
    using takeWhile_stop [of ?f is_digit "''Z''"] frac_digits_digits by (auto simp: is_digit_def)
  have val: "digits_value ?f * 10 ^ (9 - length ?f) = v"
    using frac_digits_value [of 9 v] v by simp
  show ?thesis
  proof (cases "?f = []")
    case True
    with val have "v = 0" by simp
    with True show ?thesis by (simp add: fmtFrac_def read_fraction_def)
  next
    case False
    have "take 9 ?f = ?f" using frac_digits_length [of 9 v] by simp
    with False tw have "read_fraction (fmtFrac 9 v @ ''Z'') =
        Some (int (digits_value ?f * 10 ^ (9 - length ?f)), ''Z'')"
      by (simp only: fmtFrac_def read_fraction_def Let_def if_False append_Cons drop0 drop_Suc_Cons
          One_nat_def prefix_code simp_thms if_True)
    then show ?thesis unfolding val .
  qed
qed

lemma ParseRFC3339_fields:
  assumes "0 \<le> y" "y \<le> 9999" "1 \<le> m" "m \<le> 12" "1 \<le> d" "d \<le> daysIn m y" "0 \<le> sod" "sod < 86400"
    "0 \<le> ns" "ns < 10 ^ 9"
  shows "ParseRFC3339 (year_string y @ ''-'' @ pad 2 (nat m) @ ''-'' @ pad 2 (nat d) @ ''T'' @
         pad 2 (nat (sod div 3600)) @ '':'' @ pad 2 (nat (sod mod 3600 div 60)) @ '':'' @
         pad 2 (nat (sod mod 60)) @ fmtFrac 9 (nat ns) @ ''Z'') =
     Some ((days_from_civil y m d * 86400 + sod) * 10 ^ 9 + ns, 0)"
proof -
  have d31: "d \<le> 31" using assms(6) by (auto simp: daysIn_def split: if_splits)
  define hh where "hh = sod div 3600"
  define mm where "mm = sod mod 3600 div 60"
  define ss where "ss = sod mod 60"
  have t: "0 \<le> hh" "hh \<le> 23" "0 \<le> mm" "mm \<le> 59" "0 \<le> ss" "ss \<le> 59" "hh * 3600 + mm * 60 + ss = sod"
  proof -
    have "sod mod 3600 mod 60 = sod mod 60" by (rule mod_mod_cancel) simp
    moreover have "sod div 3600 * 3600 + sod mod 3600 = sod" "sod mod 3600 div 60 * 60 + sod mod 3600 mod 60 = sod mod 3600"
      by (simp_all only: div_mult_mod_eq)
    ultimately show "hh * 3600 + mm * 60 + ss = sod" unfolding hh_def mm_def ss_def by linarith
    have "0 \<le> sod mod 3600" "sod mod 3600 < 3600" by simp_all
    then show "0 \<le> hh" "hh \<le> 23" "0 \<le> mm" "mm \<le> 59" "0 \<le> ss" "ss \<le> 59"
      using assms(7,8) unfolding hh_def mm_def ss_def by linarith+
  qed
  have year: "year_string y = pad 4 (nat y)" using assms(1,2) by (simp add: year_string_def Let_def nat_le_iff)
  have "nat y < 10 ^ 4" "nat m < 10 ^ 2" "nat d < 10 ^ 2" "nat hh < 10 ^ 2" "nat mm < 10 ^ 2"
    "nat ss < 10 ^ 2" "nat ns < 10 ^ 9"
    using assms d31 t by auto
  then show ?thesis
    unfolding year hh_def [symmetric] mm_def [symmetric] ss_def [symmetric]
    using assms t by (simp add: ParseRFC3339_def read_digits_pad read_fraction_print read_zone_def add.assoc)
qed

lemma ParseRFC3339_Format: "four_digit_year t \<Longrightarrow> ParseRFC3339 (FormatRFC3339 t) = Some (t, 0)"
proof -
  assume t: "four_digit_year t"
  define secs where "secs = t div 10 ^ 9"
  obtain y m d where ymd: "civil_from_days (secs div 86400) = (y, m, d)" by (metis prod_cases3)
  note civil = civil_from_days_props [OF ymd]
  have y: "0 \<le> y" "y \<le> 9999" using t ymd by (simp_all add: four_digit_year_def year_of_def secs_def)
  have "(days_from_civil y m d * 86400 + secs mod 86400) * 10 ^ 9 + t mod 10 ^ 9 = t"
    unfolding civil(1) by (simp only: div_mult_mod_eq secs_def)
  moreover have "FormatRFC3339 t = year_string y @ ''-'' @ pad 2 (nat m) @ ''-'' @ pad 2 (nat d) @ ''T'' @
         pad 2 (nat (secs mod 86400 div 3600)) @ '':'' @ pad 2 (nat (secs mod 86400 mod 3600 div 60)) @ '':'' @
         pad 2 (nat (secs mod 86400 mod 60)) @ fmtFrac 9 (nat (t mod 10 ^ 9)) @ ''Z''"
    unfolding FormatRFC3339_def Let_def secs_def [symmetric] ymd by simp
  ultimately show ?thesis
    using ParseRFC3339_fields [OF y civil(2-5), of "secs mod 86400" "t mod 10 ^ 9"]
    by (simp only:) simp
qed

lemma four_digit_year_bound: "0 \<le> t \<Longrightarrow> t < 2 ^ 64 \<Longrightarrow> four_digit_year t"
proof -
  assume t: "0 \<le> t" "t < 2 ^ 64"
  define days where "days = t div 10 ^ 9 div 86400"
  obtain y m d where ymd: "civil_from_days days = (y, m, d)" by (metis prod_cases3)
  have days: "0 \<le> days" "days < 300000" using t unfolding days_def by simp_all
  define z where "z = days + 719468"
  obtain yoe doy where yd: "cycle_year (z mod 146097) = (yoe, doy)" by fastforce
  have yoe: "0 \<le> yoe" "yoe < 400"
    using cycle_year_props [OF _ _ yd] by simp_all
  have "y = yoe + z div 146097 * 400 \<or> y = yoe + z div 146097 * 400 + 1"
    using ymd yd by (auto simp: civil_from_days_def Let_def z_def)
  moreover have "0 \<le> z div 146097" "z div 146097 \<le> 6" using days unfolding z_def by simp_all
  ultimately have "0 \<le> y" "y \<le> 9999" using yoe by auto
  then show ?thesis using ymd by (simp add: four_digit_year_def year_of_def days_def)
qed

text \<open>\<^verbatim>\<open>Time.Sub\<close> saturates at the largest and smallest duration.\<close>

definition time_Sub :: "int \<Rightarrow> int \<Rightarrow> int" where
  "time_Sub t u = max (- (2 ^ 63)) (min max_duration (t - u))"

lemma time_Sub_pos [simp]: "time_Sub t u \<le> 0 \<longleftrightarrow> t \<le> u"
  by (auto simp: time_Sub_def max_duration_def)

end
