(* ===== verification/Annotations.thy ===== *)
theory Annotations
  imports Names Go_Time
begin

text \<open>
  \<^verbatim>\<open>internal/source/annotations.go\<close>: which annotations labdns inherits, how levels are merged,
  and how the resolved annotations are parsed.

  A Go \<^verbatim>\<open>map[string]struct{}\<close> used as a set and then sorted is \<open>sort (remdups xs)\<close>: the random
  iteration order of the map is forgotten by the sort.
\<close>

definition AnnotationPrefix :: string where "AnnotationPrefix = ''labdns.shednet.dev/''"
definition ExternalDNSPrefix :: string where "ExternalDNSPrefix = ''external-dns.alpha.kubernetes.io/''"
definition EnabledAnnotation :: string where "EnabledAnnotation = AnnotationPrefix @ ''enabled''"
definition ProvidersAnnotation :: string where "ProvidersAnnotation = AnnotationPrefix @ ''providers''"
definition HostnamesAnnotation :: string where "HostnamesAnnotation = AnnotationPrefix @ ''hostnames''"
definition TTLAnnotation :: string where "TTLAnnotation = AnnotationPrefix @ ''ttl''"
definition FamiliesAnnotation :: string where
  "FamiliesAnnotation = AnnotationPrefix @ ''address-families''"
definition DeletionDelayAnnotation :: string where
  "DeletionDelayAnnotation = AnnotationPrefix @ ''deletion-delay''"

definition relevant_key :: "string \<Rightarrow> bool" where
  "relevant_key key \<longleftrightarrow> HasPrefix key AnnotationPrefix \<or> HasPrefix key ExternalDNSPrefix"

definition relevantAnnotations :: "strmap \<Rightarrow> strmap" where
  "relevantAnnotations m = fmfilter relevant_key m"

definition MergeAnnotations :: "strmap list \<Rightarrow> strmap" where
  "MergeAnnotations levels = foldl (\<lambda>out level. fmadd out (relevantAnnotations level)) fmempty levels"

datatype AddressFamily = IPv4 | IPv6

definition family_name :: "AddressFamily \<Rightarrow> string" where
  "family_name f = (case f of IPv4 \<Rightarrow> ''ipv4'' | IPv6 \<Rightarrow> ''ipv6'')"

record ParsedAnnotations =
  Enabled :: bool
  Providers :: "string list"
  Hostnames :: "string list"
  PTTL :: "int option"
  Families :: "AddressFamily list"
  PDeletionDelay :: "int option"
  Resolved :: strmap

definition sortedUnique :: "string list \<Rightarrow> string list" where
  "sortedUnique values = sort (remdups values)"

definition commaList :: "string \<Rightarrow> string list" where
  "commaList value =
     sortedUnique (filter (\<lambda>item. item \<noteq> '''') (map TrimSpace (Split value CHR '','')))"

text \<open>Families are Go strings and are ordered as such.\<close>

instantiation AddressFamily :: linorder
begin

definition less_eq_AddressFamily :: "AddressFamily \<Rightarrow> AddressFamily \<Rightarrow> bool" where
  "less_eq_AddressFamily a b \<longleftrightarrow> family_name a \<le> family_name b"

definition less_AddressFamily :: "AddressFamily \<Rightarrow> AddressFamily \<Rightarrow> bool" where
  "less_AddressFamily a b \<longleftrightarrow> family_name a < family_name b"

instance
proof
  fix a b :: AddressFamily
  have inj: "family_name a = family_name b \<Longrightarrow> a = b" by (cases a; cases b) (auto simp: family_name_def)
  show "a \<le> b \<Longrightarrow> b \<le> a \<Longrightarrow> a = b"
    unfolding less_eq_AddressFamily_def by (rule inj, rule antisym)
  show "a < b \<longleftrightarrow> a \<le> b \<and> \<not> b \<le> a"
    unfolding less_eq_AddressFamily_def less_AddressFamily_def by (rule less_le_not_le)
  show "a \<le> b \<or> b \<le> a" unfolding less_eq_AddressFamily_def by (rule linear)
  show "a \<le> a" unfolding less_eq_AddressFamily_def by (rule order_refl)
  fix c assume "a \<le> b" "b \<le> c"
  then show "a \<le> c" unfolding less_eq_AddressFamily_def by (rule order_trans)
qed

end

definition uniqueFamilies :: "AddressFamily list \<Rightarrow> AddressFamily list" where
  "uniqueFamilies values = sort (remdups values)"

section \<open>The stages of ParseAnnotations\<close>

text \<open>
  \<^verbatim>\<open>ParseAnnotations\<close> handles one annotation after another and returns at the first invalid one
  (with the partly filled result, which no caller uses).  Each stage is a function from the
  record so far to the record with one more field.
\<close>

definition parse_enabled :: "strmap \<Rightarrow> ParsedAnnotations \<Rightarrow> ParsedAnnotations result" where
  "parse_enabled values result =
     (case fmlookup values EnabledAnnotation of
        None \<Rightarrow> Inr result
      | Some value \<Rightarrow>
          (case ParseBool (TrimSpace value) of
             None \<Rightarrow> Inl (mark_invalid (WrapErr (Sprintf ''invalid %s: '' [FStr EnabledAnnotation])
                       (ErrMsg (''strconv.ParseBool: parsing '' @ Quote (TrimSpace value) @
                                '': invalid syntax''))))
           | Some b \<Rightarrow> Inr (result\<lparr>Enabled := b\<rparr>)))"

definition check_provider :: "name_check \<Rightarrow> string \<Rightarrow> string result" where
  "check_provider D name =
     (if length name > 63
      then Inl (mark_invalid (ErrMsg (Sprintf ''invalid provider %q: must be at most 63 characters'' [FStr name])))
      else let errs = D name in
        if length errs \<noteq> 0
        then Inl (mark_invalid (ErrMsg (Sprintf ''invalid provider %q: %s'' [FStr name, FStr (Join errs '', '')])))
        else Inr name)"

definition parse_providers :: "name_check \<Rightarrow> strmap \<Rightarrow> ParsedAnnotations \<Rightarrow> ParsedAnnotations result" where
  "parse_providers D values result =
     (case fmlookup values ProvidersAnnotation of
        None \<Rightarrow> Inr result
      | Some value \<Rightarrow>
          (case traverse (check_provider D) (commaList value) of
             Inl e \<Rightarrow> Inl e
           | Inr _ \<Rightarrow> Inr (result\<lparr>Providers := commaList value\<rparr>)))"

definition check_override :: "name_check \<Rightarrow> string \<Rightarrow> string result" where
  "check_override D hostname =
     (case NormalizeHostname D hostname of
        Inl e \<Rightarrow> Inl (mark_invalid (WrapErr (Sprintf ''invalid hostname override %q: '' [FStr hostname]) e))
      | Inr normalized \<Rightarrow> Inr normalized)"

definition parse_hostnames :: "name_check \<Rightarrow> strmap \<Rightarrow> ParsedAnnotations \<Rightarrow> ParsedAnnotations result" where
  "parse_hostnames D values result =
     (case fmlookup values HostnamesAnnotation of
        None \<Rightarrow> Inr result
      | Some value \<Rightarrow>
          (case traverse (check_override D) (commaList value) of
             Inl e \<Rightarrow> Inl e
           | Inr hostnames \<Rightarrow> Inr (result\<lparr>Hostnames := sortedUnique (Hostnames result @ hostnames)\<rparr>)))"

definition parse_ttl :: "strmap \<Rightarrow> ParsedAnnotations \<Rightarrow> ParsedAnnotations result" where
  "parse_ttl values result =
     (case fmlookup values TTLAnnotation of
        None \<Rightarrow> Inr result
      | Some value \<Rightarrow>
          (case ParseInt (TrimSpace value) of
             Some ttl \<Rightarrow>
               if ttl < 1 \<or> ttl > 2147483647
               then Inl (mark_invalid (ErrMsg (Sprintf ''invalid %s %q: must be an integer in 1..2147483647''
                      [FStr TTLAnnotation, FStr value])))
               else Inr (result\<lparr>PTTL := Some ttl\<rparr>)
           | None \<Rightarrow> Inl (mark_invalid (ErrMsg (Sprintf ''invalid %s %q: must be an integer in 1..2147483647''
                      [FStr TTLAnnotation, FStr value])))))"

definition parse_delay :: "strmap \<Rightarrow> ParsedAnnotations \<Rightarrow> ParsedAnnotations result" where
  "parse_delay values result =
     (case fmlookup values DeletionDelayAnnotation of
        None \<Rightarrow> Inr result
      | Some value \<Rightarrow>
          (case ParseDuration (TrimSpace value) of
             Some delay \<Rightarrow>
               if delay < 0
               then Inl (mark_invalid (ErrMsg (Sprintf ''invalid %s %q: must be a non-negative Go duration''
                      [FStr DeletionDelayAnnotation, FStr value])))
               else Inr (result\<lparr>PDeletionDelay := Some delay\<rparr>)
           | None \<Rightarrow> Inl (mark_invalid (ErrMsg (Sprintf ''invalid %s %q: must be a non-negative Go duration''
                      [FStr DeletionDelayAnnotation, FStr value])))))"

definition parse_family :: "string \<Rightarrow> AddressFamily result" where
  "parse_family family =
     (if ToLower family = family_name IPv4 then Inr IPv4
      else if ToLower family = family_name IPv6 then Inr IPv6
      else Inl (mark_invalid (ErrMsg (Sprintf ''invalid address family %q'' [FStr family]))))"

definition parse_families :: "strmap \<Rightarrow> ParsedAnnotations \<Rightarrow> ParsedAnnotations result" where
  "parse_families values result =
     (case fmlookup values FamiliesAnnotation of
        None \<Rightarrow> Inr result
      | Some value \<Rightarrow>
          (case traverse parse_family (commaList value) of
             Inl e \<Rightarrow> Inl e
           | Inr families \<Rightarrow> Inr (result\<lparr>Families := uniqueFamilies (Families result @ families)\<rparr>)))"

definition empty_parsed :: "strmap \<Rightarrow> ParsedAnnotations" where
  "empty_parsed values =
     \<lparr>Enabled = False, Providers = [], Hostnames = [], PTTL = None, Families = [],
      PDeletionDelay = None, Resolved = relevantAnnotations values\<rparr>"

definition ParseAnnotations :: "name_check \<Rightarrow> strmap \<Rightarrow> ParsedAnnotations result" where
  "ParseAnnotations D values =
     and_then (parse_enabled values (empty_parsed values)) (\<lambda>r.
     and_then (parse_providers D values r) (\<lambda>r.
     and_then (parse_hostnames D values r) (\<lambda>r.
     and_then (parse_ttl values r) (\<lambda>r.
     and_then (parse_delay values r) (\<lambda>r. parse_families values r)))))"

section \<open>Inheritance\<close>

lemma fmlookup_relevant [simp]:
  "fmlookup (relevantAnnotations m) k = (if relevant_key k then fmlookup m k else None)"
  by (simp add: relevantAnnotations_def)

lemma relevantAnnotations_idem [simp]: "relevantAnnotations (relevantAnnotations m) = relevantAnnotations m"
  by (rule fmap_ext) simp

text \<open>The value a key gets is the one of the last level that has the key.\<close>

fun last_with :: "string \<Rightarrow> strmap list \<Rightarrow> string option" where
  "last_with k [] = None"
| "last_with k (m # ms) = (case last_with k ms of Some v \<Rightarrow> Some v | None \<Rightarrow> fmlookup m k)"

lemma last_with_snoc: "last_with k (ms @ [m]) = (case fmlookup m k of Some v \<Rightarrow> Some v | None \<Rightarrow> last_with k ms)"
  by (induction ms) (auto split: option.splits)

lemma fmlookup_merge_fold:
  "fmlookup (foldl (\<lambda>out level. fmadd out (relevantAnnotations level)) acc levels) k =
     (case (if relevant_key k then last_with k levels else None) of
        Some v \<Rightarrow> Some v | None \<Rightarrow> fmlookup acc k)"
  by (induction levels arbitrary: acc)
    (auto simp: fmlookup_fmadd_case simp del: fmlookup_add split: option.splits)

lemma MergeAnnotations_lookup:
  "fmlookup (MergeAnnotations levels) k = (if relevant_key k then last_with k levels else None)"
  by (auto simp: MergeAnnotations_def fmlookup_merge_fold split: option.splits)

lemma MergeAnnotations_relevant: "relevantAnnotations (MergeAnnotations levels) = MergeAnnotations levels"
  by (rule fmap_ext) (auto simp: MergeAnnotations_def fmlookup_merge_fold split: option.splits)

section \<open>Comma-separated lists\<close>

lemma sortedUnique_props [simp]:
  "sorted (sortedUnique xs)" "distinct (sortedUnique xs)" "set (sortedUnique xs) = set xs"
  by (simp_all add: sortedUnique_def)

lemma sortedUnique_id: "sorted xs \<Longrightarrow> distinct xs \<Longrightarrow> sortedUnique xs = xs"
  by (simp add: sortedUnique_def sort_remdups_idem)

lemma sortedUnique_cong: "set xs = set ys \<Longrightarrow> sortedUnique xs = sortedUnique ys"
  unfolding sortedUnique_def by (rule sort_remdups_eqI)

lemma uniqueFamilies_props [simp]:
  "sorted (uniqueFamilies xs)" "distinct (uniqueFamilies xs)" "set (uniqueFamilies xs) = set xs"
  by (simp_all add: uniqueFamilies_def)

lemma commaList_props [simp]: "sorted (commaList v)" "distinct (commaList v)"
  by (simp_all add: commaList_def)

lemma set_commaList: "set (commaList v) = TrimSpace ` set (Split v CHR '','') - {''''}"
  by (auto simp: commaList_def)

text \<open>Printing a list of items with commas and parsing it again gives the list back, when it is
  sorted and free of duplicates and its items are non-empty, trimmed and contain no comma.\<close>

theorem commaList_Join:
  assumes "sorted xs" "distinct xs" "\<forall>x \<in> set xs. x \<noteq> '''' \<and> TrimSpace x = x \<and> CHR '','' \<notin> set x"
  shows "commaList (Join xs '','') = xs"
proof (cases "xs = []")
  case True
  then show ?thesis by (simp add: commaList_def sortedUnique_def)
next
  case False
  then have "Split (Join xs '','') CHR '','' = xs" using assms(3) by (intro Split_Join) auto
  moreover have "map TrimSpace xs = xs" using assms(3) by (simp add: map_idI)
  moreover have "filter (\<lambda>item. item \<noteq> '''') xs = xs" using assms(3) by (simp add: filter_id_conv)
  ultimately show ?thesis using assms(1,2) by (simp add: commaList_def sortedUnique_id)
qed

theorem commaList_Join_witness:
  "sorted [''vpn'', ''www''] \<and> commaList (Join [''vpn'', ''www''] '','') = [''vpn'', ''www'']"
proof -
  have "TrimSpace ''vpn'' = ''vpn''" "TrimSpace ''www'' = ''www''"
    by (rule TrimSpace_graphic, simp add: is_graphic_def)+
  then show ?thesis using commaList_Join [of "[''vpn'', ''www'']"] by simp
qed

section \<open>What ParseAnnotations guarantees\<close>

definition wf_providers :: "name_check \<Rightarrow> string list \<Rightarrow> bool" where
  "wf_providers D ps \<longleftrightarrow>
     sorted ps \<and> distinct ps \<and> (\<forall>p \<in> set ps. p \<noteq> '''' \<and> length p \<le> 63 \<and> D p = [])"

definition wf_hostnames :: "name_check \<Rightarrow> string list \<Rightarrow> bool" where
  "wf_hostnames D hs \<longleftrightarrow> sorted hs \<and> distinct hs \<and> (\<forall>h \<in> set hs. wf_hostname D h)"

definition wf_ttl :: "int option \<Rightarrow> bool" where
  "wf_ttl t \<longleftrightarrow> (case t of None \<Rightarrow> True | Some ttl \<Rightarrow> 1 \<le> ttl \<and> ttl \<le> 2147483647)"

definition wf_delay :: "int option \<Rightarrow> bool" where
  "wf_delay t \<longleftrightarrow> (case t of None \<Rightarrow> True | Some delay \<Rightarrow> 0 \<le> delay \<and> delay \<le> max_duration)"

definition wf_families :: "AddressFamily list \<Rightarrow> bool" where
  "wf_families fs \<longleftrightarrow> sorted fs \<and> distinct fs"

definition wf_parsed :: "name_check \<Rightarrow> strmap \<Rightarrow> ParsedAnnotations \<Rightarrow> bool" where
  "wf_parsed D values r \<longleftrightarrow>
     wf_providers D (Providers r) \<and> wf_hostnames D (Hostnames r) \<and> wf_ttl (PTTL r) \<and>
     wf_delay (PDeletionDelay r) \<and> wf_families (Families r) \<and> Resolved r = relevantAnnotations values"

lemma check_provider_Inr: "check_provider D name = Inr p \<Longrightarrow> p = name \<and> length name \<le> 63 \<and> D name = []"
  by (auto simp: check_provider_def Let_def split: if_splits)

lemma check_override_Inr: "check_override D h = Inr n \<Longrightarrow> wf_hostname D n"
  by (auto simp: check_override_def NormalizeHostname_Inr_iff split: sum.splits)

lemma and_then_Inr: "and_then r f = Inr y \<longleftrightarrow> (\<exists>x. r = Inr x \<and> f x = Inr y)"
  by (auto simp: and_then_def split: sum.splits)

lemma and_then_Inl: "and_then r f = Inl e \<longleftrightarrow> r = Inl e \<or> (\<exists>x. r = Inr x \<and> f x = Inl e)"
  by (auto simp: and_then_def split: sum.splits)

lemma wf_parse_enabled:
  "wf_parsed D values r \<Longrightarrow> parse_enabled values r = Inr r' \<Longrightarrow> wf_parsed D values r'"
  by (auto simp: parse_enabled_def wf_parsed_def split: option.splits)

lemma wf_providers_commaList:
  assumes "traverse (check_provider D) (commaList v) = Inr ys"
  shows "wf_providers D (commaList v)"
  unfolding wf_providers_def
proof (intro conjI ballI)
  fix p assume p: "p \<in> set (commaList v)"
  then show "p \<noteq> ''''" by (auto simp: set_commaList)
  from traverse_Inr_set2 [OF assms p] show "length p \<le> 63" "D p = []"
    by (auto dest: check_provider_Inr)
qed simp_all

lemma wf_parse_providers:
  "wf_parsed D values r \<Longrightarrow> parse_providers D values r = Inr r' \<Longrightarrow> wf_parsed D values r'"
  by (auto simp: parse_providers_def wf_parsed_def split: option.splits sum.splits
      intro: wf_providers_commaList)

lemma wf_hostnames_append:
  assumes "traverse (check_override D) xs = Inr hs" "wf_hostnames D old"
  shows "wf_hostnames D (sortedUnique (old @ hs))"
  using assms(2) traverse_Inr_set [OF assms(1)] check_override_Inr
  by (fastforce simp: wf_hostnames_def)

lemma wf_parse_hostnames:
  "wf_parsed D values r \<Longrightarrow> parse_hostnames D values r = Inr r' \<Longrightarrow> wf_parsed D values r'"
  by (auto simp: parse_hostnames_def wf_parsed_def split: option.splits sum.splits
      intro: wf_hostnames_append)

lemma wf_parse_ttl: "wf_parsed D values r \<Longrightarrow> parse_ttl values r = Inr r' \<Longrightarrow> wf_parsed D values r'"
  by (auto simp: parse_ttl_def wf_parsed_def wf_ttl_def [of "Some _"] split: option.splits if_splits)

lemma wf_parse_delay: "wf_parsed D values r \<Longrightarrow> parse_delay values r = Inr r' \<Longrightarrow> wf_parsed D values r'"
  by (auto simp: parse_delay_def wf_parsed_def wf_delay_def [of "Some _"] dest: ParseDuration_bound split: option.splits if_splits)

lemma wf_parse_families:
  "wf_parsed D values r \<Longrightarrow> parse_families values r = Inr r' \<Longrightarrow> wf_parsed D values r'"
  by (auto simp: parse_families_def wf_parsed_def wf_families_def split: option.splits sum.splits)

lemma wf_empty_parsed: "wf_parsed D values (empty_parsed values)"
  by (simp add: wf_parsed_def empty_parsed_def wf_providers_def wf_hostnames_def wf_ttl_def
      wf_delay_def wf_families_def)

lemma check_errors:
  "check_provider D p = Inl e \<Longrightarrow> IsInvalid e" "check_override D h = Inl e \<Longrightarrow> IsInvalid e"
  "parse_family f = Inl e \<Longrightarrow> IsInvalid e"
  by (auto simp: check_provider_def check_override_def parse_family_def Let_def
      split: if_splits sum.splits)

lemma traverse_check_errors:
  "traverse (check_provider D) xs = Inl e \<Longrightarrow> IsInvalid e"
  "traverse (check_override D) xs = Inl e \<Longrightarrow> IsInvalid e"
  "traverse parse_family xs = Inl e \<Longrightarrow> IsInvalid e"
  by (blast dest: traverse_Inl intro: check_errors)+

lemma parse_enabled_error: "parse_enabled values r = Inl e \<Longrightarrow> IsInvalid e"
  by (auto simp: parse_enabled_def split: option.splits)

lemma parse_list_errors:
  "parse_providers D values r = Inl e \<Longrightarrow> IsInvalid e"
  "parse_hostnames D values r = Inl e \<Longrightarrow> IsInvalid e"
  "parse_families values r = Inl e \<Longrightarrow> IsInvalid e"
  unfolding parse_providers_def parse_hostnames_def parse_families_def
  by (auto split: option.splits sum.splits dest: traverse_check_errors)

lemma parse_number_errors:
  "parse_ttl values r = Inl e \<Longrightarrow> IsInvalid e" "parse_delay values r = Inl e \<Longrightarrow> IsInvalid e"
  unfolding parse_ttl_def parse_delay_def by (auto split: option.splits if_splits)

lemmas parse_stage_errors = parse_enabled_error parse_list_errors parse_number_errors

lemma ParseAnnotations_wf:
  assumes "ParseAnnotations D values = Inr r"
  shows "wf_parsed D values r"
proof -
  obtain r1 r2 r3 r4 r5 where
    s: "parse_enabled values (empty_parsed values) = Inr r1" "parse_providers D values r1 = Inr r2"
      "parse_hostnames D values r2 = Inr r3" "parse_ttl values r3 = Inr r4" "parse_delay values r4 = Inr r5"
      "parse_families values r5 = Inr r"
    using assms unfolding ParseAnnotations_def and_then_Inr by blast
  note wf_parse_enabled [OF wf_empty_parsed s(1)]
  note wf_parse_providers [OF this s(2)]
  note wf_parse_hostnames [OF this s(3)]
  note wf_parse_ttl [OF this s(4)]
  note wf_parse_delay [OF this s(5)]
  then show ?thesis using s(6) by (rule wf_parse_families)
qed

lemma ParseAnnotations_error: "ParseAnnotations D values = Inl e \<Longrightarrow> IsInvalid e"
  unfolding ParseAnnotations_def and_then_Inl by (elim disjE exE conjE) (erule parse_stage_errors)+

text \<open>C29: resolved annotations.  Merging the levels keeps exactly the labdns and ExternalDNS keys, each with the
  value of the most specific level that carries it, an empty value included.  What is parsed from them is well formed:
  providers and hostnames are sorted, duplicate-free and valid (provider names of at most 63 bytes), the TTL
  is in 1..2147483647, the deletion delay is a non-negative duration, families are sorted and distinct; and
  every rejection is a deterministic error, so controllers do not retry it.\<close>

theorem ParseAnnotations_correct:
  "(\<forall>k. fmlookup (MergeAnnotations levels) k = (if relevant_key k then last_with k levels else None)) \<and>
   (case ParseAnnotations D values of Inl e \<Rightarrow> IsInvalid e | Inr r \<Rightarrow> wf_parsed D values r)"
  by (auto simp: MergeAnnotations_lookup split: sum.split dest: ParseAnnotations_wf ParseAnnotations_error)

end
