(* ===== verification/Source_Types.thy ===== *)
theory Source_Types
  imports Annotations
begin

text \<open>
  The data that crosses the borders of the source package, from \<^verbatim>\<open>internal/source/projection.go\<close>: who a
  source is, which backends serve a hostname, and the records a provider should publish.  String types
  of Go (\<^verbatim>\<open>SourceKind\<close>, \<^verbatim>\<open>RecordType\<close>) stay strings, since the code compares and prints them as such.
\<close>

type_synonym SourceKind = string

definition SourceKindIngress :: SourceKind where "SourceKindIngress = ''Ingress''"
definition SourceKindHTTPRoute :: SourceKind where "SourceKindHTTPRoute = ''HTTPRoute''"
definition SourceKindTCPRoute :: SourceKind where "SourceKindTCPRoute = ''TCPRoute''"
definition SourceKindUDPRoute :: SourceKind where "SourceKindUDPRoute = ''UDPRoute''"

type_synonym RecordType = string

definition RecordTypeA :: RecordType where "RecordTypeA = ''A''"
definition RecordTypeAAAA :: RecordType where "RecordTypeAAAA = ''AAAA''"

record Identity =
  iAPIVersion :: string
  iKind :: SourceKind
  iNamespace :: string
  iName :: string
  iUID :: string

record Backend =
  bNamespace :: string
  bName :: string

definition Key :: "Backend \<Rightarrow> string" where
  "Key b = bNamespace b @ ''/'' @ bName b"

record HostProjection =
  Hostname :: string
  Backends :: "Backend list"

text \<open>A \<^verbatim>\<open>Property\<close> is a pair of its name and its value.\<close>

type_synonym Property = "string \<times> string"

record Record =
  rDNSName :: string
  rRecordType :: RecordType
  rTargets :: "string list"
  rTTL :: int
  rProviderSpecific :: "Property list"

record Publication =
  ProviderName :: string
  Records :: "Record list"
  MetadataAnnotations :: strmap
  DeletionDelay :: int

text \<open>The zero value that a lookup in a Go map without the key returns.\<close>

definition zero_Publication :: Publication where
  "zero_Publication = \<lparr>ProviderName = '''', Records = [], MetadataAnnotations = fmempty, DeletionDelay = 0\<rparr>"

definition DiagnosticNormal :: string where "DiagnosticNormal = ''Normal''"
definition DiagnosticWarning :: string where "DiagnosticWarning = ''Warning''"

end
