(* ===== verification/Kube_Types.thy ===== *)
theory Kube_Types
  imports Source_Types
begin

text \<open>
  The Kubernetes objects the sources read, with the fields they read: Ingresses, Gateway API routes,
  Gateways, ReferenceGrants, EndpointSlices, and the \<open>DNSProvider\<close> of \<^verbatim>\<open>api/v1alpha1/dnsprovider_types.go\<close>.
  An optional (pointer) field is an \<open>option\<close>.  Objects of which only the metadata is read (Service, Node,
  IngressClass, GatewayClass) are their \<open>ObjectMeta\<close>.

  A \<open>reader\<close> is the answers of the Kubernetes client to the reads of one run: \<^verbatim>\<open>client.Reader\<close> is a cache
  of the cluster and not part of the sources, so every definition takes it as an argument.
\<close>

section \<open>Metadata and references\<close>

type_synonym object_key = "string \<times> string"

record ObjectMeta =
  omKind :: string
  omNamespace :: string
  omName :: string
  omUID :: string
  omLabels :: strmap
  omAnnotations :: strmap

definition meta_key :: "ObjectMeta \<Rightarrow> object_key" where
  "meta_key m = (omNamespace m, omName m)"

record ResourceRef =
  resAPIGroup :: "string option"
  resKind :: string
  resName :: string

record IngressBackend =
  beService :: "string option"
  beResource :: "ResourceRef option"

record IngressRule =
  ruleHost :: string
  ruleHTTP :: "IngressBackend list option"

record Ingress =
  ingMeta :: ObjectMeta
  DefaultBackend :: "IngressBackend option"
  ingRules :: "IngressRule list"
  ingTLS :: "string list list"
  IngressClassName :: "string option"

record ParentReference =
  parGroup :: "string option"
  parKind :: "string option"
  parNamespace :: "string option"
  parName :: string

record BackendObjectReference =
  refGroup :: "string option"
  refKind :: "string option"
  refNamespace :: "string option"
  refName :: string

record RouteSpec =
  rtMeta :: ObjectMeta
  ParentRefs :: "ParentReference list"
  rtRules :: "BackendObjectReference list list"

record HTTPRoute = RouteSpec +
  SpecHostnames :: "string list"

text \<open>An object behind Go's \<^verbatim>\<open>client.Object\<close> interface: the kinds that type switches name, and any other
  (with its Go type, printed by \<^verbatim>\<open>%T\<close>).\<close>

datatype client_object =
    KIngress Ingress
  | KHTTPRoute HTTPRoute
  | KTCPRoute RouteSpec
  | KUDPRoute RouteSpec
  | KService ObjectMeta
  | KOther string ObjectMeta

fun object_meta :: "client_object \<Rightarrow> ObjectMeta" where
  "object_meta (KIngress i) = ingMeta i"
| "object_meta (KHTTPRoute r) = rtMeta r"
| "object_meta (KTCPRoute r) = rtMeta r"
| "object_meta (KUDPRoute r) = rtMeta r"
| "object_meta (KService m) = m"
| "object_meta (KOther _ m) = m"

abbreviation GetNamespace :: "client_object \<Rightarrow> string" where "GetNamespace obj \<equiv> omNamespace (object_meta obj)"
abbreviation GetName :: "client_object \<Rightarrow> string" where "GetName obj \<equiv> omName (object_meta obj)"
abbreviation GetUID :: "client_object \<Rightarrow> string" where "GetUID obj \<equiv> omUID (object_meta obj)"
abbreviation GetAnnotations :: "client_object \<Rightarrow> strmap" where "GetAnnotations obj \<equiv> omAnnotations (object_meta obj)"

record Gateway =
  gwMeta :: ObjectMeta
  GatewayClassName :: string

record GrantFrom =
  fromGroup :: string
  fromKind :: string
  fromNamespace :: string

record GrantTo =
  toGroup :: string
  toKind :: string
  toName :: "string option"

record ReferenceGrant =
  grantFrom :: "GrantFrom list"
  grantTo :: "GrantTo list"

record SliceEndpoint =
  seReady :: "bool option"
  seNodeName :: "string option"

record EndpointSlice =
  slMeta :: ObjectMeta
  slEndpoints :: "SliceEndpoint list"

definition gateway_group :: string where "gateway_group = ''gateway.networking.k8s.io''"
definition LabelServiceName :: string where "LabelServiceName = ''kubernetes.io/service-name''"

section \<open>DNSProvider\<close>

record DNSZone =
  zoneName :: string

record NodeLabelSource =
  NodeLabel :: string

record IPSources =
  ipv4 :: "NodeLabelSource option"
  ipv6 :: "NodeLabelSource option"

record RecordDefaults =
  defaultTTL :: int
  defaultDelay :: "int option"

record ProviderSpecific =
  Defaults :: "Property list"
  AnnotationKeys :: "string list"

record DNSProviderSpec =
  Zones :: "DNSZone list"
  ipSources :: IPSources
  recordDefaults :: RecordDefaults
  providerSpecific :: ProviderSpecific

record DNSProvider =
  dpMeta :: ObjectMeta
  dpSpec :: DNSProviderSpec

abbreviation dpName :: "DNSProvider \<Rightarrow> string" where "dpName p \<equiv> omName (dpMeta p)"

section \<open>The reader\<close>

record reader =
  get_ingress :: "object_key \<Rightarrow> Ingress result"
  get_route :: "SourceKind \<Rightarrow> object_key \<Rightarrow> client_object result"
  get_ingressclass :: "string \<Rightarrow> ObjectMeta result"
  get_gateway :: "object_key \<Rightarrow> Gateway result"
  get_gatewayclass :: "string \<Rightarrow> ObjectMeta result"
  get_provider :: "string \<Rightarrow> DNSProvider result"
  get_service :: "object_key \<Rightarrow> ObjectMeta result"
  get_node :: "string \<Rightarrow> ObjectMeta result"
  list_slices :: "string \<Rightarrow> string \<Rightarrow> EndpointSlice list result"
  list_grants :: "string \<Rightarrow> ReferenceGrant list result"

section \<open>Diagnostics\<close>

text \<open>
  A \<^verbatim>\<open>DiagnosticFunc\<close> call has no effect on the caller, so the code that makes such calls returns the
  list of them.  \<^verbatim>\<open>diagnosticOnce\<close> wraps the callback with a set of keys it has seen; its state is the
  set and the calls it has passed on.
\<close>

type_synonym diagnostic = "string \<times> string \<times> string"

type_synonym once = "string list \<times> diagnostic list"

definition diagnosticOnce :: once where
  "diagnosticOnce = ([], [])"

definition diagnostic_text :: "diagnostic \<Rightarrow> string" where
  "diagnostic_text d = (case d of (severity, reason, message) \<Rightarrow> severity @ [CHR 0x00] @ reason @ [CHR 0x00] @ message)"

definition emit :: "string \<Rightarrow> string \<Rightarrow> string \<Rightarrow> once \<Rightarrow> once" where
  "emit severity reason message st =
     (case st of (seen, calls) \<Rightarrow>
        let key = diagnostic_text (severity, reason, message) in
        if key \<in> set seen then (seen, calls)
        else (key # seen, calls @ [(severity, reason, message)]))"

definition delivered :: "once \<Rightarrow> diagnostic list" where
  "delivered st = snd st"

definition once_ok :: "once \<Rightarrow> bool" where
  "once_ok st \<longleftrightarrow> distinct (fst st) \<and> set (fst st) = diagnostic_text ` set (snd st) \<and> distinct (map diagnostic_text (snd st))"

lemma once_ok_start [simp]: "once_ok diagnosticOnce"
  by (simp add: once_ok_def diagnosticOnce_def)

lemma once_ok_emit [simp]: "once_ok st \<Longrightarrow> once_ok (emit severity reason message st)"
  by (auto simp: once_ok_def emit_def Let_def split: prod.split)

end
