(* ===== verification/Projection.thy ===== *)
theory Projection
  imports Kube_Types
begin

text \<open>
  \<^verbatim>\<open>internal/source/projection.go\<close>: which backends a source publishes under which hostname.
  \<open>IngressProjection\<close> and \<open>RouteProjection\<close> return the diagnostics they reported and the projection or the
  error; \<open>providerProperties\<close> selects the ExternalDNS properties of a record.  A Go map from hosts to sets of
  backends is a duplicate-free association list in insertion order; every result is sorted.

  The specification side is \<open>ingress_backends\<close> (the backends an Ingress declares for a hostname) and
  \<open>route_backends\<close> (the references of a route that are Services of its own namespace or covered by a
  ReferenceGrant).  The interface of projections (\<open>projection_source\<close>) is what the resolver relies on.
\<close>

section \<open>Sets of backends\<close>

definition serviceKind :: string where "serviceKind = ''Service''"

definition backendSet :: "Backend list \<Rightarrow> Backend list" where
  "backendSet values = sort_key Key values"

definition projectionSet :: "(string \<times> Backend list) list \<Rightarrow> HostProjection list" where
  "projectionSet values =
     sort_key Hostname
       (map (\<lambda>(hostname, backends). \<lparr>Hostname = hostname, Backends = backendSet backends\<rparr>)
         (filter (\<lambda>(hostname, backends). length backends \<noteq> 0) values))"

section \<open>Ingress\<close>

definition ingressBackend :: "string \<Rightarrow> IngressBackend option \<Rightarrow> Backend option" where
  "ingressBackend namespace backend =
     (case backend of
        None \<Rightarrow> None
      | Some be \<Rightarrow>
          (case beService be of
             None \<Rightarrow> None
           | Some name \<Rightarrow> if name = '''' then None else Some \<lparr>bNamespace = namespace, bName = name\<rparr>))"

definition diagnoseUnsupportedIngressBackend :: "Ingress \<Rightarrow> string \<Rightarrow> IngressBackend option \<Rightarrow> once \<Rightarrow> once" where
  "diagnoseUnsupportedIngressBackend ingress location backend st =
     (case Option.bind backend beResource of
        None \<Rightarrow> st
      | Some res \<Rightarrow>
          (let group = (case resAPIGroup res of None \<Rightarrow> '''' | Some g \<Rightarrow> g)
           in emit DiagnosticWarning ''UnsupportedBackend''
                (Sprintf ''Ingress %s/%s %s uses unsupported resource backend %s/%s %q''
                  [FStr (omNamespace (ingMeta ingress)), FStr (omName (ingMeta ingress)), FStr location, FStr group,
                   FStr (resKind res), FStr (resName res)]) st))"

definition has_reference :: "IngressBackend \<Rightarrow> bool" where
  "has_reference be \<longleftrightarrow> beService be \<noteq> None \<or> beResource be \<noteq> None"

text \<open>The local variables of \<^verbatim>\<open>IngressProjection\<close>.\<close>

record ingress_state =
  hasBackendReference :: bool
  allBackends :: "Backend list"
  ruleBackends :: "(string \<times> Backend list) list"
  hasHostname :: bool
  isOnce :: once

definition ingress_start :: "Ingress \<Rightarrow> string list \<Rightarrow> ingress_state" where
  "ingress_start ingress overrides =
     (case DefaultBackend ingress of
        None \<Rightarrow> \<lparr>hasBackendReference = False, allBackends = [], ruleBackends = [], hasHostname = overrides \<noteq> [], isOnce = diagnosticOnce\<rparr>
      | Some be \<Rightarrow>
          (case ingressBackend (omNamespace (ingMeta ingress)) (Some be) of
             Some backend \<Rightarrow>
               \<lparr>hasBackendReference = has_reference be, allBackends = [backend], ruleBackends = [],
                hasHostname = overrides \<noteq> [], isOnce = diagnosticOnce\<rparr>
           | None \<Rightarrow>
               \<lparr>hasBackendReference = has_reference be, allBackends = [], ruleBackends = [], hasHostname = overrides \<noteq> [],
                isOnce = diagnoseUnsupportedIngressBackend ingress ''default backend'' (Some be) diagnosticOnce\<rparr>))"

text \<open>Adding one path's backend to the host's set and to the set of all.\<close>

definition add_path :: "string \<Rightarrow> string \<Rightarrow> ingress_state \<Rightarrow> IngressBackend \<Rightarrow> ingress_state" where
  "add_path namespace host st be =
     (case ingressBackend namespace (Some be) of
        None \<Rightarrow> st
      | Some backend \<Rightarrow>
          st\<lparr>ruleBackends := AList.update host (List.insert backend (the (map_of (ruleBackends st) host))) (ruleBackends st),
             allBackends := List.insert backend (allBackends st)\<rparr>)"

text \<open>One iteration of the loop over the rules; \<open>Inl\<close> carries the diagnostics reported before the error.\<close>

definition rule_step :: "name_check \<Rightarrow> Ingress \<Rightarrow> string list \<Rightarrow> nat \<Rightarrow> IngressRule \<Rightarrow> ingress_state \<Rightarrow> (once \<times> goerr) + ingress_state" where
  "rule_step D ingress overrides ruleIndex rule st =
     (let namespace = omNamespace (ingMeta ingress);
          paths = (case ruleHTTP rule of None \<Rightarrow> [] | Some ps \<Rightarrow> ps);
          location = Sprintf ''rule %d (%q)'' [FInt (int ruleIndex), FStr (ruleHost rule)];
          hasServiceBackend = list_ex (\<lambda>be. beService be \<noteq> None) paths;
          o1 = fold (\<lambda>be. diagnoseUnsupportedIngressBackend ingress location (Some be)) paths (isOnce st);
          st1 = st\<lparr>hasBackendReference := hasBackendReference st \<or> list_ex has_reference paths, isOnce := o1\<rparr>
      in if ruleHost rule = '''' \<or> ruleHTTP rule = None
         then Inr (if ruleHost rule = '''' \<and> hasServiceBackend \<and> overrides \<noteq> []
                   then st1\<lparr>isOnce := emit DiagnosticNormal ''IngressRuleWithoutHostname''
                          (Sprintf ''Ingress %s/%s rule %d has no hostname; its backends are ignored even with hostname overrides''
                            [FStr namespace, FStr (omName (ingMeta ingress)), FInt (int ruleIndex)]) o1\<rparr>
                   else st1)
         else case NormalizeHostname D (ruleHost rule) of
                Inl e \<Rightarrow> Inl (o1, e)
              | Inr host \<Rightarrow>
                  (let st2 = st1\<lparr>ruleBackends := (if map_of (ruleBackends st1) host = None
                                                then AList.update host [] (ruleBackends st1) else ruleBackends st1),
                              hasHostname := True\<rparr>
                   in Inr (foldl (add_path namespace host) st2 paths)))"

fun rule_loop :: "name_check \<Rightarrow> Ingress \<Rightarrow> string list \<Rightarrow> nat \<Rightarrow> IngressRule list \<Rightarrow> ingress_state \<Rightarrow> (once \<times> goerr) + ingress_state" where
  "rule_loop D ingress overrides ruleIndex [] st = Inr st"
| "rule_loop D ingress overrides ruleIndex (rule # rules) st =
     (case rule_step D ingress overrides ruleIndex rule st of
        Inl e \<Rightarrow> Inl e
      | Inr st' \<Rightarrow> rule_loop D ingress overrides (ruleIndex + 1) rules st')"

text \<open>The loop over the TLS hosts, in the order of the blocks; \<open>tls_host\<close> is its body for a host that no
  rule and no earlier TLS entry has.\<close>

definition tls_host :: "Ingress \<Rightarrow> string \<Rightarrow> ingress_state \<Rightarrow> ingress_state" where
  "tls_host ingress host st =
     (let st1 = st\<lparr>hasHostname := True\<rparr>;
          missing = (\<lambda>why. st1\<lparr>isOnce := emit DiagnosticWarning ''TLSHostWithoutBackend''
            (Sprintf (''Ingress %s/%s TLS-only hostname %q has no matching rule '' @ why)
              [FStr (omNamespace (ingMeta ingress)), FStr (omName (ingMeta ingress)), FStr host]) (isOnce st1)\<rparr>)
      in if DefaultBackend ingress = None then missing ''or default backend''
         else case ingressBackend (omNamespace (ingMeta ingress)) (DefaultBackend ingress) of
                Some backend \<Rightarrow> st1\<lparr>ruleBackends := AList.update host [backend] (ruleBackends st1)\<rparr>
              | None \<Rightarrow> missing ''and its default backend is unsupported'')"

fun tls_loop :: "name_check \<Rightarrow> Ingress \<Rightarrow> string list \<Rightarrow> ingress_state \<Rightarrow> (once \<times> goerr) + ingress_state" where
  "tls_loop D ingress [] st = Inr st"
| "tls_loop D ingress (raw # raws) st =
     (case NormalizeHostname D raw of
        Inl e \<Rightarrow> Inl (isOnce st, e)
      | Inr host \<Rightarrow>
          tls_loop D ingress raws (if map_of (ruleBackends st) host \<noteq> None then st else tls_host ingress host st))"

definition no_reference :: "Ingress \<Rightarrow> ingress_state \<Rightarrow> ingress_state" where
  "no_reference ingress st =
     (if \<not> hasBackendReference st
      then st\<lparr>isOnce := emit DiagnosticNormal ''NoBackendReferences''
             (Sprintf ''Ingress %s/%s has no backend references'' [FStr (omNamespace (ingMeta ingress)), FStr (omName (ingMeta ingress))]) (isOnce st)\<rparr>
      else st)"

definition no_hostname :: "Ingress \<Rightarrow> ingress_state \<Rightarrow> ingress_state" where
  "no_hostname ingress st =
     (if \<not> hasHostname st
      then st\<lparr>isOnce := emit DiagnosticNormal ''NoPublishableHostname''
             (Sprintf ''Ingress %s/%s has no publishable hostname'' [FStr (omNamespace (ingMeta ingress)), FStr (omName (ingMeta ingress))]) (isOnce st)\<rparr>
      else st)"

definition IngressProjection :: "name_check \<Rightarrow> Ingress \<Rightarrow> string list \<Rightarrow> diagnostic list \<times> HostProjection list result" where
  "IngressProjection D ingress overrides =
     (case rule_loop D ingress overrides 0 (ingRules ingress) (ingress_start ingress overrides) of
        Inl (o1, e) \<Rightarrow> (delivered o1, Inl e)
      | Inr st1 \<Rightarrow>
          (if overrides \<noteq> []
           then let st2 = no_reference ingress st1; backends = backendSet (allBackends st2)
             in (delivered (isOnce st2), Inr (map (\<lambda>hostname. \<lparr>Hostname = hostname, Backends = backends\<rparr>) overrides))
           else case tls_loop D ingress (concat (ingTLS ingress)) st1 of
                  Inl (o2, e) \<Rightarrow> (delivered o2, Inl e)
                | Inr st2 \<Rightarrow>
                    (let st3 = no_reference ingress (no_hostname ingress st2)
                     in (delivered (isOnce st3), Inr (projectionSet (ruleBackends st3))))))"

section \<open>Gateway routes\<close>

fun RouteKind :: "client_object \<Rightarrow> SourceKind" where
  "RouteKind (KHTTPRoute _) = SourceKindHTTPRoute"
| "RouteKind (KTCPRoute _) = SourceKindTCPRoute"
| "RouteKind (KUDPRoute _) = SourceKindUDPRoute"
| "RouteKind _ = ''''"

text \<open>\<^verbatim>\<open>RouteObject\<close> allocates the empty object a read decodes into; what matters is whether there is one.\<close>

definition RouteObject :: "SourceKind \<Rightarrow> SourceKind option" where
  "RouteObject kind =
     (if kind \<in> {SourceKindHTTPRoute, SourceKindTCPRoute, SourceKindUDPRoute} then Some kind else None)"

fun RouteParents :: "client_object \<Rightarrow> ParentReference list" where
  "RouteParents (KHTTPRoute r) = ParentRefs r"
| "RouteParents (KTCPRoute r) = ParentRefs r"
| "RouteParents (KUDPRoute r) = ParentRefs r"
| "RouteParents _ = []"

fun RouteBackendRefs :: "client_object \<Rightarrow> BackendObjectReference list" where
  "RouteBackendRefs (KHTTPRoute r) = concat (rtRules r)"
| "RouteBackendRefs (KTCPRoute r) = concat (rtRules r)"
| "RouteBackendRefs (KUDPRoute r) = concat (rtRules r)"
| "RouteBackendRefs _ = []"

definition supported_ref :: "BackendObjectReference \<Rightarrow> bool" where
  "supported_ref ref \<longleftrightarrow>
     \<not> (refGroup ref \<noteq> None \<and> refGroup ref \<noteq> Some '''' \<or> refKind ref \<noteq> None \<and> refKind ref \<noteq> Some serviceKind)"

definition ref_namespace :: "string \<Rightarrow> BackendObjectReference \<Rightarrow> string" where
  "ref_namespace namespace ref = (case refNamespace ref of None \<Rightarrow> namespace | Some n \<Rightarrow> n)"

definition grant_allows :: "SourceKind \<Rightarrow> string \<Rightarrow> string \<Rightarrow> ReferenceGrant \<Rightarrow> bool" where
  "grant_allows kind namespace name grant \<longleftrightarrow>
     list_ex (\<lambda>from. fromGroup from = gateway_group \<and> fromKind from = kind \<and> fromNamespace from = namespace) (grantFrom grant) \<and>
     list_ex (\<lambda>to. toGroup to = '''' \<and> toKind to = serviceKind \<and> (toName to = None \<or> toName to = Some name)) (grantTo grant)"

definition routeBackend :: "reader \<Rightarrow> client_object \<Rightarrow> SourceKind \<Rightarrow> BackendObjectReference \<Rightarrow> Backend option result" where
  "routeBackend R route kind ref =
     (if \<not> supported_ref ref then Inr None
      else let namespace = ref_namespace (GetNamespace route) ref;
               backend = \<lparr>bNamespace = namespace, bName = refName ref\<rparr>
        in if namespace = GetNamespace route then Inr (Some backend)
           else case list_grants R namespace of
                  Inl e \<Rightarrow> Inl (WrapErr (Sprintf ''list ReferenceGrants in %s: '' [FStr namespace]) e)
                | Inr grants \<Rightarrow>
                    Inr (if list_ex (grant_allows kind (GetNamespace route) (bName backend)) grants then Some backend else None))"

fun backend_loop :: "reader \<Rightarrow> client_object \<Rightarrow> BackendObjectReference list \<Rightarrow> once \<times> Backend list \<Rightarrow> once \<times> Backend list result" where
  "backend_loop R route [] (st, all) = (st, Inr all)"
| "backend_loop R route (ref # refs) (st, all) =
     (case routeBackend R route (RouteKind route) ref of
        Inl e \<Rightarrow> (st, Inl e)
      | Inr None \<Rightarrow>
          backend_loop R route refs
            (emit DiagnosticWarning ''UnsupportedBackend''
              (Sprintf ''%s %s/%s backendRef %q is unsupported or lacks a ReferenceGrant''
                [FStr (RouteKind route), FStr (GetNamespace route), FStr (GetName route), FStr (refName ref)]) st, all)
      | Inr (Some backend) \<Rightarrow> backend_loop R route refs (st, List.insert backend all))"

definition route_hostnames :: "name_check \<Rightarrow> client_object \<Rightarrow> string list \<Rightarrow> string list result" where
  "route_hostnames D route overrides =
     (case route of
        KHTTPRoute r \<Rightarrow>
          (if length overrides = 0
           then and_then (traverse (NormalizeHostname D) (SpecHostnames r)) (\<lambda>hostnames. Inr (sortedUnique hostnames))
           else Inr overrides)
      | _ \<Rightarrow> Inr overrides)"

fun go_type :: "client_object \<Rightarrow> string" where
  "go_type (KIngress _) = ''*v1.Ingress''"
| "go_type (KHTTPRoute _) = ''*v1.HTTPRoute''"
| "go_type (KTCPRoute _) = ''*v1.TCPRoute''"
| "go_type (KUDPRoute _) = ''*v1.UDPRoute''"
| "go_type (KService _) = ''*v1.Service''"
| "go_type (KOther t _) = t"

definition RouteProjection :: "name_check \<Rightarrow> reader \<Rightarrow> client_object \<Rightarrow> string list \<Rightarrow> diagnostic list \<times> HostProjection list result" where
  "RouteProjection D R route overrides =
     (let kind = RouteKind route; refs = RouteBackendRefs route;
          note_route = (\<lambda>reason what. emit DiagnosticNormal reason
            (Sprintf (''%s %s/%s has no '' @ what) [FStr kind, FStr (GetNamespace route), FStr (GetName route)]))
      in if kind = ''''
         then ([], Inl (ErrMsg (''unsupported Gateway route object '' @ go_type route)))
         else case backend_loop R route refs (diagnosticOnce, []) of
                (o1, Inl e) \<Rightarrow> (delivered o1, Inl e)
              | (o1, Inr all) \<Rightarrow>
                  (case route_hostnames D route overrides of
                     Inl e \<Rightarrow> (delivered o1, Inl e)
                   | Inr hostnames \<Rightarrow>
                       (let o2 = (if length hostnames = 0 then note_route ''NoPublishableHostname'' ''publishable hostname'' o1 else o1);
                            o3 = (if length refs = 0 then note_route ''NoBackendReferences'' ''backend references'' o2 else o2)
                        in (delivered o3,
                            Inr (if length all = 0 then []
                                 else map (\<lambda>hostname. \<lparr>Hostname = hostname, Backends = backendSet all\<rparr>) hostnames)))))"

abbreviation HTTPRouteProjection :: "name_check \<Rightarrow> reader \<Rightarrow> HTTPRoute \<Rightarrow> string list \<Rightarrow> diagnostic list \<times> HostProjection list result" where
  "HTTPRouteProjection D R route \<equiv> RouteProjection D R (KHTTPRoute route)"

section \<open>Provider properties\<close>

definition selected_keys :: "strmap \<Rightarrow> string list \<Rightarrow> Property list" where
  "selected_keys annotations ks =
     List.map_filter (\<lambda>key. map_option (\<lambda>value. (key, value)) (fmlookup annotations key)) ks"

definition providerProperties :: "DNSProvider \<Rightarrow> strmap \<Rightarrow> Property list \<times> strmap" where
  "providerProperties provider annotations =
     (let spec = providerSpecific (dpSpec provider);
          properties = foldl (\<lambda>m (name, value). AList.update name value m) [] (Defaults spec @ selected_keys annotations (AnnotationKeys spec))
      in (sort properties, fmfilter (\<lambda>key. HasPrefix key ExternalDNSPrefix) annotations))"

section \<open>What an Ingress declares\<close>

definition rule_host :: "name_check \<Rightarrow> IngressRule \<Rightarrow> string option" where
  "rule_host D rule =
     (if ruleHost rule = '''' \<or> ruleHTTP rule = None then None
      else case NormalizeHostname D (ruleHost rule) of Inl _ \<Rightarrow> None | Inr h \<Rightarrow> Some h)"

definition valid_rule :: "name_check \<Rightarrow> IngressRule \<Rightarrow> bool" where
  "valid_rule D rule \<longleftrightarrow>
     ruleHost rule = '''' \<or> ruleHTTP rule = None \<or> (\<exists>h. NormalizeHostname D (ruleHost rule) = Inr h)"

abbreviation ing_namespace :: "Ingress \<Rightarrow> string" where
  "ing_namespace ing \<equiv> omNamespace (ingMeta ing)"

definition path_backends :: "string \<Rightarrow> IngressRule \<Rightarrow> Backend set" where
  "path_backends namespace rule = {b. \<exists>ps. ruleHTTP rule = Some ps \<and> (\<exists>be \<in> set ps. ingressBackend namespace (Some be) = Some b)}"

definition declared :: "name_check \<Rightarrow> string \<Rightarrow> IngressRule list \<Rightarrow> string \<Rightarrow> Backend set" where
  "declared D namespace rules h = (\<Union>rule \<in> {r \<in> set rules. rule_host D r = Some h}. path_backends namespace rule)"

definition rule_hosts :: "name_check \<Rightarrow> IngressRule list \<Rightarrow> string set" where
  "rule_hosts D rules = {h. \<exists>rule \<in> set rules. rule_host D rule = Some h}"

definition tls_hosts :: "name_check \<Rightarrow> string list \<Rightarrow> string set" where
  "tls_hosts D raws = {h. \<exists>raw \<in> set raws. NormalizeHostname D raw = Inr h}"

definition default_backends :: "Ingress \<Rightarrow> Backend set" where
  "default_backends ing = set_option (ingressBackend (ing_namespace ing) (DefaultBackend ing))"

text \<open>The backends of a hostname: those of the rules for it; a hostname that only TLS names is served
  by the default backend.\<close>

definition ingress_backends :: "name_check \<Rightarrow> Ingress \<Rightarrow> string \<Rightarrow> Backend set" where
  "ingress_backends D ing h =
     (if h \<in> rule_hosts D (ingRules ing) then declared D (ing_namespace ing) (ingRules ing) h
      else if h \<in> tls_hosts D (concat (ingTLS ing)) then default_backends ing else {})"

section \<open>The loops of IngressProjection\<close>

definition host_view :: "(string \<times> Backend list) list \<Rightarrow> string \<rightharpoonup> Backend set" where
  "host_view m h = map_option set (map_of m h)"

definition wf_hosts :: "(string \<times> Backend list) list \<Rightarrow> bool" where
  "wf_hosts m \<longleftrightarrow> distinct (map fst m) \<and> (\<forall>h bs. map_of m h = Some bs \<longrightarrow> distinct bs)"

lemma wf_hosts_update [simp]: "wf_hosts m \<Longrightarrow> distinct bs \<Longrightarrow> wf_hosts (AList.update h bs m)"
  by (auto simp: wf_hosts_def distinct_update update_conv')

lemma host_view_update [simp]: "host_view (AList.update h bs m) = (host_view m)(h \<mapsto> set bs)"
  by (rule ext) (simp add: host_view_def update_conv')

lemma host_view_None [simp]: "host_view m h = None \<longleftrightarrow> map_of m h = None"
  by (simp add: host_view_def)

text \<open>What the loops keep of their state: duplicate-free sets, and the view of them.\<close>

definition ingress_inv :: "ingress_state \<Rightarrow> bool" where
  "ingress_inv st \<longleftrightarrow> wf_hosts (ruleBackends st) \<and> distinct (allBackends st)"

lemma add_path_props:
  fixes namespace :: string and be :: IngressBackend
  assumes "ingress_inv st" "host_view (ruleBackends st) h = Some B"
  defines "new \<equiv> set_option (ingressBackend namespace (Some be))"
  shows "ingress_inv (add_path namespace h st be)"
    and "host_view (ruleBackends (add_path namespace h st be)) = (host_view (ruleBackends st))(h \<mapsto> B \<union> new)"
    and "set (allBackends (add_path namespace h st be)) = set (allBackends st) \<union> new"
proof -
  obtain bs where bs: "map_of (ruleBackends st) h = Some bs" "set bs = B" using assms(2) by (auto simp: host_view_def)
  have "distinct bs" using assms(1) bs(1) by (auto simp: ingress_inv_def wf_hosts_def)
  moreover have "(host_view (ruleBackends st))(h \<mapsto> B) = host_view (ruleBackends st)" using assms(2) by (simp add: fun_upd_idem)
  ultimately show "ingress_inv (add_path namespace h st be)"
    "host_view (ruleBackends (add_path namespace h st be)) = (host_view (ruleBackends st))(h \<mapsto> B \<union> new)"
    "set (allBackends (add_path namespace h st be)) = set (allBackends st) \<union> new"
    using assms(1) bs unfolding new_def by (auto simp: add_path_def ingress_inv_def split: option.split)
qed

lemma add_paths_props:
  fixes namespace :: string and ps :: "IngressBackend list"
  assumes "ingress_inv st" "host_view (ruleBackends st) h = Some B"
  defines "new \<equiv> {b. \<exists>be \<in> set ps. ingressBackend namespace (Some be) = Some b}"
  shows "ingress_inv (foldl (add_path namespace h) st ps) \<and>
    host_view (ruleBackends (foldl (add_path namespace h) st ps)) = (host_view (ruleBackends st))(h \<mapsto> B \<union> new) \<and>
    set (allBackends (foldl (add_path namespace h) st ps)) = set (allBackends st) \<union> new"
  unfolding new_def using assms(1,2)
proof (induction ps arbitrary: st B)
  case Nil
  then show ?case by (simp add: fun_upd_idem)
next
  case (Cons be ps)
  note step = add_path_props [OF Cons.prems, of namespace be]
  have "host_view (ruleBackends (add_path namespace h st be)) h = Some (B \<union> set_option (ingressBackend namespace (Some be)))"
    using step(2) by simp
  note IH = Cons.IH [OF step(1) this]
  have split: "{b. \<exists>x \<in> set (be # ps). ingressBackend namespace (Some x) = Some b} =
    set_option (ingressBackend namespace (Some be)) \<union> {b. \<exists>x \<in> set ps. ingressBackend namespace (Some x) = Some b}"
    by (auto simp: elem_set)
  show ?case using IH unfolding split by (auto simp: step(2,3) Un_assoc fun_eq_iff)
qed

definition rule_new :: "name_check \<Rightarrow> string \<Rightarrow> IngressRule \<Rightarrow> Backend set" where
  "rule_new D namespace rule = (if rule_host D rule = None then {} else path_backends namespace rule)"

definition grow :: "(string \<rightharpoonup> Backend set) \<Rightarrow> string option \<Rightarrow> Backend set \<Rightarrow> string \<rightharpoonup> Backend set" where
  "grow v h B = (case h of None \<Rightarrow> v | Some h \<Rightarrow> v(h \<mapsto> (case v h of None \<Rightarrow> {} | Some A \<Rightarrow> A) \<union> B))"

lemma rule_step_props:
  assumes "ingress_inv st"
  shows "case rule_step D ing overrides i rule st of
      Inl (_, e) \<Rightarrow> \<not> valid_rule D rule \<and> IsInvalid e
    | Inr st' \<Rightarrow> valid_rule D rule \<and> ingress_inv st' \<and>
        host_view (ruleBackends st') = grow (host_view (ruleBackends st)) (rule_host D rule) (path_backends (ing_namespace ing) rule) \<and>
        set (allBackends st') = set (allBackends st) \<union> rule_new D (ing_namespace ing) rule"
proof (cases "ruleHost rule = '''' \<or> ruleHTTP rule = None")
  case True
  then show ?thesis using assms
    by (auto simp: rule_step_def Let_def valid_rule_def rule_host_def rule_new_def grow_def ingress_inv_def)
next
  case False
  then obtain ps where ps: "ruleHTTP rule = Some ps" "ruleHost rule \<noteq> ''''" by auto
  show ?thesis
  proof (cases "NormalizeHostname D (ruleHost rule)")
    case (Inl e)
    then show ?thesis using ps NormalizeHostname_error [OF Inl] by (simp add: rule_step_def Let_def valid_rule_def)
  next
    case (Inr h)
    define o1 where "o1 = fold (\<lambda>be. diagnoseUnsupportedIngressBackend ing (Sprintf ''rule %d (%q)'' [FInt (int i), FStr (ruleHost rule)]) (Some be)) ps (isOnce st)"
    define st2 where "st2 = st\<lparr>hasBackendReference := hasBackendReference st \<or> list_ex has_reference ps, isOnce := o1,
      ruleBackends := (if map_of (ruleBackends st) h = None then AList.update h [] (ruleBackends st) else ruleBackends st), hasHostname := True\<rparr>"
    let ?A = "case host_view (ruleBackends st) h of None \<Rightarrow> {} | Some A \<Rightarrow> A"
    have view: "host_view (ruleBackends st2) = (host_view (ruleBackends st))(h \<mapsto> ?A)"
      by (auto simp: st2_def host_view_def fun_eq_iff update_conv' split: option.splits)
    have "ingress_inv st2" using assms by (simp add: st2_def ingress_inv_def)
    from add_paths_props [OF this, of h ?A "ing_namespace ing" ps] view
    have "let st' = foldl (add_path (ing_namespace ing) h) st2 ps in ingress_inv st' \<and>
      host_view (ruleBackends st') = (host_view (ruleBackends st))(h \<mapsto> ?A \<union> path_backends (ing_namespace ing) rule) \<and>
      set (allBackends st') = set (allBackends st2) \<union> path_backends (ing_namespace ing) rule"
      by (simp add: Let_def path_backends_def ps(1))
    moreover have "rule_step D ing overrides i rule st = Inr (foldl (add_path (ing_namespace ing) h) st2 ps)"
      using ps Inr by (simp add: rule_step_def Let_def st2_def o1_def)
    ultimately show ?thesis using ps Inr
      by (simp add: Let_def valid_rule_def rule_host_def grow_def rule_new_def st2_def)
  qed
qed

definition rules_view :: "name_check \<Rightarrow> string \<Rightarrow> IngressRule list \<Rightarrow> string \<rightharpoonup> Backend set" where
  "rules_view D namespace rules h = (if h \<in> rule_hosts D rules then Some (declared D namespace rules h) else None)"

lemma rules_view_snoc:
  "grow (rules_view D namespace rs) (rule_host D r) (path_backends namespace r) = rules_view D namespace (rs @ [r])"
proof
  fix h
  show "grow (rules_view D namespace rs) (rule_host D r) (path_backends namespace r) h = rules_view D namespace (rs @ [r]) h"
  proof (cases "rule_host D r = Some h")
    case True
    then have *: "declared D namespace (rs @ [r]) h = declared D namespace rs h \<union> path_backends namespace r"
      by (auto simp: declared_def)
    have "h \<notin> rule_hosts D rs \<Longrightarrow> declared D namespace rs h = {}" by (auto simp: declared_def rule_hosts_def)
    with True * show ?thesis by (auto simp: grow_def rules_view_def rule_hosts_def)
  next
    case False
    then have "declared D namespace (rs @ [r]) h = declared D namespace rs h" "h \<in> rule_hosts D (rs @ [r]) \<longleftrightarrow> h \<in> rule_hosts D rs"
      by (auto simp: declared_def rule_hosts_def)
    with False show ?thesis by (auto simp: grow_def rules_view_def split: option.split)
  qed
qed

definition all_declared :: "name_check \<Rightarrow> string \<Rightarrow> IngressRule list \<Rightarrow> Backend set" where
  "all_declared D namespace rules = (\<Union>rule \<in> set rules. rule_new D namespace rule)"

lemma rule_loop_props:
  assumes "ingress_inv st" "host_view (ruleBackends st) = rules_view D (ing_namespace ing) pre"
  shows "case rule_loop D ing overrides i rules st of
      Inl (_, e) \<Rightarrow> \<not> list_all (valid_rule D) rules \<and> IsInvalid e
    | Inr st' \<Rightarrow> list_all (valid_rule D) rules \<and> ingress_inv st' \<and>
        host_view (ruleBackends st') = rules_view D (ing_namespace ing) (pre @ rules) \<and>
        set (allBackends st') = set (allBackends st) \<union> all_declared D (ing_namespace ing) rules"
  using assms
proof (induction rules arbitrary: i st pre)
  case Nil
  then show ?case by (simp add: all_declared_def)
next
  case (Cons rule rules)
  note step = rule_step_props [OF Cons.prems(1), where D = D and ing = ing and overrides = overrides and i = i and rule = rule]
  show ?case
  proof (cases "rule_step D ing overrides i rule st")
    case (Inl e)
    with step show ?thesis by (cases e) simp
  next
    case (Inr st')
    with step have st': "valid_rule D rule" "ingress_inv st'"
      "host_view (ruleBackends st') = rules_view D (ing_namespace ing) (pre @ [rule])"
      "set (allBackends st') = set (allBackends st) \<union> rule_new D (ing_namespace ing) rule"
      by (simp_all add: Cons.prems(2) rules_view_snoc)
    show ?thesis using Cons.IH [OF st'(2,3), where i = "i + 1"] st'(1,4) Inr
      by (auto simp: all_declared_def split: sum.splits)
  qed
qed

definition valid_host :: "name_check \<Rightarrow> string \<Rightarrow> bool" where
  "valid_host D raw \<longleftrightarrow> (\<exists>h. NormalizeHostname D raw = Inr h)"

definition tls_view :: "Backend set \<Rightarrow> string set \<Rightarrow> (string \<rightharpoonup> Backend set) \<Rightarrow> string \<rightharpoonup> Backend set" where
  "tls_view B hosts v h = (if v h = None \<and> h \<in> hosts \<and> B \<noteq> {} then Some B else v h)"

lemma tls_host_props:
  assumes "ingress_inv st"
  shows "ingress_inv (tls_host ing h st)"
    and "host_view (ruleBackends (tls_host ing h st)) =
      (if default_backends ing = {} then host_view (ruleBackends st) else (host_view (ruleBackends st))(h \<mapsto> default_backends ing))"
  using assms
  by (auto simp: tls_host_def Let_def ingress_inv_def default_backends_def ingressBackend_def split: option.splits)

lemma tls_loop_props:
  assumes "ingress_inv st"
  shows "case tls_loop D ing raws st of
      Inl (_, e) \<Rightarrow> \<not> list_all (valid_host D) raws \<and> IsInvalid e
    | Inr st' \<Rightarrow> list_all (valid_host D) raws \<and> ingress_inv st' \<and>
        host_view (ruleBackends st') = tls_view (default_backends ing) (tls_hosts D raws) (host_view (ruleBackends st))"
  using assms
proof (induction raws arbitrary: st)
  case Nil
  then show ?case by (simp add: tls_view_def tls_hosts_def fun_eq_iff)
next
  case (Cons raw raws)
  show ?case
  proof (cases "NormalizeHostname D raw")
    case (Inl e)
    then show ?thesis using NormalizeHostname_error [OF Inl] by (simp add: valid_host_def)
  next
    case (Inr h)
    define st' where "st' = (if map_of (ruleBackends st) h \<noteq> None then st else tls_host ing h st)"
    have st': "ingress_inv st'" "tls_loop D ing (raw # raws) st = tls_loop D ing raws st'"
      "host_view (ruleBackends st') = tls_view (default_backends ing) {h} (host_view (ruleBackends st))"
      using Cons.prems Inr tls_host_props [OF Cons.prems, of ing h] by (auto simp: st'_def tls_view_def fun_eq_iff host_view_def)
    have "tls_view B (tls_hosts D raws) (tls_view B {h} v) = tls_view B (tls_hosts D (raw # raws)) v" for B v
      using Inr by (auto simp: tls_view_def tls_hosts_def fun_eq_iff)
    with Cons.IH [OF st'(1)] st'(2,3) Inr show ?thesis by (auto simp: valid_host_def split: sum.splits)
  qed
qed

lemma ingress_start_props:
  "ingress_inv (ingress_start ing overrides)" "host_view (ruleBackends (ingress_start ing overrides)) = rules_view D namespace []"
  "set (allBackends (ingress_start ing overrides)) = default_backends ing"
  by (auto simp: ingress_start_def ingress_inv_def wf_hosts_def host_view_def rules_view_def rule_hosts_def default_backends_def
      ingressBackend_def fun_eq_iff split: option.splits)

lemma no_reference_simps [simp]:
  "ruleBackends (no_reference ing st) = ruleBackends st" "allBackends (no_reference ing st) = allBackends st"
  "ruleBackends (no_hostname ing st) = ruleBackends st" "allBackends (no_hostname ing st) = allBackends st"
  by (simp_all add: no_reference_def no_hostname_def)

text \<open>The backends a projection gives to a hostname.\<close>

definition projected :: "HostProjection list \<Rightarrow> string \<Rightarrow> Backend set" where
  "projected ps h = (\<Union>p \<in> {p \<in> set ps. Hostname p = h}. set (Backends p))"

definition sorted_backends :: "HostProjection \<Rightarrow> bool" where
  "sorted_backends p \<longleftrightarrow> distinct (Backends p) \<and> sorted (map Key (Backends p))"

lemma backendSet_props [simp]: "set (backendSet bs) = set bs" "distinct (backendSet bs) = distinct bs" "sorted (map Key (backendSet bs))"
  by (simp_all add: backendSet_def)

lemma projectionSet_props:
  assumes "wf_hosts m"
  shows "sorted (map Hostname (projectionSet m))" "distinct (map Hostname (projectionSet m))"
    "p \<in> set (projectionSet m) \<Longrightarrow> sorted_backends p \<and> Backends p \<noteq> [] \<and> host_view m (Hostname p) = Some (set (Backends p))"
    "projected (projectionSet m) h = (case host_view m h of None \<Rightarrow> {} | Some B \<Rightarrow> B)"
proof -
  let ?mk = "\<lambda>(hostname, backends). \<lparr>Hostname = hostname, Backends = backendSet backends\<rparr>"
  show "sorted (map Hostname (projectionSet m))" by (simp add: projectionSet_def)
  have mk: "map Hostname (map ?mk xs) = map fst xs" for xs by (simp add: case_prod_unfold comp_def)
  show "distinct (map Hostname (projectionSet m))"
    using assms by (simp add: projectionSet_def wf_hosts_def distinct_map_filter mk del: map_map)
  have mem: "p \<in> set (projectionSet m) \<longleftrightarrow>
    (\<exists>bs. map_of m (Hostname p) = Some bs \<and> bs \<noteq> [] \<and> Backends p = backendSet bs)" for p
    using assms by (cases p) (auto simp: projectionSet_def wf_hosts_def image_iff map_of_eq_Some_iff)
  have ne: "backendSet bs = [] \<longleftrightarrow> bs = []" for bs by (metis backendSet_props(1) set_empty)
  show "p \<in> set (projectionSet m) \<Longrightarrow> sorted_backends p \<and> Backends p \<noteq> [] \<and> host_view m (Hostname p) = Some (set (Backends p))"
  proof -
    assume "p \<in> set (projectionSet m)"
    then obtain bs where bs: "map_of m (Hostname p) = Some bs" "bs \<noteq> []" "Backends p = backendSet bs" unfolding mem by auto
    have "distinct bs" using assms bs(1) by (auto simp: wf_hosts_def)
    then show ?thesis using bs by (simp add: sorted_backends_def host_view_def ne)
  qed
  show "projected (projectionSet m) h = (case host_view m h of None \<Rightarrow> {} | Some B \<Rightarrow> B)"
  proof (cases "map_of m h")
    case None
    then show ?thesis by (auto simp: projected_def mem host_view_def)
  next
    case (Some bs)
    have "projected (projectionSet m) h = set bs"
    proof (cases "bs = []")
      case False
      then have "\<lparr>Hostname = h, Backends = backendSet bs\<rparr> \<in> set (projectionSet m)" unfolding mem by (simp add: Some)
      then have "set bs \<subseteq> projected (projectionSet m) h" unfolding projected_def by force
      moreover have "projected (projectionSet m) h \<subseteq> set bs" using Some by (auto simp: projected_def mem)
      ultimately show ?thesis by simp
    qed (use Some in \<open>auto simp: projected_def mem\<close>)
    then show ?thesis by (simp add: host_view_def Some)
  qed
qed

lemma IngressProjection_run:
  fixes ing :: Ingress
  defines "ns \<equiv> ing_namespace ing"
  shows "case snd (IngressProjection D ing overrides) of
      Inl e \<Rightarrow> IsInvalid e \<and> (\<not> list_all (valid_rule D) (ingRules ing) \<or> overrides = [] \<and> \<not> list_all (valid_host D) (concat (ingTLS ing)))
    | Inr ps \<Rightarrow> list_all (valid_rule D) (ingRules ing) \<and>
        (if overrides \<noteq> []
         then \<exists>bs. distinct bs \<and> set bs = default_backends ing \<union> all_declared D ns (ingRules ing) \<and>
                ps = map (\<lambda>h. \<lparr>Hostname = h, Backends = backendSet bs\<rparr>) overrides
         else list_all (valid_host D) (concat (ingTLS ing)) \<and>
           (\<exists>m. wf_hosts m \<and> ps = projectionSet m \<and>
             host_view m = tls_view (default_backends ing) (tls_hosts D (concat (ingTLS ing))) (rules_view D ns (ingRules ing))))"
proof -
  note rules = rule_loop_props [OF ingress_start_props(1) ingress_start_props(2), where ing = ing and D = D and
      overrides = overrides and i = 0 and rules = "ingRules ing" and ing1 = ing and overrides1 = overrides]
  show ?thesis
  proof (cases "rule_loop D ing overrides 0 (ingRules ing) (ingress_start ing overrides)")
    case (Inl oe)
    with rules show ?thesis by (cases oe) (simp add: IngressProjection_def)
  next
    case (Inr st1)
    with rules have st1: "list_all (valid_rule D) (ingRules ing)" "ingress_inv st1"
      "host_view (ruleBackends st1) = rules_view D ns (ingRules ing)"
      "set (allBackends st1) = default_backends ing \<union> all_declared D ns (ingRules ing)"
      by (simp_all add: ingress_start_props(3) ns_def)
    show ?thesis
    proof (cases "overrides = []")
      case False
      then show ?thesis using st1 Inr
        by (auto simp: IngressProjection_def Let_def ingress_inv_def intro!: exI [of _ "allBackends st1"])
    next
      case True
      note tls = tls_loop_props [OF st1(2), where D = D and ing = ing and raws = "concat (ingTLS ing)"]
      show ?thesis
      proof (cases "tls_loop D ing (concat (ingTLS ing)) st1")
        case (Inl oe)
        with tls True Inr show ?thesis by (cases oe) (simp add: IngressProjection_def)
      next
        case st2: (Inr st2)
        with tls have "list_all (valid_host D) (concat (ingTLS ing))" "ingress_inv st2"
          "host_view (ruleBackends st2) = tls_view (default_backends ing) (tls_hosts D (concat (ingTLS ing))) (rules_view D ns (ingRules ing))"
          by (simp_all add: st1(3))
        with st1(1) st2 True Inr show ?thesis
          by (auto simp: IngressProjection_def Let_def ingress_inv_def intro!: exI [of _ "ruleBackends st2"])
      qed
    qed
  qed
qed

lemma ingress_view_backends:
  "(case tls_view (default_backends ing) (tls_hosts D (concat (ingTLS ing))) (rules_view D (ing_namespace ing) (ingRules ing)) h of
      None \<Rightarrow> {} | Some B \<Rightarrow> B) = ingress_backends D ing h"
  by (auto simp: tls_view_def rules_view_def ingress_backends_def)

text \<open>C31: an Ingress is projected as it is declared.  The projection fails exactly when a rule with a
  host and paths, or without overrides a TLS entry, has an invalid hostname, and then the source is
  invalid.  Otherwise, without overrides, the hostnames are sorted and distinct, every hostname has exactly
  the backends of the rules for it (of the default backend when only TLS names it), and no entry is empty;
  with overrides, exactly the overrides are published, each with all the backends of the Ingress.\<close>

theorem IngressProjection_correct:
  "case snd (IngressProjection D ing overrides) of
     Inl e \<Rightarrow> IsInvalid e \<and> (list_ex (\<lambda>r. \<not> valid_rule D r) (ingRules ing) \<or>
         overrides = [] \<and> list_ex (\<lambda>h. \<not> valid_host D h) (concat (ingTLS ing)))
   | Inr ps \<Rightarrow> list_all (valid_rule D) (ingRules ing) \<and> list_all sorted_backends ps \<and>
       (if overrides = []
        then list_all (valid_host D) (concat (ingTLS ing)) \<and> sorted (map Hostname ps) \<and> distinct (map Hostname ps) \<and>
          projected ps = ingress_backends D ing \<and> list_all (\<lambda>p. Backends p \<noteq> []) ps
        else map Hostname ps = overrides \<and>
          list_all (\<lambda>p. set (Backends p) = default_backends ing \<union> all_declared D (ing_namespace ing) (ingRules ing)) ps)"
proof (cases "snd (IngressProjection D ing overrides)")
  case (Inl e)
  with IngressProjection_run [of D ing overrides] show ?thesis by (simp add: list_all_iff list_ex_iff)
next
  case (Inr ps)
  note run = IngressProjection_run [of D ing overrides, unfolded Inr sum.case]
  show ?thesis
  proof (cases "overrides = []")
    case False
    with run obtain bs where "distinct bs" "set bs = default_backends ing \<union> all_declared D (ing_namespace ing) (ingRules ing)"
      "ps = map (\<lambda>h. \<lparr>Hostname = h, Backends = backendSet bs\<rparr>) overrides" by auto
    with False run Inr show ?thesis by (simp add: comp_def list_all_iff sorted_backends_def)
  next
    case True
    with run obtain m where m: "wf_hosts m" "ps = projectionSet m"
      "host_view m = tls_view (default_backends ing) (tls_hosts D (concat (ingTLS ing))) (rules_view D (ing_namespace ing) (ingRules ing))" by auto
    have "projected ps = ingress_backends D ing"
      unfolding m(2) using projectionSet_props(4) [OF m(1)] by (simp add: fun_eq_iff m(3) ingress_view_backends)
    with True run Inr projectionSet_props(1-3) [OF m(1)] show ?thesis unfolding m(2) by (simp add: list_all_iff)
  qed
qed

section \<open>What a route declares\<close>

definition granted :: "reader \<Rightarrow> client_object \<Rightarrow> string \<Rightarrow> string \<Rightarrow> bool" where
  "granted R route namespace name \<longleftrightarrow>
     (\<exists>grants. list_grants R namespace = Inr grants \<and> (\<exists>g \<in> set grants. grant_allows (RouteKind route) (GetNamespace route) name g))"

text \<open>The backends of a route: the Services it refers to, in its own namespace or in one where a
  ReferenceGrant lets it.\<close>

definition route_backends :: "reader \<Rightarrow> client_object \<Rightarrow> Backend set" where
  "route_backends R route =
     {\<lparr>bNamespace = ref_namespace (GetNamespace route) ref, bName = refName ref\<rparr> | ref.
        ref \<in> set (RouteBackendRefs route) \<and> supported_ref ref \<and>
        (ref_namespace (GetNamespace route) ref = GetNamespace route \<or>
         granted R route (ref_namespace (GetNamespace route) ref) (refName ref))}"

definition unreadable_grants :: "reader \<Rightarrow> client_object \<Rightarrow> goerr \<Rightarrow> bool" where
  "unreadable_grants R route e \<longleftrightarrow>
     (\<exists>ref \<in> set (RouteBackendRefs route). \<exists>e'. supported_ref ref \<and> ref_namespace (GetNamespace route) ref \<noteq> GetNamespace route \<and>
        list_grants R (ref_namespace (GetNamespace route) ref) = Inl e' \<and>
        e = WrapErr (Sprintf ''list ReferenceGrants in %s: '' [FStr (ref_namespace (GetNamespace route) ref)]) e')"

definition declared_hostnames :: "client_object \<Rightarrow> string list" where
  "declared_hostnames route = (case route of KHTTPRoute r \<Rightarrow> SpecHostnames r | _ \<Rightarrow> [])"

definition ref_backends :: "reader \<Rightarrow> client_object \<Rightarrow> BackendObjectReference list \<Rightarrow> Backend set" where
  "ref_backends R route refs = {b. \<exists>ref \<in> set refs. routeBackend R route (RouteKind route) ref = Inr (Some b)}"

lemma routeBackend_Inr:
  "routeBackend R route (RouteKind route) ref = Inr (Some b) \<longleftrightarrow>
     supported_ref ref \<and> b = \<lparr>bNamespace = ref_namespace (GetNamespace route) ref, bName = refName ref\<rparr> \<and>
     (ref_namespace (GetNamespace route) ref = GetNamespace route \<or> granted R route (ref_namespace (GetNamespace route) ref) (refName ref))"
  by (auto simp: routeBackend_def Let_def granted_def list_ex_iff split: sum.splits)

lemma ref_backends_route: "ref_backends R route (RouteBackendRefs route) = route_backends R route"
  by (auto simp: ref_backends_def route_backends_def routeBackend_Inr)

lemma backend_loop_props:
  assumes "distinct all"
  shows "case backend_loop R route refs (st, all) of
      (_, Inl e) \<Rightarrow> \<exists>ref \<in> set refs. routeBackend R route (RouteKind route) ref = Inl e
    | (_, Inr all') \<Rightarrow> distinct all' \<and> set all' = set all \<union> ref_backends R route refs"
  using assms
proof (induction refs arbitrary: st all)
  case (Cons ref refs)
  have split: "ref_backends R route (ref # refs) =
    (case routeBackend R route (RouteKind route) ref of Inr (Some b) \<Rightarrow> {b} | _ \<Rightarrow> {}) \<union> ref_backends R route refs"
    by (auto simp: ref_backends_def split: sum.split option.split)
  show ?case
  proof (cases "routeBackend R route (RouteKind route) ref")
    case (Inl e)
    then show ?thesis by simp
  next
    case (Inr r)
    obtain st' all' where step: "backend_loop R route (ref # refs) (st, all) = backend_loop R route refs (st', all')"
      "distinct all'" "set all' = set all \<union> set_option r"
      using Inr Cons.prems by (cases r) auto
    have "(case routeBackend R route (RouteKind route) ref of Inr (Some b) \<Rightarrow> {b} | _ \<Rightarrow> {}) = set_option r"
      using Inr by (cases r) auto
    with Cons.IH [OF step(2), of st'] step(1,3) split show ?thesis by (auto split: prod.splits sum.splits)
  qed
qed (simp add: ref_backends_def)

lemma routeBackend_Inl:
  "ref \<in> set (RouteBackendRefs route) \<Longrightarrow> routeBackend R route (RouteKind route) ref = Inl e \<Longrightarrow> unreadable_grants R route e"
  by (auto simp: routeBackend_def Let_def unreadable_grants_def split: if_splits sum.splits)

lemma route_hostnames_props:
  "case route_hostnames D route overrides of
     Inl e \<Rightarrow> IsInvalid e \<and> overrides = [] \<and> \<not> list_all (valid_host D) (declared_hostnames route)
   | Inr hs \<Rightarrow> if overrides = [] then hs = sort (remdups hs) \<and> set hs = tls_hosts D (declared_hostnames route) \<and>
         list_all (valid_host D) (declared_hostnames route) else hs = overrides"
proof (cases "\<exists>r. route = KHTTPRoute r \<and> overrides = []")
  case False
  then show ?thesis by (auto simp: route_hostnames_def declared_hostnames_def tls_hosts_def split: client_object.splits)
next
  case True
  then obtain r where r: "route = KHTTPRoute r" "overrides = []" by auto
  show ?thesis
  proof (cases "traverse (NormalizeHostname D) (SpecHostnames r)")
    case (Inl e)
    from traverse_Inl [OF this] obtain raw where raw: "raw \<in> set (SpecHostnames r)" "NormalizeHostname D raw = Inl e" by auto
    have "\<not> list_all (valid_host D) (SpecHostnames r)" using raw by (auto simp: list_all_iff valid_host_def intro!: bexI [of _ raw])
    with r Inl raw NormalizeHostname_error show ?thesis by (auto simp: route_hostnames_def and_then_def declared_hostnames_def)
  next
    case (Inr hs)
    have "set hs = tls_hosts D (SpecHostnames r)" "list_all (valid_host D) (SpecHostnames r)"
      using traverse_Inr_set [OF Inr] traverse_Inr_set2 [OF Inr] by (fastforce simp: tls_hosts_def list_all_iff valid_host_def)+
    with r Inr show ?thesis
      by (simp add: route_hostnames_def and_then_def declared_hostnames_def sortedUnique_def sort_remdups_idem)
  qed
qed

text \<open>C30: a route publishes only backends it may refer to.  When \<^verbatim>\<open>RouteProjection\<close> succeeds, every
  hostname carries exactly the Services of the route's own namespace and those of other namespaces in
  which a ReferenceGrant admits this kind of route from this namespace and that Service; there is no entry
  at all when there is no such backend.  The hostnames are the overrides or, for an HTTPRoute without
  overrides, its normalised hostnames, sorted and distinct.  It fails only for an unsupported kind, an
  unreadable list of grants (a retryable error) or an invalid hostname (an invalid source).\<close>

theorem RouteProjection_correct:
  "case snd (RouteProjection D R route overrides) of
     Inl e \<Rightarrow> RouteKind route = '''' \<or> unreadable_grants R route e \<or>
       IsInvalid e \<and> overrides = [] \<and> \<not> list_all (valid_host D) (declared_hostnames route)
   | Inr ps \<Rightarrow> RouteKind route \<noteq> '''' \<and> list_all sorted_backends ps \<and> list_all (\<lambda>p. set (Backends p) = route_backends R route) ps \<and>
       (\<exists>hs. map Hostname ps = (if route_backends R route = {} then [] else hs) \<and>
         (if overrides = [] then sorted hs \<and> distinct hs \<and> set hs = tls_hosts D (declared_hostnames route) else hs = overrides))"
proof (cases "RouteKind route = ''''")
  case True
  then show ?thesis by (simp add: RouteProjection_def)
next
  case False
  obtain o1 r where loop: "backend_loop R route (RouteBackendRefs route) (diagnosticOnce, []) = (o1, r)" by fastforce
  note props = backend_loop_props [where R = R and route = route and refs = "RouteBackendRefs route" and st = diagnosticOnce and all = "[]",
      unfolded loop ref_backends_route, simplified]
  note hosts = route_hostnames_props [where D = D and route = route and overrides = overrides]
  show ?thesis
  proof (cases r)
    case (Inl e)
    then show ?thesis using False loop props by (auto simp: RouteProjection_def Let_def dest: routeBackend_Inl)
  next
    case (Inr all)
    then have all: "distinct all" "set all = route_backends R route" using props by simp_all
    show ?thesis
    proof (cases "route_hostnames D route overrides")
      case (Inl e)
      then show ?thesis using False loop Inr hosts by (simp add: RouteProjection_def Let_def)
    next
      case hs: (Inr hs)
      have "snd (RouteProjection D R route overrides) =
        Inr (if all = [] then [] else map (\<lambda>hostname. \<lparr>Hostname = hostname, Backends = backendSet all\<rparr>) hs)"
        using False loop Inr hs by (simp add: RouteProjection_def Let_def)
      moreover have "sorted hs \<and> distinct hs" if "overrides = []" using hosts hs that by (simp, metis distinct_remdups distinct_sort sorted_sort)
      moreover have "all = [] \<longleftrightarrow> route_backends R route = {}" using all(2) by auto
      ultimately show ?thesis using False all hosts hs
        by (auto simp: list_all_iff sorted_backends_def comp_def intro!: exI [of _ hs])
    qed
  qed
qed

section \<open>Provider properties\<close>

lemma fold_update_props:
  assumes "distinct (map fst m)"
  shows "distinct (map fst (foldl (\<lambda>m (name, value). AList.update name value m) m xs)) \<and>
    map_of (foldl (\<lambda>m (name, value). AList.update name value m) m xs) = map_of m ++ map_of (rev xs)"
  using assms
proof (induction xs arbitrary: m)
  case (Cons x xs)
  obtain k v where x: "x = (k, v)" by (cases x)
  have "map_of m ++ map_of (rev xs @ [(k, v)]) = (map_of m)(k \<mapsto> v) ++ map_of (rev xs)"
    by (auto simp: map_add_def fun_eq_iff split: option.split)
  with Cons.IH [of "AList.update k v m"] Cons.prems show ?case by (simp add: x distinct_update update_conv' fun_upd_def)
qed simp

lemma map_of_selected_keys:
  "map_of (rev (selected_keys annotations ks)) k = (if k \<in> set ks then fmlookup annotations k else None)"
proof (induction ks)
  case (Cons key ks)
  then show ?case
    by (cases "fmlookup annotations key") (auto simp: selected_keys_def map_filter_simps map_add_def split: option.split)
qed (simp add: selected_keys_def map_filter_simps)

text \<open>C32: the properties of a record.  Each name occurs once and the list is sorted; a property has the
  value of the source's annotation when the provider allowlists that key, otherwise the provider's
  default, and there is no other property; the metadata are exactly the ExternalDNS annotations.\<close>

theorem providerProperties_correct:
  "let (properties, metadata) = providerProperties provider annotations; spec = providerSpecific (dpSpec provider)
   in sorted properties \<and> distinct (map fst properties) \<and>
      map_of properties k =
        (case (if k \<in> set (AnnotationKeys spec) then fmlookup annotations k else None) of
           Some v \<Rightarrow> Some v | None \<Rightarrow> map_of (rev (Defaults spec)) k) \<and>
      fmlookup metadata k = (if HasPrefix k ExternalDNSPrefix then fmlookup annotations k else None)"
proof -
  let ?spec = "providerSpecific (dpSpec provider)"
  let ?ps = "foldl (\<lambda>m (name, value). AList.update name value m) [] (Defaults ?spec @ selected_keys annotations (AnnotationKeys ?spec))"
  have props: "distinct (map fst ?ps)" "map_of ?ps = map_of (rev (Defaults ?spec @ selected_keys annotations (AnnotationKeys ?spec)))"
    using fold_update_props [of "[]" "Defaults ?spec @ selected_keys annotations (AnnotationKeys ?spec)"]
    by (simp_all del: foldl_append rev_append map_of_append)
  have "map_of (sort ?ps) = map_of ?ps" using props(1) by (subst map_of_inject_set) simp_all
  with props show ?thesis
    by (auto simp: providerProperties_def Let_def map_add_def map_of_selected_keys split: option.split)
qed

section \<open>The interface to the resolver\<close>

definition wf_projection :: "name_check \<Rightarrow> HostProjection list \<Rightarrow> bool" where
  "wf_projection D ps \<longleftrightarrow> sorted (map Hostname ps) \<and> distinct (map Hostname ps) \<and> (\<forall>p \<in> set ps. wf_hostname D (Hostname p))"

text \<open>What the source controllers rely on, whichever kind of source they project.\<close>

locale projector =
  fixes D :: name_check and project :: "string list \<Rightarrow> diagnostic list \<times> HostProjection list result"
  assumes project_wf: "wf_hostnames D overrides \<Longrightarrow> project overrides = (ds, Inr ps) \<Longrightarrow> wf_projection D ps"
begin

lemma project_hostname: "wf_hostnames D overrides \<Longrightarrow> project overrides = (ds, Inr ps) \<Longrightarrow> p \<in> set ps \<Longrightarrow> wf_hostname D (Hostname p)"
  using project_wf by (auto simp: wf_projection_def)

end

lemma normalized_wf: "NormalizeHostname D raw = Inr h \<Longrightarrow> wf_hostname D h"
  using NormalizeHostname_Inr_iff by blast

lemma rule_hosts_wf: "h \<in> rule_hosts D rules \<Longrightarrow> wf_hostname D h"
proof -
  assume "h \<in> rule_hosts D rules"
  then obtain rule where "rule_host D rule = Some h" by (auto simp: rule_hosts_def)
  then show ?thesis
    by (cases "NormalizeHostname D (ruleHost rule)") (auto simp: rule_host_def dest: normalized_wf split: if_splits)
qed

lemma tls_hosts_wf: "h \<in> tls_hosts D raws \<Longrightarrow> wf_hostname D h"
  by (auto simp: tls_hosts_def dest: normalized_wf)

lemma wf_projection_overrides:
  "wf_hostnames D overrides \<Longrightarrow> wf_projection D (map (\<lambda>h. \<lparr>Hostname = h, Backends = bs\<rparr>) overrides)"
  by (simp add: wf_projection_def wf_hostnames_def comp_def)

lemma wf_IngressProjection:
  assumes "wf_hostnames D overrides" "IngressProjection D ing overrides = (ds, Inr ps)"
  shows "wf_projection D ps"
proof (cases "overrides = []")
  case False
  then show ?thesis using IngressProjection_run [of D ing overrides] assms by (auto intro: wf_projection_overrides)
next
  case True
  with IngressProjection_run [of D ing overrides] assms(2) obtain m where m: "wf_hosts m" "ps = projectionSet m"
    "host_view m = tls_view (default_backends ing) (tls_hosts D (concat (ingTLS ing))) (rules_view D (ing_namespace ing) (ingRules ing))"
    by auto
  have "Hostname p \<in> rule_hosts D (ingRules ing) \<union> tls_hosts D (concat (ingTLS ing))" if "p \<in> set ps" for p
    using projectionSet_props(3) [OF m(1), of p] that unfolding m(2) m(3) tls_view_def rules_view_def by (auto split: if_splits)
  then have "wf_hostname D (Hostname p)" if "p \<in> set ps" for p using that rule_hosts_wf tls_hosts_wf by blast
  then show ?thesis using projectionSet_props(1,2) [OF m(1)] by (simp add: wf_projection_def m(2))
qed

lemma wf_RouteProjection:
  assumes "wf_hostnames D overrides" "RouteProjection D R route overrides = (ds, Inr ps)"
  shows "wf_projection D ps"
proof -
  obtain hs all where hs: "route_hostnames D route overrides = Inr hs"
    and ps: "ps = (if all = [] then [] else map (\<lambda>h. \<lparr>Hostname = h, Backends = backendSet all\<rparr>) hs)"
  proof -
    have "RouteKind route \<noteq> ''''" using assms(2) by (auto simp: RouteProjection_def)
    moreover obtain o1 r where "backend_loop R route (RouteBackendRefs route) (diagnosticOnce, []) = (o1, r)" by fastforce
    moreover from calculation assms(2) obtain all hs where "r = Inr all" "route_hostnames D route overrides = Inr hs"
      by (cases r; cases "route_hostnames D route overrides") (simp_all add: RouteProjection_def Let_def)
    ultimately show thesis using assms(2) by (intro that [of hs all]) (simp_all add: RouteProjection_def Let_def)
  qed
  have "wf_hostnames D hs"
  proof (cases "overrides = []")
    case True
    with route_hostnames_props [where D = D and route = route and overrides = overrides] hs
    have "hs = sort (remdups hs)" "set hs = tls_hosts D (declared_hostnames route)" by simp_all
    then show ?thesis using tls_hosts_wf unfolding wf_hostnames_def by (metis distinct_remdups distinct_sort sorted_sort)
  next
    case False
    then show ?thesis using route_hostnames_props [where D = D and route = route and overrides = overrides] hs assms(1) by simp
  qed
  then show ?thesis unfolding ps using wf_projection_overrides [of D hs] by (simp add: wf_projection_def)
qed

interpretation ingress: projector D "IngressProjection D ing" for D ing
  by unfold_locales (rule wf_IngressProjection)

interpretation route: projector D "RouteProjection D R route" for D R route
  by unfold_locales (rule wf_RouteProjection)

end
