(* ===== verification/Go_Json.thy ===== *)
theory Go_Json
  imports Go_Strconv
begin

text \<open>
  The part of Go's \<^verbatim>\<open>encoding/json\<close> that the lifecycle annotation goes through: JSON values, the
  printer of \<^verbatim>\<open>json.Marshal\<close> (with its HTML-safe escapes) and the reader of \<^verbatim>\<open>json.Decoder\<close>.
  Strings are taken to be valid UTF-8, as every Kubernetes object carries them; a number is kept as
  its token and judged by the field it is decoded into, so malformed numbers are rejected one step
  later than in Go.

  The reader recurses on fuel; \<open>parse_json\<close> gives it twice the length of the text and two more (one
  unit per byte and one per list element), and \<open>parse_fuel\<close> shows that more fuel never changes the
  answer, success or failure.  \<open>parse_json_print\<close> is the round trip.
\<close>

datatype json =
    JNull
  | JBool bool
  | JNum string
  | JStr string
  | JArr "json list"
  | JObj "(string \<times> json) list"

section \<open>Strings\<close>

text \<open>Escapes; U+2028 and U+2029 are escaped although they need not be.\<close>

definition escape_byte :: "char \<Rightarrow> string" where
  "escape_byte c =
     (let n = code c; bs = CHR 0x5C in
      if n = 34 \<or> n = 92 then [bs, c]
      else if n = 8 then [bs, CHR ''b''] else if n = 12 then [bs, CHR ''f'']
      else if n = 10 then [bs, CHR ''n''] else if n = 13 then [bs, CHR ''r'']
      else if n = 9 then [bs, CHR ''t'']
      else if n < 32 \<or> n = 60 \<or> n = 62 \<or> n = 38
      then [bs, CHR ''u'', CHR ''0'', CHR ''0'', hex_digit (n div 16), hex_digit (n mod 16)]
      else [c])"

fun json_escape :: "string \<Rightarrow> string" where
  "json_escape [] = []"
| "json_escape (c # s) =
     (if c = CHR 0xE2 \<and> prefix [CHR 0x80, CHR 0xA8] s then CHR 0x5C # ''u2028'' @ json_escape (drop 2 s)
      else if c = CHR 0xE2 \<and> prefix [CHR 0x80, CHR 0xA9] s then CHR 0x5C # ''u2029'' @ json_escape (drop 2 s)
      else escape_byte c @ json_escape s)"

definition json_quote :: "string \<Rightarrow> string" where
  "json_quote s = CHR 0x22 # json_escape s @ [CHR 0x22]"

definition hex_val :: "char \<Rightarrow> nat option" where
  "hex_val c =
     (let n = code c in
      if 48 \<le> n \<and> n \<le> 57 then Some (n - 48)
      else if 97 \<le> n \<and> n \<le> 102 then Some (n - 87)
      else if 65 \<le> n \<and> n \<le> 70 then Some (n - 55) else None)"

fun getu4 :: "string \<Rightarrow> nat option" where
  "getu4 (a # b # c # d # s) =
     (case (hex_val a, hex_val b, hex_val c, hex_val d) of
        (Some w, Some x, Some y, Some z) \<Rightarrow> Some (w * 4096 + x * 256 + y * 16 + z)
      | _ \<Rightarrow> None)"
| "getu4 _ = None"

definition utf8_encode :: "nat \<Rightarrow> string" where
  "utf8_encode n =
     (if n < 0x80 then [byte n]
      else if n < 0x800 then [byte (0xC0 + n div 64), byte (0x80 + n mod 64)]
      else if n > 0x10FFFF \<or> 0xD800 \<le> n \<and> n < 0xE000 then [CHR 0xEF, CHR 0xBF, CHR 0xBD]
      else if n < 0x10000
      then [byte (0xE0 + n div 4096), byte (0x80 + n div 64 mod 64), byte (0x80 + n mod 64)]
      else [byte (0xF0 + n div 262144), byte (0x80 + n div 4096 mod 64), byte (0x80 + n div 64 mod 64),
            byte (0x80 + n mod 64)])"

text \<open>A \<^verbatim>\<open>\uXXXX\<close> escape (the text after the \<^verbatim>\<open>u\<close>): its UTF-8 text and how many bytes it uses; a
  surrogate pair uses the following escape too, a lone surrogate becomes U+FFFD.\<close>

definition unescape_u :: "string \<Rightarrow> (string \<times> nat) option" where
  "unescape_u s =
     (case getu4 s of
        None \<Rightarrow> None
      | Some n \<Rightarrow>
          (if 0xD800 \<le> n \<and> n < 0xE000
           then (case (if prefix [CHR 0x5C, CHR ''u''] (drop 4 s) then getu4 (drop 6 s) else None) of
                   Some m \<Rightarrow>
                     (if n < 0xDC00 \<and> 0xDC00 \<le> m \<and> m < 0xE000
                      then Some (utf8_encode ((n - 0xD800) * 1024 + (m - 0xDC00) + 0x10000), 10)
                      else Some (utf8_encode 0xFFFD, 4))
                 | None \<Rightarrow> Some (utf8_encode 0xFFFD, 4))
           else Some (utf8_encode n, 4)))"

definition simple_escape :: "char \<Rightarrow> char option" where
  "simple_escape e =
     map_of [(CHR 0x22, CHR 0x22), (CHR 0x5C, CHR 0x5C), (CHR ''/'', CHR ''/''), (CHR ''b'', CHR 0x08),
             (CHR ''f'', CHR 0x0C), (CHR ''n'', CHR 0x0A), (CHR ''r'', CHR 0x0D), (CHR ''t'', CHR 0x09)] e"

text \<open>Reads a string up to its closing quote; the result is the value and the text after it.\<close>

fun parse_string :: "string \<Rightarrow> (string \<times> string) option" where
  "parse_string [] = None"
| "parse_string (c # s) =
     (if c = CHR 0x22 then Some ([], s)
      else if c = CHR 0x5C
      then (case s of
              [] \<Rightarrow> None
            | e # s' \<Rightarrow>
                (if e = CHR ''u''
                 then (case unescape_u s' of
                         None \<Rightarrow> None
                       | Some (t, k) \<Rightarrow> map_option (apfst (\<lambda>u. t @ u)) (parse_string (drop k s')))
                 else (case simple_escape e of
                         None \<Rightarrow> None
                       | Some d \<Rightarrow> map_option (apfst (\<lambda>u. d # u)) (parse_string s'))))
      else if code c < 32 then None
      else map_option (apfst (\<lambda>u. c # u)) (parse_string s))"

declare parse_string.simps(2) [simp del]

lemma hex_digit_val: "n < 16 \<Longrightarrow> hex_val (hex_digit n) = Some n"
  by (auto simp: hex_val_def hex_digit_def Let_def)

lemma byte_code [simp]: "byte (code c) = c"
  by (simp add: byte_def)

lemma parse_string_plain:
  "c \<noteq> CHR 0x22 \<Longrightarrow> c \<noteq> CHR 0x5C \<Longrightarrow> 32 \<le> code c \<Longrightarrow>
     parse_string (c # s) = map_option (apfst (\<lambda>u. c # u)) (parse_string s)"
  by (simp add: parse_string.simps)

lemma parse_string_simple:
  "simple_escape e = Some d \<Longrightarrow>
     parse_string (CHR 0x5C # e # s) = map_option (apfst (\<lambda>u. d # u)) (parse_string s)"
  by (auto simp: parse_string.simps(2) simple_escape_def split: if_splits)

lemma parse_string_unicode:
  "getu4 (h @ s) = Some n \<Longrightarrow> length h = 4 \<Longrightarrow> n < 0xD800 \<Longrightarrow>
     parse_string (CHR 0x5C # CHR ''u'' # h @ s) = map_option (apfst (\<lambda>u. utf8_encode n @ u)) (parse_string s)"
  by (simp add: parse_string.simps(2) unescape_u_def)

lemma code_eq_iff: "code c = code d \<longleftrightarrow> c = d"
  by simp

lemma parse_escape_byte: "parse_string (escape_byte c @ s) = map_option (apfst (\<lambda>u. c # u)) (parse_string s)"
proof -
  let ?n = "code c"
  have byte_eq: "code d = ?n \<Longrightarrow> d = c" for d by simp
  consider (quote) "?n = 34" | (slash) "?n = 92" | (b) "?n = 8" | (f) "?n = 12" | (n) "?n = 10" | (r) "?n = 13" |
    (t) "?n = 9" | (u) "?n \<notin> {34, 92, 8, 12, 10, 13, 9}" "?n < 32 \<or> ?n = 60 \<or> ?n = 62 \<or> ?n = 38" |
    (plain) "?n \<notin> {34, 92, 8, 12, 10, 13, 9}" "\<not> (?n < 32 \<or> ?n = 60 \<or> ?n = 62 \<or> ?n = 38)"
    by blast
  then show ?thesis
  proof cases
    case quote
    with byte_eq [of "CHR 0x22"] have "c = CHR 0x22" by simp
    then show ?thesis by (simp add: escape_byte_def Let_def parse_string_simple simple_escape_def)
  next
    case slash
    with byte_eq [of "CHR 0x5C"] have "c = CHR 0x5C" by simp
    then show ?thesis by (simp add: escape_byte_def Let_def parse_string_simple simple_escape_def)
  next
    case b
    with byte_eq [of "CHR 0x08"] have "c = CHR 0x08" by simp
    then show ?thesis by (simp add: escape_byte_def Let_def parse_string_simple simple_escape_def)
  next
    case f
    with byte_eq [of "CHR 0x0C"] have "c = CHR 0x0C" by simp
    then show ?thesis by (simp add: escape_byte_def Let_def parse_string_simple simple_escape_def)
  next
    case n
    with byte_eq [of "CHR 0x0A"] have "c = CHR 0x0A" by simp
    then show ?thesis by (simp add: escape_byte_def Let_def parse_string_simple simple_escape_def)
  next
    case r
    with byte_eq [of "CHR 0x0D"] have "c = CHR 0x0D" by simp
    then show ?thesis by (simp add: escape_byte_def Let_def parse_string_simple simple_escape_def)
  next
    case t
    with byte_eq [of "CHR 0x09"] have "c = CHR 0x09" by simp
    then show ?thesis by (simp add: escape_byte_def Let_def parse_string_simple simple_escape_def)
  next
    case u
    then have n: "?n < 128" by auto
    let ?h = "[CHR ''0'', CHR ''0'', hex_digit (?n div 16), hex_digit (?n mod 16)]"
    have "getu4 (?h @ s) = Some ?n"
      using n by (simp add: hex_digit_val hex_val_def [of "CHR ''0''"])
    then have "parse_string (CHR 0x5C # CHR ''u'' # ?h @ s) =
        map_option (apfst (\<lambda>u. utf8_encode ?n @ u)) (parse_string s)"
      using n by (intro parse_string_unicode) simp_all
    moreover have "escape_byte c = CHR 0x5C # CHR ''u'' # ?h" using u by (auto simp: escape_byte_def Let_def)
    ultimately show ?thesis using n by (simp add: utf8_encode_def)
  next
    case plain
    then have "escape_byte c = [c]" by (auto simp: escape_byte_def Let_def)
    moreover have "c \<noteq> CHR 0x22" "c \<noteq> CHR 0x5C" using plain by auto
    ultimately show ?thesis using plain by (simp add: parse_string_plain)
  qed
qed

lemma parse_json_escape: "parse_string (json_escape s @ CHR 0x22 # rest) = Some (s, rest)"
proof (induction s rule: json_escape.induct)
  case (2 c s)
  have lsp: "getu4 (''2028'' @ t) = Some 0x2028" "getu4 (''2029'' @ t) = Some 0x2029" for t
    by (simp_all add: hex_val_def)
  have enc: "utf8_encode 0x2028 = [CHR 0xE2, CHR 0x80, CHR 0xA8]" "utf8_encode 0x2029 = [CHR 0xE2, CHR 0x80, CHR 0xA9]"
    using byte_code [of "CHR 0xE2"] byte_code [of "CHR 0x80"] byte_code [of "CHR 0xA8"] byte_code [of "CHR 0xA9"]
    by (simp_all add: utf8_encode_def)
  consider (ls) "c = CHR 0xE2" "prefix [CHR 0x80, CHR 0xA8] s" | (ps) "c = CHR 0xE2" "prefix [CHR 0x80, CHR 0xA9] s" "\<not> prefix [CHR 0x80, CHR 0xA8] s" |
    (plain) "\<not> (c = CHR 0xE2 \<and> prefix [CHR 0x80, CHR 0xA8] s)" "\<not> (c = CHR 0xE2 \<and> prefix [CHR 0x80, CHR 0xA9] s)"
    by blast
  then show ?case
  proof cases
    case ls
    then obtain t where t: "s = [CHR 0x80, CHR 0xA8] @ t" by (auto simp: prefix_def)
    have "parse_string (json_escape t @ CHR 0x22 # rest) = Some (t, rest)" using 2(1) ls t by simp
    then show ?thesis using \<open>c = _\<close> t enc parse_string_unicode [OF lsp(1)] by simp
  next
    case ps
    then obtain t where t: "s = [CHR 0x80, CHR 0xA9] @ t" by (auto simp: prefix_def)
    have "parse_string (json_escape t @ CHR 0x22 # rest) = Some (t, rest)" using 2(2) ps t by simp
    then show ?thesis using ps(1) t enc parse_string_unicode [OF lsp(2)] by simp
  next
    case plain
    then show ?thesis using 2(3) by (auto simp: parse_escape_byte)
  qed
qed (simp add: parse_string.simps)

section \<open>Values\<close>

definition json_space :: "char \<Rightarrow> bool" where
  "json_space c = (code c \<in> {32, 9, 10, 13})"

abbreviation skip_ws :: "string \<Rightarrow> string" where
  "skip_ws \<equiv> dropWhile json_space"

definition num_char :: "char \<Rightarrow> bool" where
  "num_char c = (is_digit c \<or> c \<in> {CHR ''-'', CHR ''+'', CHR ''.'', CHR ''e'', CHR ''E''})"

definition parse_atom :: "string \<Rightarrow> (json \<times> string) option" where
  "parse_atom s =
     (if prefix ''null'' s then Some (JNull, drop 4 s)
      else if prefix ''true'' s then Some (JBool True, drop 4 s)
      else if prefix ''false'' s then Some (JBool False, drop 5 s)
      else if s \<noteq> [] \<and> num_char (hd s) \<and> hd s \<noteq> CHR ''e'' then Some (JNum (takeWhile num_char s), dropWhile num_char s)
      else None)"

fun parse_value :: "nat \<Rightarrow> string \<Rightarrow> (json \<times> string) option"
and parse_elems :: "nat \<Rightarrow> string \<Rightarrow> (json list \<times> string) option"
and parse_members :: "nat \<Rightarrow> string \<Rightarrow> ((string \<times> json) list \<times> string) option" where
  "parse_value 0 s = None"
| "parse_value (Suc f) s =
     (case skip_ws s of
        [] \<Rightarrow> None
      | c # r \<Rightarrow>
          (if c = CHR 0x22 then map_option (apfst JStr) (parse_string r)
           else if c = CHR ''[''
           then (if prefix '']'' (skip_ws r) then Some (JArr [], tl (skip_ws r))
                 else map_option (apfst JArr) (parse_elems f r))
           else if c = CHR ''{''
           then (if prefix ''}'' (skip_ws r) then Some (JObj [], tl (skip_ws r))
                 else map_option (apfst JObj) (parse_members f r))
           else parse_atom (c # r)))"
| "parse_elems 0 s = None"
| "parse_elems (Suc f) s =
     (case parse_value f s of
        None \<Rightarrow> None
      | Some (v, r) \<Rightarrow>
          (if prefix '','' (skip_ws r) then map_option (apfst (Cons v)) (parse_elems f (tl (skip_ws r)))
           else if prefix '']'' (skip_ws r) then Some ([v], tl (skip_ws r)) else None))"
| "parse_members 0 s = None"
| "parse_members (Suc f) s =
     (if prefix [CHR 0x22] (skip_ws s)
      then (case parse_string (tl (skip_ws s)) of
              None \<Rightarrow> None
            | Some (k, r) \<Rightarrow>
                (if prefix '':'' (skip_ws r)
                 then (case parse_value f (tl (skip_ws r)) of
                         None \<Rightarrow> None
                       | Some (v, r') \<Rightarrow>
                           (if prefix '','' (skip_ws r')
                            then map_option (apfst (Cons (k, v))) (parse_members f (tl (skip_ws r')))
                            else if prefix ''}'' (skip_ws r') then Some ([(k, v)], tl (skip_ws r')) else None))
                 else None))
      else None)"

definition json_fuel :: "string \<Rightarrow> nat" where
  "json_fuel s = 2 * length s + 2"

text \<open>The first value of the text and what follows it, as one \<^verbatim>\<open>Decoder.Decode\<close> call reads it.\<close>

definition parse_json :: "string \<Rightarrow> (json \<times> string) option" where
  "parse_json s = parse_value (json_fuel s) s"

fun print_json :: "json \<Rightarrow> string" where
  "print_json JNull = ''null''"
| "print_json (JBool b) = (if b then ''true'' else ''false'')"
| "print_json (JNum t) = t"
| "print_json (JStr s) = json_quote s"
| "print_json (JArr vs) = ''['' @ Join (map print_json vs) '','' @ '']''"
| "print_json (JObj ms) = ''{'' @ Join (map (\<lambda>(k, v). json_quote k @ '':'' @ print_json v) ms) '','' @ ''}''"

lemma skip_ws_le: "length (skip_ws s) \<le> length s"
  by (rule length_dropWhile_le)

lemma parse_string_shrinks: "parse_string s = Some (v, r) \<Longrightarrow> length r < length s"
proof (induction s arbitrary: v rule: length_induct)
  case (1 s)
  have ih: "length t < length s \<Longrightarrow> parse_string t = Some (u, r) \<Longrightarrow> length r < length t" for t u
    using 1(1) by blast
  show ?case
  proof (cases s)
    case (Cons c t)
    show ?thesis
    proof (cases "c = CHR 0x5C")
      case True
      with 1(2) Cons obtain e t' k u where "t = e # t'" "parse_string (drop k t') = Some (u, r)"
        by (auto simp: parse_string.simps(2) split: list.splits if_splits option.splits) (metis drop0)
      with ih [of "drop k t'" u] Cons show ?thesis by (simp add: less_SucI)
    next
      case False
      with 1(2) Cons ih [of t] show ?thesis by (auto simp: parse_string.simps(2) split: if_splits)
    qed
  qed (use 1(2) in simp)
qed

lemma parse_atom_shrinks: "parse_atom s = Some (v, r) \<Longrightarrow> length r < length s"
proof -
  have "length (dropWhile num_char (c # t)) < length (c # t)" if "num_char c" for c t
    using that length_dropWhile_le [of num_char t] by simp
  then show "parse_atom s = Some (v, r) \<Longrightarrow> length r < length s"
    by (cases s) (auto simp: parse_atom_def dest: prefix_length_le split: if_splits)
qed

lemma tl_skip_ws: "prefix [c] (skip_ws r) \<Longrightarrow> length (tl (skip_ws r)) < length r"
  using skip_ws_le [of r] by (cases "skip_ws r") auto

lemma parse_shrinks:
  "parse_value f s = Some (v, r) \<Longrightarrow> length r < length s"
  "parse_elems f s = Some (vs, r) \<Longrightarrow> length r < length s"
  "parse_members f s = Some (ms, r) \<Longrightarrow> length r < length s"
proof (induction f arbitrary: s v vs ms r)
  case (Suc f)
  {
    case 1
    then obtain c t where t: "skip_ws s = c # t" by (auto split: list.splits)
    then have "length t < length s" using skip_ws_le [of s] by simp
    moreover have "length r < length (c # t)"
      using 1 t tl_skip_ws [of _ t] Suc.IH(2,3) [of t]
      by (auto dest!: parse_string_shrinks parse_atom_shrinks split: if_splits) (metis less_SucI)+
    ultimately show ?case by simp
  next
    case 2
    then obtain v t where vt: "parse_value f s = Some (v, t)" by (auto split: option.splits)
    with Suc.IH(1) [OF vt] 2 tl_skip_ws [of _ t] show ?case
      by (auto split: if_splits dest!: Suc.IH(2)) (meson order.strict_trans)+
  next
    case 3
    have q: "prefix [CHR 0x22] (skip_ws s)" using 3 by (auto split: if_splits)
    obtain k t where k: "parse_string (tl (skip_ws s)) = Some (k, t)" using 3 q by (auto split: option.splits)
    have c: "prefix '':'' (skip_ws t)" using 3 q k by (auto split: if_splits)
    obtain v t' where v: "parse_value f (tl (skip_ws t)) = Some (v, t')" using 3 q k c by (auto split: option.splits)
    have "length t' < length s"
      using tl_skip_ws [OF q] parse_string_shrinks [OF k] tl_skip_ws [OF c] Suc.IH(1) [OF v] by linarith
    then show ?case
      using 3 q k c v tl_skip_ws [of _ t'] by (auto split: if_splits dest!: Suc.IH(3)) (meson order.strict_trans)+
  }
qed simp_all

lemma parse_fuel_step:
  "2 * length s + 1 \<le> f \<Longrightarrow> parse_value (Suc f) s = parse_value f s"
  "2 * length s + 2 \<le> f \<Longrightarrow> parse_elems (Suc f) s = parse_elems f s"
  "2 * length s + 2 \<le> f \<Longrightarrow> parse_members (Suc f) s = parse_members f s"
proof (induction f arbitrary: s)
  case (Suc f)
  {
    case 1
    show ?case
    proof (cases "skip_ws s")
      case (Cons c t)
      with skip_ws_le [of s] 1 have "2 * length t + 2 \<le> f" by simp
      with Cons show ?thesis by (simp only: parse_value.simps Suc.IH(2,3) list.case)
    next
      case Nil
      then show ?thesis by (simp only: parse_value.simps list.case)
    qed
  next
    case 2
    then have v: "parse_value (Suc f) s = parse_value f s" by (intro Suc.IH(1)) simp
    have "parse_elems (Suc f) (tl (skip_ws r)) = parse_elems f (tl (skip_ws r))"
      if "parse_value f s = Some (v, r)" "prefix '','' (skip_ws r)" for v r
      using 2 parse_shrinks(1) [OF that(1)] tl_skip_ws [OF that(2)] by (intro Suc.IH(2)) linarith
    then show ?case unfolding parse_elems.simps(2) [of "Suc f"] parse_elems.simps(2) [of f] v
      by (auto split: option.splits)
  next
    case 3
    have v: "parse_value (Suc f) (tl (skip_ws r)) = parse_value f (tl (skip_ws r))"
      if "parse_string (tl (skip_ws s)) = Some (k, r)" "prefix '':'' (skip_ws r)" "prefix [CHR 0x22] (skip_ws s)" for k r
      using 3 parse_string_shrinks [OF that(1)] tl_skip_ws [OF that(2)] tl_skip_ws [OF that(3)]
      by (intro Suc.IH(1)) linarith
    have m: "parse_members (Suc f) (tl (skip_ws r')) = parse_members f (tl (skip_ws r'))"
      if "parse_string (tl (skip_ws s)) = Some (k, r)" "prefix '':'' (skip_ws r)" "prefix [CHR 0x22] (skip_ws s)"
        "parse_value f (tl (skip_ws r)) = Some (v, r')" "prefix '','' (skip_ws r')" for k r v r'
      using 3 parse_string_shrinks [OF that(1)] tl_skip_ws [OF that(2)] tl_skip_ws [OF that(3)]
        parse_shrinks(1) [OF that(4)] tl_skip_ws [OF that(5)]
      by (intro Suc.IH(3)) linarith
    show ?case unfolding parse_members.simps(2) [of "Suc f" s] parse_members.simps(2) [of f s]
      using v m by (auto split: option.splits simp del: parse_value.simps parse_members.simps)
  }
qed simp_all

lemma parse_fuel: "json_fuel s \<le> f \<Longrightarrow> parse_value f s = parse_json s"
proof (induction f rule: dec_induct)
  case (step n)
  then show ?case using parse_fuel_step(1) [of s n] by (simp add: json_fuel_def)
qed (simp add: parse_json_def)

section \<open>Round trip\<close>

fun wf_json :: "json \<Rightarrow> bool" where
  "wf_json (JNum t) = (t \<noteq> [] \<and> list_all num_char t \<and> hd t \<noteq> CHR ''e'')"
| "wf_json (JArr vs) = list_all wf_json vs"
| "wf_json (JObj ms) = list_all (wf_json \<circ> snd) ms"
| "wf_json _ = True"

abbreviation num_end :: "string \<Rightarrow> bool" where
  "num_end r \<equiv> r = [] \<or> \<not> num_char (hd r)"

text \<open>The bytes that steer the reader, and how the predicates classify them.\<close>

lemma json_space_simps [simp]:
  "\<not> json_space (CHR 0x22)" "\<not> json_space (CHR ''['')" "\<not> json_space (CHR ''{'')" "\<not> json_space (CHR '']'')"
  "\<not> json_space (CHR ''}'')" "\<not> json_space (CHR '','')" "\<not> json_space (CHR '':'')" "\<not> json_space (CHR ''n'')"
  "\<not> json_space (CHR ''t'')" "\<not> json_space (CHR ''f'')"
  by (simp_all add: json_space_def)

lemma num_char_simps [simp]:
  "\<not> num_char (CHR '','')" "\<not> num_char (CHR '']'')" "\<not> num_char (CHR ''}'')" "\<not> num_char (CHR 0x22)"
  "\<not> num_char (CHR ''['')" "\<not> num_char (CHR ''{'')" "\<not> num_char (CHR ''n'')" "\<not> num_char (CHR ''t'')"
  "\<not> num_char (CHR ''f'')"
  by (simp_all add: num_char_def is_digit_def)

lemma num_char_not_space: "num_char c \<Longrightarrow> \<not> json_space c"
  by (auto simp: num_char_def is_digit_def json_space_def)

lemma parse_atom_num:
  assumes "t \<noteq> []" "list_all num_char t" "hd t \<noteq> CHR ''e''" "num_end r"
  shows "parse_atom (t @ r) = Some (JNum t, r)"
proof -
  from assms obtain c u where t: "t = c # u" "num_char c" by (cases t) auto
  then have "\<not> prefix ''null'' (t @ r)" "\<not> prefix ''true'' (t @ r)" "\<not> prefix ''false'' (t @ r)" by auto
  moreover have "takeWhile num_char (t @ r) = t" "dropWhile num_char (t @ r) = r"
    using assms by (auto simp: takeWhile_append list_all_iff takeWhile_eq_Nil_iff dropWhile_append dropWhile_eq_self_iff)
  ultimately show ?thesis using assms t unfolding parse_atom_def by simp
qed

definition first_ok :: "string \<Rightarrow> bool" where
  "first_ok s = (s \<noteq> [] \<and> \<not> json_space (hd s) \<and> hd s \<noteq> CHR '']'' \<and> hd s \<noteq> CHR ''}'')"

lemma print_first: "wf_json v \<Longrightarrow> first_ok (print_json v)"
proof (cases v)
  case (JNum t)
  assume "wf_json v"
  with JNum obtain c u where "t = c # u" "num_char c" by (cases t) auto
  with JNum show ?thesis by (auto simp: first_ok_def num_char_not_space)
qed (auto simp: first_ok_def json_quote_def)

lemma Join_first: "first_ok w \<Longrightarrow> first_ok (Join (w # ws) sep @ r)"
  by (cases ws) (auto simp: first_ok_def)

lemma first_ok_skip: "first_ok s \<Longrightarrow> skip_ws s = s"
  by (cases s) (auto simp: first_ok_def)

lemma parse_elems_print:
  assumes "vs \<noteq> []"
    and "\<And>v f r. v \<in> set vs \<Longrightarrow> length (print_json v) < f \<Longrightarrow> num_end r \<Longrightarrow>
           parse_value f (print_json v @ r) = Some (v, r)"
    and "length (Join (map print_json vs) '','') + 1 < f"
  shows "parse_elems f (Join (map print_json vs) '','' @ CHR '']'' # r) = Some (vs, r)"
  using assms
proof (induction vs arbitrary: f)
  case (Cons v vs)
  then obtain g where f: "f = Suc g" by (cases f) auto
  show ?case
  proof (cases vs)
    case Nil
    with Cons.prems f show ?thesis by simp
  next
    case (Cons u us)
    let ?rest = "Join (map print_json vs) '','' @ CHR '']'' # r"
    have "parse_elems g ?rest = Some (vs, r)"
      using Cons Cons.prems f by (intro Cons.IH) auto
    moreover have "parse_value g (print_json v @ CHR '','' # ?rest) = Some (v, CHR '','' # ?rest)"
      using Cons Cons.prems f by (intro Cons.prems(2)) auto
    ultimately show ?thesis using Cons f by simp
  qed
qed simp

abbreviation print_member :: "string \<times> json \<Rightarrow> string" where
  "print_member \<equiv> \<lambda>(k, v). json_quote k @ '':'' @ print_json v"

lemma parse_members_print:
  assumes "ms \<noteq> []"
    and "\<And>k v f r. (k, v) \<in> set ms \<Longrightarrow> length (print_json v) < f \<Longrightarrow> num_end r \<Longrightarrow>
           parse_value f (print_json v @ r) = Some (v, r)"
    and "length (Join (map print_member ms) '','') + 1 < f"
  shows "parse_members f (Join (map print_member ms) '','' @ CHR ''}'' # r) = Some (ms, r)"
  using assms
proof (induction ms arbitrary: f)
  case (Cons m ms)
  obtain k v where m: "m = (k, v)" by (cases m)
  from Cons obtain g where f: "f = Suc g" by (cases f) auto
  show ?case
  proof (cases ms)
    case Nil
    with Cons.prems f m show ?thesis by (simp add: json_quote_def parse_json_escape)
  next
    case (Cons u us)
    let ?rest = "Join (map print_member ms) '','' @ CHR ''}'' # r"
    have "parse_members g ?rest = Some (ms, r)"
      using Cons Cons.prems f m by (intro Cons.IH) auto
    moreover have "parse_value g (print_json v @ CHR '','' # ?rest) = Some (v, CHR '','' # ?rest)"
      using Cons Cons.prems f m by (intro Cons.prems(2)) auto
    ultimately show ?thesis using Cons f m by (simp add: json_quote_def parse_json_escape)
  qed
qed simp

lemma parse_value_print:
  "wf_json v \<Longrightarrow> length (print_json v) < f \<Longrightarrow> num_end r \<Longrightarrow> parse_value f (print_json v @ r) = Some (v, r)"
proof (induction v arbitrary: f r)
  case (JNum t)
  then obtain g where "f = Suc g" by (cases f) auto
  moreover obtain c u where "t = c # u" "num_char c" using JNum by (cases t) auto
  moreover from this have "\<not> json_space c" "c \<noteq> CHR 0x22" "c \<noteq> CHR ''[''" "c \<noteq> CHR ''{''"
    by (auto simp: num_char_not_space)
  ultimately show ?case
    using JNum parse_atom_num [of t r] by simp
next
  case (JArr vs)
  then obtain g where f: "f = Suc g" by (cases f) auto
  show ?case
  proof (cases vs)
    case (Cons v us)
    have "parse_elems g (Join (map print_json vs) '','' @ CHR '']'' # r) = Some (vs, r)"
      using JArr Cons f by (intro parse_elems_print) (auto simp: list_all_iff)
    moreover have "first_ok (Join (map print_json vs) '','' @ CHR '']'' # r)"
      using JArr Cons by (auto intro!: Join_first print_first)
    ultimately show ?thesis using f by (auto simp: first_ok_skip) (auto simp: first_ok_def prefix_def)
  qed (use f in simp)
next
  case (JObj ms)
  then obtain g where f: "f = Suc g" by (cases f) auto
  show ?case
  proof (cases ms)
    case (Cons m us)
    have "parse_members g (Join (map print_member ms) '','' @ CHR ''}'' # r) = Some (ms, r)"
      using JObj Cons f by (intro parse_members_print) (force simp: list_all_iff)+
    moreover have "first_ok (Join (map print_member ms) '','' @ CHR ''}'' # r)"
      using Cons by (auto intro!: Join_first simp: json_quote_def split: prod.splits) (auto simp: first_ok_def)
    ultimately show ?thesis using f by (auto simp: first_ok_skip) (auto simp: first_ok_def prefix_def)
  qed (use f in simp)
next
  case (JStr s)
  then obtain g where "f = Suc g" by (cases f) auto
  then show ?case by (simp add: json_quote_def parse_json_escape)
next
  case JNull
  then obtain g where "f = Suc g" by (cases f) auto
  then show ?case by (simp add: parse_atom_def)
next
  case (JBool b)
  then obtain g where "f = Suc g" by (cases f) auto
  then show ?case by (simp add: parse_atom_def)
qed

theorem parse_json_print: "wf_json v \<Longrightarrow> num_end r \<Longrightarrow> parse_json (print_json v @ r) = Some (v, r)"
  unfolding parse_json_def json_fuel_def by (rule parse_value_print) auto

end
