(* ===== verification/Go_Netip.thy ===== *)
theory Go_Netip
  imports Go_Json
begin

text \<open>
  The part of Go's \<^verbatim>\<open>net/netip\<close> that \<^verbatim>\<open>parseNodeAddress\<close> of \<^verbatim>\<open>internal/source/resolver.go\<close> and
  \<^verbatim>\<open>internal/cli/dns.go\<close> use: \<open>ParseAddr\<close>, \<open>Addr_String\<close> and the family tests.  An IPv4 address is its
  four octets, an IPv6 address its eight 16-bit groups and its zone.  \<open>ParseAddr_String6\<close> and
  \<open>ParseAddr4_exact\<close> say that the printed form is read back, and that an accepted IPv4 text is already
  the printed form.
\<close>

datatype Addr = Addr4 "nat list" | Addr6 "nat list" string

section \<open>Reading\<close>

fun v4_loop :: "nat \<Rightarrow> nat \<Rightarrow> nat list \<Rightarrow> string \<Rightarrow> nat list option" where
  "v4_loop val digLen fields [] = (if length fields < 3 then None else Some (fields @ [val]))"
| "v4_loop val digLen fields (c # s) =
     (if is_digit c
      then if digLen = 1 \<and> val = 0 then None
           else let val' = val * 10 + digit_val c in if val' > 255 then None else v4_loop val' (digLen + 1) fields s
      else if c = CHR ''.''
      then if digLen = 0 \<or> s = [] then None
           else if length fields = 3 then None
           else v4_loop 0 0 (fields @ [val]) s
      else None)"

definition parseIPv4Fields :: "string \<Rightarrow> nat list option" where
  "parseIPv4Fields s = v4_loop 0 0 [] s"

fun hex_run :: "nat \<Rightarrow> nat \<Rightarrow> string \<Rightarrow> (nat \<times> nat \<times> string) option" where
  "hex_run acc off [] = Some (acc, off, [])"
| "hex_run acc off (c # s) =
     (case hex_val c of
        None \<Rightarrow> Some (acc, off, c # s)
      | Some d \<Rightarrow> if off > 3 \<or> acc * 16 + d > 65535 then None else hex_run (acc * 16 + d) (off + 1) s)"

text \<open>The loop over the groups: the groups read, the position of the \<^verbatim>\<open>::\<close> and the rest of the text.\<close>

function v6_loop :: "nat list \<Rightarrow> nat option \<Rightarrow> string \<Rightarrow> (nat list \<times> nat option \<times> string) option" where
  "v6_loop gs el s =
     (if length gs \<ge> 8 then Some (gs, el, s)
      else case hex_run 0 0 s of
        None \<Rightarrow> None
      | Some (acc, off, rest) \<Rightarrow>
          (if off = 0 then None
           else if rest \<noteq> [] \<and> hd rest = CHR ''.''
           then if el = None \<and> length gs \<noteq> 6 \<or> length gs + 2 > 8 then None
                else (case parseIPv4Fields s of
                        None \<Rightarrow> None
                      | Some f \<Rightarrow> Some (gs @ [f ! 0 * 256 + f ! 1, f ! 2 * 256 + f ! 3], el, []))
           else let gs' = gs @ [acc]
             in if rest = [] then Some (gs', el, [])
                else if hd rest \<noteq> CHR '':'' \<or> tl rest = [] then None
                else if hd (tl rest) = CHR '':''
                then if el \<noteq> None then None
                     else if tl (tl rest) = [] then Some (gs', Some (length gs'), [])
                     else v6_loop gs' (Some (length gs')) (tl (tl rest))
                else v6_loop gs' el (tl rest)))"
  by pat_completeness auto
termination by (relation "measure (\<lambda>(gs, el, s). 8 - length gs)") auto

declare v6_loop.simps [simp del]

definition v6_finish :: "nat list \<times> nat option \<times> string \<Rightarrow> nat list option" where
  "v6_finish r = (case r of (gs, el, s) \<Rightarrow>
     if s \<noteq> [] then None
     else if length gs < 8
     then (case el of None \<Rightarrow> None | Some e \<Rightarrow> Some (take e gs @ replicate (8 - length gs) 0 @ drop e gs))
     else if el \<noteq> None then None else Some gs)"

definition v6_groups :: "string \<Rightarrow> nat list option" where
  "v6_groups s =
     (if HasPrefix s ''::''
      then if drop 2 s = [] then Some (replicate 8 0)
           else Option.bind (v6_loop [] (Some 0) (drop 2 s)) v6_finish
      else Option.bind (v6_loop [] None s) v6_finish)"

definition parseIPv6 :: "string \<Rightarrow> Addr option" where
  "parseIPv6 s =
     (let body = takeWhile (\<lambda>c. c \<noteq> CHR ''%'') s; zone = drop (length body + 1) s
      in if body \<noteq> s \<and> zone = [] then None
         else map_option (\<lambda>gs. Addr6 gs zone) (v6_groups body))"

definition ParseAddr :: "string \<Rightarrow> Addr option" where
  "ParseAddr s =
     (case find (\<lambda>c. c = CHR ''.'' \<or> c = CHR '':'' \<or> c = CHR ''%'') s of
        None \<Rightarrow> None
      | Some c \<Rightarrow> if c = CHR ''.'' then map_option Addr4 (parseIPv4Fields s)
                  else if c = CHR '':'' then parseIPv6 s else None)"

fun Is4 :: "Addr \<Rightarrow> bool" where
  "Is4 (Addr4 _) = True"
| "Is4 (Addr6 _ _) = False"

fun Is6 :: "Addr \<Rightarrow> bool" where
  "Is6 (Addr4 _) = False"
| "Is6 (Addr6 _ _) = True"

fun Is4In6 :: "Addr \<Rightarrow> bool" where
  "Is4In6 (Addr4 _) = False"
| "Is4In6 (Addr6 gs _) = (take 6 gs = [0, 0, 0, 0, 0, 65535])"

section \<open>Printing\<close>

definition string4 :: "nat list \<Rightarrow> string" where
  "string4 os = Join (map show_nat os) ''.''"

fun hex_digits :: "nat \<Rightarrow> nat list" where
  "hex_digits n = (if n < 16 then [n] else hex_digits (n div 16) @ [n mod 16])"

declare hex_digits.simps [simp del]

definition hex_text :: "nat \<Rightarrow> string" where
  "hex_text n = map hex_digit (hex_digits n)"

definition zero_run :: "nat list \<Rightarrow> nat \<Rightarrow> nat" where
  "zero_run gs i = length (takeWhile (\<lambda>g. g = 0) (drop i gs))"

definition run_step :: "nat list \<Rightarrow> nat \<times> nat \<Rightarrow> nat \<Rightarrow> nat \<times> nat" where
  "run_step gs best i =
     (let l = zero_run gs i in if 2 \<le> l \<and> snd best - fst best < l then (i, i + l) else best)"

definition longest_run :: "nat list \<Rightarrow> nat \<times> nat" where
  "longest_run gs = foldl (run_step gs) (255, 255) [0..<8]"

definition string6 :: "nat list \<Rightarrow> string" where
  "string6 gs =
     (let (i, j) = longest_run gs
      in if i = 255 then Join (map hex_text gs) '':''
         else Join (map hex_text (take i gs)) '':'' @ ''::'' @ Join (map hex_text (drop j gs)) '':'')"

definition zone_text :: "string \<Rightarrow> string" where
  "zone_text zone = (if zone = [] then [] else CHR ''%'' # zone)"

fun Addr_String :: "Addr \<Rightarrow> string" where
  "Addr_String (Addr4 os) = string4 os"
| "Addr_String (Addr6 gs zone) =
     (if Is4In6 (Addr6 gs zone)
      then ''::ffff:'' @ string4 [gs ! 6 div 256, gs ! 6 mod 256, gs ! 7 div 256, gs ! 7 mod 256]
      else string6 gs) @ zone_text zone"

section \<open>IPv4 texts\<close>

lemma show_nat_snoc: "0 < n \<Longrightarrow> d < 10 \<Longrightarrow> show_nat (n * 10 + d) = show_nat n @ [digit_char d]"
  by (subst show_nat.simps) simp

lemma show_nat_digit: "d < 10 \<Longrightarrow> show_nat d = [digit_char d]"
  by (subst show_nat.simps) simp

lemma Join_snoc: "Join (ws @ [w]) sep = concat (map (\<lambda>v. v @ sep) ws) @ w"
proof (induction ws)
  case (Cons v ws)
  then show ?case by (cases ws) simp_all
qed simp

definition octets :: "nat list \<Rightarrow> bool" where
  "octets os \<longleftrightarrow> length os = 4 \<and> (\<forall>n \<in> set os. n \<le> 255)"

lemma v4_loop_text:
  assumes "v4_loop val digLen fields s = Some os" "digLen = 0 \<longrightarrow> val = 0 \<and> s \<noteq> []" "val = 0 \<longrightarrow> digLen \<le> 1"
    and "val \<le> 255" "\<forall>n \<in> set fields. n \<le> 255" "length fields \<le> 3"
  shows "string4 os = concat (map (\<lambda>f. show_nat f @ ''.'') fields) @ (if digLen = 0 then [] else show_nat val) @ s \<and> octets os"
  using assms
proof (induction val digLen fields s rule: v4_loop.induct)
  case (1 val digLen fields)
  then show ?case by (auto simp: string4_def Join_snoc octets_def comp_def split: if_splits)
next
  case (2 val digLen fields c s)
  show ?case
  proof (cases "is_digit c")
    case True
    define v where "v = val * 10 + digit_val c"
    have ok: "\<not> (digLen = 1 \<and> val = 0)" "v \<le> 255" using "2.prems"(1) True by (auto simp: v_def Let_def split: if_splits)
    then have loop: "v4_loop v (digLen + 1) fields s = Some os"
      using "2.prems"(1) True unfolding v_def by (simp add: Let_def split: if_splits)
    have cur: "show_nat v = (if digLen = 0 then [] else show_nat val) @ [c]"
    proof (cases "digLen = 0")
      case True
      then show ?thesis using "2.prems"(2) \<open>is_digit c\<close> by (simp add: v_def show_nat_digit)
    next
      case False
      then have "0 < val" using ok(1) "2.prems"(3) by (cases val) auto
      then show ?thesis using False True by (simp add: v_def show_nat_snoc)
    qed
    have "v = 0 \<longrightarrow> digLen + 1 \<le> 1" using ok(1) "2.prems"(2,3) by (cases digLen) (auto simp: v_def)
    with "2.IH"(1) [OF True ok(1), folded v_def] loop ok(2) "2.prems" cur show ?thesis
      by (simp add: v_def)
  next
    case False
    then have c: "c = CHR ''.''" "digLen \<noteq> 0" "s \<noteq> []" "length fields \<noteq> 3"
      "v4_loop 0 0 (fields @ [val]) s = Some os"
      using "2.prems"(1) by (auto split: if_splits)
    with "2.IH"(2) [OF False c(1)] "2.prems" show ?thesis by simp
  qed
qed

text \<open>Every accepted dotted text is the canonical one.\<close>

lemma parseIPv4_exact: "parseIPv4Fields s = Some os \<Longrightarrow> string4 os = s \<and> octets os"
  using v4_loop_text [of 0 0 "[]" s os] by (cases s) (auto simp: parseIPv4Fields_def)

lemma v4_loop_show:
  assumes "n \<le> 255"
  shows "v4_loop 0 0 fields (show_nat n @ s) = v4_loop n (length (show_nat n)) fields s"
proof -
  consider "n < 10" | "10 \<le> n" "n < 100" | "100 \<le> n" by linarith
  then show ?thesis
  proof cases
    case 1
    then show ?thesis by (simp add: show_nat_digit Let_def)
  next
    case 2
    then have "show_nat n = [digit_char (n div 10), digit_char (n mod 10)]"
      using show_nat_snoc [of "n div 10" "n mod 10"] show_nat_digit [of "n div 10"] by simp
    moreover have "0 < n div 10" "n div 10 < 10" using 2 by auto
    ultimately show ?thesis using 2 assms by (simp add: Let_def)
  next
    case 3
    have d: "n div 100 < 10" "0 < n div 100" using 3 assms by simp_all
    have n: "n div 100 * 10 + n div 10 mod 10 = n div 10"
      using div_mult_mod_eq [of "n div 10" 10] by (simp add: div_mult2_eq [symmetric])
    have "show_nat (n div 10) = [digit_char (n div 100), digit_char (n div 10 mod 10)]"
      using show_nat_snoc [of "n div 100" "n div 10 mod 10"] show_nat_digit [OF d(1)] d by (simp add: n)
    then have "show_nat n = [digit_char (n div 100), digit_char (n div 10 mod 10), digit_char (n mod 10)]"
      using show_nat_snoc [of "n div 10" "n mod 10"] 3 by simp
    then show ?thesis using d assms n by (auto simp: Let_def)
  qed
qed

lemma v4_loop_dot:
  "n \<le> 255 \<Longrightarrow> length fields < 3 \<Longrightarrow> s \<noteq> [] \<Longrightarrow>
   v4_loop 0 0 fields (show_nat n @ CHR ''.'' # s) = v4_loop 0 0 (fields @ [n]) s"
  by (simp add: v4_loop_show is_digit_def)

lemma parseIPv4_string4: "octets os \<Longrightarrow> parseIPv4Fields (string4 os) = Some os"
proof -
  assume os: "octets os"
  then obtain a b c d where "os = [a, b, c, d]" "a \<le> 255" "b \<le> 255" "c \<le> 255" "d \<le> 255"
    by (auto simp: octets_def length_Suc_conv numeral_eq_Suc)
  then show ?thesis by (simp add: parseIPv4Fields_def string4_def v4_loop_dot v4_loop_show [of d _ "[]", simplified])
qed

section \<open>IPv6 texts\<close>

definition groups :: "nat list \<Rightarrow> bool" where
  "groups gs \<longleftrightarrow> length gs = 8 \<and> (\<forall>g \<in> set gs. g \<le> 65535)"

abbreviation horner :: "nat \<Rightarrow> nat list \<Rightarrow> nat" where
  "horner acc ds \<equiv> foldl (\<lambda>a d. a * 16 + d) acc ds"

lemma horner_ge: "acc \<le> horner acc ds"
proof (induction ds arbitrary: acc)
  case (Cons d ds)
  from Cons.IH [of "acc * 16 + d"] show ?case by simp
qed simp

lemma hex_run_digits:
  assumes "\<forall>d \<in> set ds. d < 16" "off + length ds \<le> 4" "horner acc ds \<le> 65535"
  shows "hex_run acc off (map hex_digit ds @ s) = hex_run (horner acc ds) (off + length ds) s"
  using assms
proof (induction ds arbitrary: acc off)
  case (Cons d ds)
  have "acc * 16 + d \<le> 65535" using horner_ge [of "acc * 16 + d" ds] Cons.prems(3) by simp
  then show ?case using Cons by (simp add: hex_digit_val)
qed simp

lemma hex_digits_props: "horner 0 (hex_digits n) = n \<and> (\<forall>d \<in> set (hex_digits n). d < 16) \<and> hex_digits n \<noteq> []"
proof (induction n rule: hex_digits.induct)
  case (1 n)
  then show ?case by (cases "n < 16") (auto simp: hex_digits.simps [of n])
qed

lemma hex_digits_length: "n < 16 ^ k \<Longrightarrow> 0 < k \<Longrightarrow> length (hex_digits n) \<le> k"
proof (induction k arbitrary: n)
  case (Suc k)
  show ?case
  proof (cases "n < 16")
    case False
    then have "0 < k" using Suc.prems by (cases k) auto
    moreover have "n div 16 < 16 ^ k" using Suc.prems by (simp add: less_mult_imp_div_less mult.commute)
    ultimately show ?thesis using Suc.IH [of "n div 16"] False by (simp add: hex_digits.simps [of n])
  qed (simp add: hex_digits.simps [of n])
qed simp

lemma hex_text_not_Nil [simp]: "hex_text n \<noteq> []"
  using hex_digits_props [of n] by (simp add: hex_text_def)

lemma hex_text_chars: "c \<in> set (hex_text n) \<Longrightarrow> hex_val c \<noteq> None"
  using hex_digits_props [of n] by (auto simp: hex_text_def hex_digit_val)

lemma hex_run_text:
  assumes "g \<le> 65535" "s = [] \<or> hex_val (hd s) = None"
  shows "hex_run 0 0 (hex_text g @ s) = Some (g, length (hex_text g), s)"
proof -
  have "length (hex_digits g) \<le> 4" using assms(1) by (intro hex_digits_length) simp_all
  then have "hex_run 0 0 (hex_text g @ s) = hex_run g (length (hex_text g)) s"
    using hex_run_digits [of "hex_digits g" 0 0 s] hex_digits_props [of g] assms(1) by (simp add: hex_text_def)
  also have "\<dots> = Some (g, length (hex_text g), s)" using assms(2) by (cases s) simp_all
  finally show ?thesis .
qed

lemma hex_val_colon [simp]: "hex_val (CHR '':'') = None"
  by (simp add: hex_val_def)

abbreviation colons :: "nat list \<Rightarrow> string" where
  "colons gs \<equiv> Join (map hex_text gs) '':''"

lemma hex_text_not_colon: "hd (hex_text g @ s) \<noteq> CHR '':''"
  using hex_text_chars [of "hd (hex_text g)" g] by (cases "hex_text g") auto

lemma colons_start: "gs \<noteq> [] \<Longrightarrow> colons gs \<noteq> [] \<and> hd (colons gs) \<noteq> CHR '':''"
  using hex_text_not_colon [of "hd gs"] hex_text_not_colon [of "hd gs" "[]"] by (cases gs; cases "tl gs") auto

lemma v6_loop_group:
  assumes "length pre < 8" "g \<le> 65535" "s = [] \<or> hd s = CHR '':''"
  shows "v6_loop pre el (hex_text g @ s) =
    (let gs = pre @ [g]
     in if s = [] then Some (gs, el, [])
        else if tl s = [] then None
        else if hd (tl s) = CHR '':''
        then if el \<noteq> None then None
             else if tl (tl s) = [] then Some (gs, Some (length gs), [])
             else v6_loop gs (Some (length gs)) (tl (tl s))
        else v6_loop gs el (tl s))"
proof -
  have "hex_run 0 0 (hex_text g @ s) = Some (g, length (hex_text g), s)"
    using assms by (intro hex_run_text) auto
  then show ?thesis using assms by (subst v6_loop.simps) (auto simp: Let_def)
qed

lemma v6_loop_colons:
  "gs \<noteq> [] \<Longrightarrow> length pre + length gs \<le> 8 \<Longrightarrow> \<forall>g \<in> set gs. g \<le> 65535 \<Longrightarrow> v6_loop pre el (colons gs) = Some (pre @ gs, el, [])"
proof (induction gs arbitrary: pre)
  case (Cons g gs)
  show ?case
  proof (cases gs)
    case Nil
    then show ?thesis using Cons.prems v6_loop_group [of pre g "[]" el] by simp
  next
    case (Cons h t)
    with Cons.prems Cons.IH [of "pre @ [g]"] show ?thesis
      using v6_loop_group [of pre g "CHR '':'' # colons gs" el] colons_start [of gs] by simp
  qed
qed simp

lemma v6_loop_ellipsis:
  "A \<noteq> [] \<Longrightarrow> length pre + length A + length B < 8 \<Longrightarrow> \<forall>g \<in> set A \<union> set B. g \<le> 65535 \<Longrightarrow>
   v6_loop pre None (colons A @ ''::'' @ colons B) = Some (pre @ A @ B, Some (length (pre @ A)), [])"
proof (induction A arbitrary: pre)
  case (Cons g A)
  show ?case
  proof (cases A)
    case Nil
    show ?thesis
    proof (cases "B = []")
      case False
      then show ?thesis using Nil Cons.prems v6_loop_group [of pre g "''::'' @ colons B" None] colons_start [of B]
          v6_loop_colons [of B "pre @ [g]" "Some (Suc (length pre))"] by simp
    qed (use Nil Cons.prems v6_loop_group [of pre g "''::''" None] in simp)
  next
    case (Cons h t)
    have "v6_loop pre None (colons (g # A) @ ''::'' @ colons B) = v6_loop (pre @ [g]) None (colons A @ ''::'' @ colons B)"
      using Cons Cons.prems v6_loop_group [of pre g "CHR '':'' # colons A @ ''::'' @ colons B" None] colons_start [of A] by simp
    also have "\<dots> = Some ((pre @ [g]) @ A @ B, Some (length ((pre @ [g]) @ A)), [])"
      by (rule Cons.IH) (use Cons Cons.prems in auto)
    finally show ?thesis by simp
  qed
qed simp

definition zero_span :: "nat list \<Rightarrow> nat \<times> nat \<Rightarrow> bool" where
  "zero_span gs r \<longleftrightarrow> r = (255, 255) \<or>
     fst r + 2 \<le> snd r \<and> snd r \<le> length gs \<and> gs = take (fst r) gs @ replicate (snd r - fst r) 0 @ drop (snd r) gs"

lemma zero_run_span:
  assumes "2 \<le> zero_run gs i"
  shows "zero_span gs (i, i + zero_run gs i)"
proof -
  let ?z = "takeWhile (\<lambda>g. g = 0) (drop i gs)"
  have "?z = replicate (length ?z) 0" by (rule replicate_length_same [symmetric]) (auto dest: set_takeWhileD)
  then have "drop i gs = replicate (zero_run gs i) 0 @ drop (i + zero_run gs i) gs"
    using takeWhile_dropWhile_id [of "\<lambda>g. g = 0" "drop i gs"]
    by (metis zero_run_def dropWhile_eq_drop drop_drop add.commute)
  then have "gs = take i gs @ replicate (zero_run gs i) 0 @ drop (i + zero_run gs i) gs"
    by (metis append_take_drop_id)
  moreover have "i + zero_run gs i \<le> length gs"
    using assms length_takeWhile_le [of "\<lambda>g. g = 0" "drop i gs"] by (auto simp: zero_run_def)
  ultimately show ?thesis using assms by (simp add: zero_span_def)
qed

lemma longest_run_span: "zero_span gs (longest_run gs)"
proof -
  have "zero_span gs (foldl (run_step gs) r is)" if "zero_span gs r" for r "is"
    using that
  proof (induction "is" arbitrary: r)
    case (Cons i "is")
    have "zero_span gs (run_step gs r i)" using Cons.prems zero_run_span [of gs i] by (simp add: run_step_def Let_def)
    then show ?case by (simp add: Cons.IH)
  qed simp
  then show ?thesis by (simp add: longest_run_def zero_span_def)
qed

lemma v6_groups_plain:
  "gs \<noteq> [] \<Longrightarrow> length gs \<le> 8 \<Longrightarrow> \<forall>g \<in> set gs. g \<le> 65535 \<Longrightarrow> v6_groups (colons gs) = v6_finish (gs, None, [])"
  using colons_start [of gs] v6_loop_colons [of gs "[]" None]
  by (cases "colons gs") (simp_all add: v6_groups_def HasPrefix_def)

lemma v6_groups_ellipsis:
  assumes "length A + length B < 8" "\<forall>g \<in> set A \<union> set B. g \<le> 65535"
  shows "v6_groups (colons A @ ''::'' @ colons B) = Some (A @ replicate (8 - (length A + length B)) 0 @ B)"
proof (cases "A = []")
  case True
  then show ?thesis using assms v6_loop_colons [of B "[]" "Some 0"]
    by (cases "B = []") (simp_all add: v6_groups_def HasPrefix_def v6_finish_def colons_start)
next
  case False
  then have "\<not> HasPrefix (colons A @ ''::'' @ colons B) ''::''"
    using colons_start [of A] by (cases "colons A") (auto simp: HasPrefix_def)
  with False assms v6_loop_ellipsis [of A "[]" B] show ?thesis by (simp add: v6_groups_def v6_finish_def)
qed

lemma v6_groups_string6: "groups gs \<Longrightarrow> v6_groups (string6 gs) = Some gs"
proof -
  assume gs: "groups gs"
  obtain i j where r: "longest_run gs = (i, j)" by (cases "longest_run gs")
  show ?thesis
  proof (cases "i = 255")
    case True
    have "gs \<noteq> []" using gs by (auto simp: groups_def)
    with True show ?thesis using gs v6_groups_plain [of gs] by (simp add: string6_def r groups_def v6_finish_def)
  next
    case False
    then have ij: "i + 2 \<le> j" "j \<le> 8" "gs = take i gs @ replicate (j - i) 0 @ drop j gs"
      using longest_run_span [of gs] gs by (auto simp: r zero_span_def groups_def)
    have "v6_groups (colons (take i gs) @ ''::'' @ colons (drop j gs)) =
      Some (take i gs @ replicate (8 - (length (take i gs) + length (drop j gs))) 0 @ drop j gs)"
      using ij(1,2) gs by (intro v6_groups_ellipsis) (auto simp: groups_def dest: in_set_takeD in_set_dropD)
    moreover have "8 - (length (take i gs) + length (drop j gs)) = j - i" using ij(1,2) gs by (simp add: groups_def)
    ultimately show ?thesis using ij(3) False by (simp add: string6_def r)
  qed
qed

lemma colons_chars: "c \<in> set (colons gs) \<Longrightarrow> c = CHR '':'' \<or> hex_val c \<noteq> None"
proof (induction gs)
  case (Cons g gs)
  then show ?case by (cases gs) (auto dest: hex_text_chars)
qed simp

lemma string6_chars: "c \<in> set (string6 gs) \<Longrightarrow> c = CHR '':'' \<or> hex_val c \<noteq> None"
  by (auto simp: string6_def Let_def split: prod.splits if_splits dest: colons_chars)

lemma colons_colon: "2 \<le> length gs \<Longrightarrow> CHR '':'' \<in> set (colons gs)"
  by (cases gs; cases "tl gs") auto

lemma string6_colon: "groups gs \<Longrightarrow> CHR '':'' \<in> set (string6 gs)"
  using colons_colon [of gs] by (cases "longest_run gs") (auto simp: string6_def groups_def)

lemma find_colon:
  "CHR '':'' \<in> set s \<Longrightarrow> CHR ''.'' \<notin> set s \<Longrightarrow> CHR ''%'' \<notin> set s \<Longrightarrow>
   find (\<lambda>c. c = CHR ''.'' \<or> c = CHR '':'' \<or> c = CHR ''%'') s = Some (CHR '':'')"
  by (induction s) auto

text \<open>The canonical text of every IPv6 address without a zone is read back as that address.\<close>

lemma ParseAddr_string6: "groups gs \<Longrightarrow> ParseAddr (string6 gs) = Some (Addr6 gs '''')"
proof -
  assume gs: "groups gs"
  have no: "CHR ''.'' \<notin> set (string6 gs)" "CHR ''%'' \<notin> set (string6 gs)"
    using string6_chars [of "CHR ''.''" gs] string6_chars [of "CHR ''%''" gs] by (auto simp: hex_val_def)
  then have "takeWhile (\<lambda>c. c \<noteq> CHR ''%'') (string6 gs) = string6 gs" by (intro takeWhile_eq_all_conv [THEN iffD2]) auto
  then have "parseIPv6 (string6 gs) = Some (Addr6 gs '''')"
    unfolding parseIPv6_def by (simp only: Let_def v6_groups_string6 [OF gs]) simp
  with no show ?thesis using find_colon [OF string6_colon [OF gs]] by (simp add: ParseAddr_def)
qed

lemma find_dot:
  "s = show_nat n @ CHR ''.'' # t \<Longrightarrow> find (\<lambda>c. c = CHR ''.'' \<or> c = CHR '':'' \<or> c = CHR ''%'') s = Some (CHR ''.'')"
proof -
  have "find (\<lambda>c. c = CHR ''.'' \<or> c = CHR '':'' \<or> c = CHR ''%'') (d @ CHR ''.'' # t) = Some (CHR ''.'')"
    if "\<forall>c \<in> set d. is_digit c" for d using that by (induction d) (auto simp: is_digit_def)
  then show "s = show_nat n @ CHR ''.'' # t \<Longrightarrow> ?thesis" using show_nat_digits [of _ n] by blast
qed

lemma ParseAddr_string4: "octets os \<Longrightarrow> ParseAddr (string4 os) = Some (Addr4 os)"
proof -
  assume os: "octets os"
  then obtain a b t where "os = a # b # t" by (auto simp: octets_def length_Suc_conv numeral_eq_Suc)
  then obtain u where "string4 os = show_nat a @ CHR ''.'' # u" by (simp add: string4_def)
  from find_dot [OF this] show ?thesis by (simp add: ParseAddr_def parseIPv4_string4 [OF os])
qed

text \<open>An accepted text that denotes an IPv4 address is the canonical text of it.\<close>

lemma ParseAddr4_exact: "ParseAddr s = Some (Addr4 os) \<Longrightarrow> string4 os = s \<and> octets os"
  by (auto simp: ParseAddr_def parseIPv6_def Let_def parseIPv4_exact split: option.splits if_splits)

end
