(* ===== verification/Resolver.thy ===== *)
theory Resolver
  imports Projection Go_Netip
begin

text \<open>
  \<^verbatim>\<open>internal/source/resolver.go\<close>: from projected backends to the records of a provider.  A backend is a
  Service; its ready endpoints name Nodes; a label of the Node, chosen by the provider, holds the address
  of a family.  \<open>parseNodeAddress\<close> reads the label, \<open>backendTargets\<close> resolves one backend,
  \<open>publication\<close> one provider and \<open>Publications\<close> all of them.  The emitter of diagnostics is threaded
  through as a state.  A Go map from families to lists is a function to lists; a missing key reads as the
  empty list.  \<open>AddressFamily\<close> has the two values the annotation parser produces, so the ``unsupported
  address family'' branch of \<^verbatim>\<open>parseNodeAddress\<close> has no counterpart.

  The specification is \<open>backend_addresses\<close>: the addresses that the labels of the serving Nodes denote.
\<close>

section \<open>Addresses\<close>

definition addressFamilyName :: "AddressFamily \<Rightarrow> string" where
  "addressFamilyName family = (case family of IPv4 \<Rightarrow> ''IPv4'' | IPv6 \<Rightarrow> ''IPv6'')"

definition invalid_text :: "string \<Rightarrow> 'a result" where
  "invalid_text m = Inl (mark_invalid (ErrMsg m))"

definition v6_encode :: "Addr \<Rightarrow> string" where
  "v6_encode address = ''v6-'' @ ReplaceAll (Addr_String address) CHR '':'' CHR ''-''"

definition parseNodeAddress :: "string \<Rightarrow> AddressFamily \<Rightarrow> Addr result" where
  "parseNodeAddress value family =
     (case family of
        IPv4 \<Rightarrow>
          (if HasPrefix value ''v6-'' then invalid_text ''IPv4 values must not use the v6- prefix''
           else case ParseAddr value of
                  None \<Rightarrow> Inl (mark_invalid std_error)
                | Some address \<Rightarrow> if \<not> Is4 address then invalid_text ''address is not ipv4'' else Inr address)
      | IPv6 \<Rightarrow>
          (if \<not> HasPrefix value ''v6-'' then invalid_text ''IPv6 values must use the v6- prefix''
           else let decoded = ReplaceAll (TrimPrefix value ''v6-'') CHR ''-'' CHR '':'' in
             case ParseAddr decoded of
               None \<Rightarrow> Inl (mark_invalid std_error)
             | Some address \<Rightarrow>
                 (if \<not> Is6 address \<or> Is4In6 address then invalid_text ''address is not ipv6''
                  else let canonical = v6_encode address in
                    if value \<noteq> canonical
                    then invalid_text (Sprintf ''IPv6 value is not canonical; use %q'' [FStr canonical])
                    else Inr address)))"

definition labelFor :: "DNSProvider \<Rightarrow> AddressFamily \<Rightarrow> string" where
  "labelFor provider family =
     (case (case family of IPv4 \<Rightarrow> ipv4 (ipSources (dpSpec provider)) | IPv6 \<Rightarrow> ipv6 (ipSources (dpSpec provider))) of
        None \<Rightarrow> '''' | Some s \<Rightarrow> NodeLabel s)"

definition stringSet :: "string list \<Rightarrow> string list" where
  "stringSet values = sort values"

section \<open>The targets of one backend\<close>

type_synonym family_map = "AddressFamily \<Rightarrow> string list"

definition endpoint_ready :: "SliceEndpoint \<Rightarrow> bool" where
  "endpoint_ready e \<longleftrightarrow> \<not> (seReady e = Some False)"

text \<open>The loop over the endpoints: node names, ready endpoints, ready endpoints without a node name.\<close>

definition count_endpoint :: "string list \<times> int \<times> int \<Rightarrow> SliceEndpoint \<Rightarrow> string list \<times> int \<times> int" where
  "count_endpoint st e =
     (case st of (nodeNames, ready, unnamed) \<Rightarrow>
        if \<not> endpoint_ready e then st
        else case seNodeName e of
               None \<Rightarrow> (nodeNames, ready + 1, unnamed + 1)
             | Some n \<Rightarrow> if n = '''' then (nodeNames, ready + 1, unnamed + 1) else (List.insert n nodeNames, ready + 1, unnamed))"

text \<open>The inner loop over the families for one node; \<open>missing\<close> collects the nodes without the label.\<close>

fun family_loop :: "DNSProvider \<Rightarrow> string \<Rightarrow> strmap \<Rightarrow> AddressFamily list \<Rightarrow> family_map \<times> family_map \<Rightarrow> (family_map \<times> family_map) result" where
  "family_loop provider nodeName node_labels [] st = Inr st"
| "family_loop provider nodeName node_labels (family # families) (result, missing) =
     (let label = labelFor provider family in
      if label = '''' then family_loop provider nodeName node_labels families (result, missing)
      else let value = get_str node_labels label in
        if value = ''''
        then family_loop provider nodeName node_labels families (result, missing(family := missing family @ [nodeName]))
        else case parseNodeAddress value family of
               Inl e \<Rightarrow> Inl (WrapErr (Sprintf ''node %s label %s contains invalid IP %q: '' [FStr nodeName, FStr label, FStr value]) e)
             | Inr address \<Rightarrow>
                 family_loop provider nodeName node_labels families (result(family := result family @ [Addr_String address]), missing))"

fun node_loop :: "reader \<Rightarrow> Backend \<Rightarrow> DNSProvider \<Rightarrow> AddressFamily list \<Rightarrow> string list \<Rightarrow> family_map \<times> family_map \<Rightarrow> (family_map \<times> family_map) result" where
  "node_loop R backend provider families [] st = Inr st"
| "node_loop R backend provider families (nodeName # nodeNames) st =
     (case get_node R nodeName of
        Inl e \<Rightarrow>
          (let wrapped = WrapErr (Sprintf ''get Node %s for Service %s: '' [FStr nodeName, FStr (Key backend)]) e in
           if IsNotFound e then Inl (mark_invalid (dependency ''NodeNotFound'' wrapped))
           else Inl (dependency ''NodeReadFailed'' wrapped))
      | Inr node \<Rightarrow>
          (case family_loop provider nodeName (omLabels node) families st of
             Inl e \<Rightarrow> Inl e
           | Inr st' \<Rightarrow> node_loop R backend provider families nodeNames st'))"

definition report_missing :: "DNSProvider \<Rightarrow> Backend \<Rightarrow> family_map \<Rightarrow> AddressFamily \<Rightarrow> once \<Rightarrow> once" where
  "report_missing provider backend missing family st =
     (if length (missing family) = 0 then st
      else emit DiagnosticWarning ''NodeAddressLabelMissing''
        (Sprintf ''DNSProvider %q Service %s is missing Node label %q for %s on Nodes [%s]''
          [FStr (dpName provider), FStr (Key backend), FStr (labelFor provider family), FStr (addressFamilyName family),
           FStr (Join (sortedUnique (missing family)) '', '')]) st)"

definition report_endpoints :: "Backend \<Rightarrow> int \<Rightarrow> int \<Rightarrow> once \<Rightarrow> once" where
  "report_endpoints backend ready unnamed st =
     (let st1 = (if ready = 0
                 then emit DiagnosticNormal ''NoReadyEndpoints''
                   (Sprintf ''Service %s has EndpointSlices but no ready endpoints'' [FStr (Key backend)]) st
                 else st)
      in if unnamed > 0
         then emit DiagnosticWarning ''EndpointNodeNameMissing''
           (Sprintf ''Service %s has %d ready endpoint(s) without nodeName'' [FStr (Key backend), FInt unnamed]) st1
         else st1)"

definition backendTargets :: "reader \<Rightarrow> Backend \<Rightarrow> DNSProvider \<Rightarrow> AddressFamily list \<Rightarrow> once \<Rightarrow> once \<times> family_map result" where
  "backendTargets R backend provider families st =
     (case get_service R (bNamespace backend, bName backend) of
        Inl e \<Rightarrow>
          (let wrapped = WrapErr (Sprintf ''get Service %s: '' [FStr (Key backend)]) e in
           (st, Inl (if IsNotFound e then mark_invalid (dependency ''ServiceNotFound'' wrapped)
                     else dependency ''ServiceReadFailed'' wrapped)))
      | Inr service \<Rightarrow>
          (case list_slices R (bNamespace backend) (bName backend) of
             Inl e \<Rightarrow>
               (st, Inl (dependency ''EndpointSliceReadFailed''
                      (WrapErr (Sprintf ''list EndpointSlices for Service %s: '' [FStr (Key backend)]) e)))
           | Inr slices \<Rightarrow>
               (if length slices = 0
                then (emit DiagnosticNormal ''EndpointSlicesUnavailable''
                        (Sprintf ''Service %s has no EndpointSlices'' [FStr (Key backend)]) st, Inr (\<lambda>_. []))
                else let (nodeNames, ready, unnamed) = foldl count_endpoint ([], 0, 0) (concat (map slEndpoints slices));
                         st1 = report_endpoints backend ready unnamed st
                  in case node_loop R backend provider families (stringSet nodeNames) (\<lambda>_. [], \<lambda>_. []) of
                       Inl e \<Rightarrow> (st1, Inl e)
                     | Inr (result, missing) \<Rightarrow>
                         (fold (report_missing provider backend missing) families st1, Inr (\<lambda>family. sortedUnique (result family))))))"

section \<open>Publications\<close>

record PublicationOptions =
  poFamilies :: "AddressFamily list"
  poAnnotations :: strmap
  poTTL :: "int option"
  poDeletionDelay :: "int option"

definition publication_families :: "DNSProvider \<Rightarrow> AddressFamily list \<Rightarrow> AddressFamily list" where
  "publication_families provider families =
     (if length families \<noteq> 0 then families
      else (if ipv4 (ipSources (dpSpec provider)) \<noteq> None then [IPv4] else []) @
           (if ipv6 (ipSources (dpSpec provider)) \<noteq> None then [IPv6] else []))"

definition report_family :: "DNSProvider \<Rightarrow> AddressFamily \<Rightarrow> once \<Rightarrow> once" where
  "report_family provider family st =
     (if labelFor provider family = ''''
      then emit DiagnosticWarning ''AddressFamilyUnavailable''
        (Sprintf ''DNSProvider %q has no Node label source configured for requested %s address family''
          [FStr (dpName provider), FStr (addressFamilyName family)]) st
      else st)"

definition publication_ttl :: "DNSProvider \<Rightarrow> int option \<Rightarrow> int" where
  "publication_ttl provider override =
     (let ttl = defaultTTL (recordDefaults (dpSpec provider)); ttl1 = (if ttl = 0 then 300 else ttl)
      in case override of None \<Rightarrow> ttl1 | Some t \<Rightarrow> t)"

definition publication_delay :: "DNSProvider \<Rightarrow> int option \<Rightarrow> int" where
  "publication_delay provider override =
     (let delay = (case defaultDelay (recordDefaults (dpSpec provider)) of None \<Rightarrow> 60 * second_ns | Some d \<Rightarrow> d)
      in case override of None \<Rightarrow> delay | Some d \<Rightarrow> d)"

text \<open>The targets of one host: the union over its backends.\<close>

fun host_targets :: "reader \<Rightarrow> DNSProvider \<Rightarrow> AddressFamily list \<Rightarrow> Backend list \<Rightarrow> once \<times> family_map \<Rightarrow> once \<times> family_map result" where
  "host_targets R provider families [] (st, targets) = (st, Inr targets)"
| "host_targets R provider families (backend # backends) (st, targets) =
     (case backendTargets R backend provider families st of
        (st1, Inl e) \<Rightarrow> (st1, Inl e)
      | (st1, Inr resolved) \<Rightarrow>
          host_targets R provider families backends (st1, \<lambda>family. fold List.insert (resolved family) (targets family)))"

definition record_type :: "AddressFamily \<Rightarrow> RecordType" where
  "record_type family = (if family = IPv6 then RecordTypeAAAA else RecordTypeA)"

definition host_records :: "string \<Rightarrow> AddressFamily list \<Rightarrow> family_map \<Rightarrow> int \<Rightarrow> Property list \<Rightarrow> Record list" where
  "host_records hostname families targets ttl properties =
     List.map_filter
       (\<lambda>family. let values = stringSet (targets family) in
          if length values = 0 then None
          else Some \<lparr>rDNSName = hostname, rRecordType = record_type family, rTargets = values, rTTL = ttl, rProviderSpecific = properties\<rparr>)
       families"

fun host_loop :: "reader \<Rightarrow> DNSProvider \<Rightarrow> AddressFamily list \<Rightarrow> int \<Rightarrow> Property list \<Rightarrow> HostProjection list \<Rightarrow> once \<times> Record list \<Rightarrow> once \<times> Record list result" where
  "host_loop R provider families ttl properties [] (st, records) = (st, Inr records)"
| "host_loop R provider families ttl properties (host # hosts) (st, records) =
     (if matchingZone (Hostname host) (map zoneName (Zones (dpSpec provider))) = ''''
      then host_loop R provider families ttl properties hosts
             (emit DiagnosticWarning ''HostnameOutsideZones''
               (Sprintf ''hostname %q is outside DNSProvider %q zones'' [FStr (Hostname host), FStr (dpName provider)]) st, records)
      else case host_targets R provider families (Backends host) (st, \<lambda>_. []) of
             (st1, Inl e) \<Rightarrow> (st1, Inl e)
           | (st1, Inr targets) \<Rightarrow>
               host_loop R provider families ttl properties hosts
                 (st1, records @ host_records (Hostname host) families targets ttl properties))"

definition publication :: "reader \<Rightarrow> HostProjection list \<Rightarrow> DNSProvider \<Rightarrow> PublicationOptions \<Rightarrow> once \<Rightarrow> once \<times> Publication result" where
  "publication R projection provider options st =
     (let families = publication_families provider (poFamilies options);
          st1 = fold (report_family provider) families st;
          (properties, metadata) = providerProperties provider (poAnnotations options);
          ttl = publication_ttl provider (poTTL options);
          delay = publication_delay provider (poDeletionDelay options)
      in case host_loop R provider families ttl properties projection (st1, []) of
           (st2, Inl e) \<Rightarrow> (st2, Inl e)
         | (st2, Inr records) \<Rightarrow>
             (st2, Inr \<lparr>ProviderName = dpName provider, Records = sort_key (\<lambda>r. (rDNSName r, rRecordType r)) records,
                        MetadataAnnotations = metadata, DeletionDelay = delay\<rparr>))"

fun publication_loop :: "reader \<Rightarrow> HostProjection list \<Rightarrow> PublicationOptions \<Rightarrow> DNSProvider list \<Rightarrow> once \<times> Publication list \<Rightarrow> once \<times> Publication list result" where
  "publication_loop R projection options [] (st, pubs) = (st, Inr pubs)"
| "publication_loop R projection options (provider # providers) (st, pubs) =
     (case publication R projection provider options st of
        (st1, Inl e) \<Rightarrow> (st1, Inl e)
      | (st1, Inr pub) \<Rightarrow> publication_loop R projection options providers (st1, pubs @ [pub]))"

definition Publications :: "reader \<Rightarrow> HostProjection list \<Rightarrow> DNSProvider list \<Rightarrow> PublicationOptions \<Rightarrow> diagnostic list \<times> Publication list result" where
  "Publications R projection providers options =
     (case publication_loop R projection options providers (diagnosticOnce, []) of
        (st, Inl e) \<Rightarrow> (delivered st, Inl e)
      | (st, Inr pubs) \<Rightarrow> (delivered st, Inr (sort_key ProviderName pubs)))"

section \<open>What the labels of the serving Nodes denote\<close>

definition label_address :: "DNSProvider \<Rightarrow> strmap \<Rightarrow> AddressFamily \<Rightarrow> string set" where
  "label_address provider node_labels family =
     (let label = labelFor provider family; value = get_str node_labels label in
      if label = '''' \<or> value = '''' then {}
      else (case parseNodeAddress value family of Inl _ \<Rightarrow> {} | Inr a \<Rightarrow> {Addr_String a}))"

definition node_address :: "reader \<Rightarrow> DNSProvider \<Rightarrow> AddressFamily \<Rightarrow> string \<Rightarrow> string set" where
  "node_address R provider family n =
     (case get_node R n of Inl _ \<Rightarrow> {} | Inr node \<Rightarrow> label_address provider (omLabels node) family)"

definition serves :: "string \<Rightarrow> SliceEndpoint \<Rightarrow> bool" where
  "serves n e \<longleftrightarrow> endpoint_ready e \<and> seNodeName e = Some n \<and> n \<noteq> ''''"

definition serving_nodes :: "reader \<Rightarrow> Backend \<Rightarrow> string set" where
  "serving_nodes R backend =
     (case list_slices R (bNamespace backend) (bName backend) of
        Inl _ \<Rightarrow> {}
      | Inr slices \<Rightarrow> {n. \<exists>slice \<in> set slices. \<exists>e \<in> set (slEndpoints slice). serves n e})"

definition backend_addresses :: "reader \<Rightarrow> DNSProvider \<Rightarrow> AddressFamily \<Rightarrow> Backend \<Rightarrow> string set" where
  "backend_addresses R provider family backend = (\<Union>n \<in> serving_nodes R backend. node_address R provider family n)"

text \<open>A failure of the resolver is either the source's fault or a read that may be retried.\<close>

definition resolver_error :: "goerr \<Rightarrow> bool" where
  "resolver_error e \<longleftrightarrow> IsInvalid e \<or>
     WarningReason e \<in> {Some ''ServiceReadFailed'', Some ''EndpointSliceReadFailed'', Some ''NodeReadFailed''}"

lemma dependency_simps [simp]: "WarningReason (dependency r e) = Some r" "IsInvalid (dependency r e) \<longleftrightarrow> IsInvalid e"
  by (simp_all add: dependency_def)

lemma parseNodeAddress_error: "parseNodeAddress v f = Inl e \<Longrightarrow> IsInvalid e"
  by (auto simp: parseNodeAddress_def invalid_text_def Let_def split: AddressFamily.splits if_splits option.splits)

lemma count_endpoints:
  assumes "distinct ns"
  shows "\<exists>ns' a b. foldl count_endpoint (ns, r, u) es = (ns', a, b) \<and> distinct ns' \<and> set ns' = set ns \<union> {n. \<exists>e \<in> set es. serves n e}"
  using assms
proof (induction es arbitrary: ns r u)
  case (Cons e es)
  obtain ns1 r1 u1 where step: "count_endpoint (ns, r, u) e = (ns1, r1, u1)" by (cases "count_endpoint (ns, r, u) e") auto
  then have "distinct ns1" "set ns1 = set ns \<union> {n. serves n e}"
    using Cons.prems by (auto simp: count_endpoint_def serves_def split: if_splits option.splits)
  with Cons.IH [of ns1 r1 u1] step show ?case by auto
qed simp

lemma family_loop_props:
  "case family_loop provider n node_labels families (result, missing) of
     Inl e \<Rightarrow> IsInvalid e
   | Inr (result', missing') \<Rightarrow>
       (\<forall>f. set (result' f) = set (result f) \<union> (if f \<in> set families then label_address provider node_labels f else {}))"
proof (induction families arbitrary: result missing)
  case (Cons family families)
  let ?v = "get_str node_labels (labelFor provider family)"
  consider (skip) m where "family_loop provider n node_labels (family # families) (result, missing) =
      family_loop provider n node_labels families (result, m)" "label_address provider node_labels family = {}"
    | (bad) e where "family_loop provider n node_labels (family # families) (result, missing) = Inl e" "IsInvalid e"
    | (add) r where "family_loop provider n node_labels (family # families) (result, missing) =
      family_loop provider n node_labels families (r, missing)"
      "\<And>f. set (r f) = set (result f) \<union> (if f = family then label_address provider node_labels family else {})"
  proof (cases "labelFor provider family = '''' \<or> ?v = ''''")
    case True
    then have "label_address provider node_labels family = {}" by (auto simp: label_address_def)
    with True show thesis by (cases "labelFor provider family = ''''") (simp_all add: skip)
  next
    case False
    show thesis
    proof (cases "parseNodeAddress ?v family")
      case (Inl e)
      with False obtain p where "family_loop provider n node_labels (family # families) (result, missing) = Inl (WrapErr p e)"
        by (simp add: Let_def)
      then show thesis by (rule bad) (simp add: parseNodeAddress_error [OF Inl])
    next
      case (Inr a)
      with False have "label_address provider node_labels family = {Addr_String a}" by (simp add: label_address_def)
      with False Inr show thesis by (intro add [of "result(family := result family @ [Addr_String a])"]) simp_all
    qed
  qed
  then show ?case
  proof cases
    case skip
    then show ?thesis using Cons.IH [of result m] by (auto split: sum.splits if_splits)
  next
    case bad
    then show ?thesis by simp
  next
    case add
    then show ?thesis using Cons.IH [of r missing] by (auto split: sum.splits if_splits)
  qed
qed simp

lemma node_loop_props:
  "case node_loop R backend provider families ns (result, missing) of
     Inl e \<Rightarrow> resolver_error e
   | Inr (result', missing') \<Rightarrow>
       (\<forall>f. set (result' f) = set (result f) \<union> (if f \<in> set families then \<Union>n \<in> set ns. node_address R provider f n else {}))"
proof (induction ns arbitrary: result missing)
  case (Cons n ns)
  show ?case
  proof (cases "get_node R n")
    case (Inl e)
    then show ?thesis by (simp add: Let_def resolver_error_def)
  next
    case (Inr node)
    then have addr: "node_address R provider f n = label_address provider (omLabels node) f" for f by (simp add: node_address_def)
    note step = family_loop_props [where provider = provider and n = n and node_labels = "omLabels node" and families = families and
        result = result and missing = missing]
    show ?thesis
    proof (cases "family_loop provider n (omLabels node) families (result, missing)")
      case (Inl e)
      then show ?thesis using step Inr by (simp add: resolver_error_def)
    next
      case st: (Inr st)
      obtain result1 missing1 where [simp]: "st = (result1, missing1)" by (cases st)
      from step st have "set (result1 f) = set (result f) \<union> (if f \<in> set families then node_address R provider f n else {})" for f
        by (simp add: addr)
      with Cons.IH [of result1 missing1] show ?thesis using Inr st
        by (auto split: sum.splits if_splits)
    qed
  qed
qed simp

lemma serving_nodes_Inr:
  "list_slices R (bNamespace b) (bName b) = Inr slices \<Longrightarrow>
   serving_nodes R b = {n. \<exists>e \<in> set (concat (map slEndpoints slices)). serves n e}"
  by (auto simp: serving_nodes_def)

lemma backendTargets_props:
  "case snd (backendTargets R backend provider families st) of
     Inl e \<Rightarrow> resolver_error e
   | Inr targets \<Rightarrow>
       (\<forall>f. set (targets f) = (if f \<in> set families then backend_addresses R provider f backend else {}) \<and>
            sorted (targets f) \<and> distinct (targets f))"
proof (cases "get_service R (bNamespace backend, bName backend)")
  case (Inl e)
  then show ?thesis by (simp add: backendTargets_def Let_def resolver_error_def)
next
  case service: (Inr service)
  show ?thesis
  proof (cases "list_slices R (bNamespace backend) (bName backend)")
    case (Inl e)
    then show ?thesis using service by (simp add: backendTargets_def resolver_error_def)
  next
    case (Inr slices)
    note nodes = serving_nodes_Inr [OF Inr]
    show ?thesis
    proof (cases "slices = []")
      case True
      then show ?thesis using service Inr nodes by (simp add: backendTargets_def backend_addresses_def)
    next
      case False
      obtain ns r u where count: "foldl count_endpoint ([], 0, 0) (concat (map slEndpoints slices)) = (ns, r, u)"
        "set ns = serving_nodes R backend"
        using count_endpoints [of "[]" 0 0 "concat (map slEndpoints slices)"] nodes by auto
      note loop = node_loop_props [where R = R and backend = backend and provider = provider and families = families and
          ns = "stringSet ns" and result = "\<lambda>_. []" and missing = "\<lambda>_. []"]
      have "set (stringSet ns) = serving_nodes R backend" by (simp add: stringSet_def count(2))
      with loop show ?thesis using service Inr False count(1)
        by (cases "node_loop R backend provider families (stringSet ns) (\<lambda>_. [], \<lambda>_. [])")
          (auto simp: backendTargets_def Let_def backend_addresses_def split: if_splits)
    qed
  qed
qed

section \<open>The records of a publication\<close>

definition host_addresses :: "reader \<Rightarrow> DNSProvider \<Rightarrow> AddressFamily list \<Rightarrow> HostProjection \<Rightarrow> AddressFamily \<Rightarrow> string set" where
  "host_addresses R provider families host f =
     (if f \<in> set families then \<Union>b \<in> set (Backends host). backend_addresses R provider f b else {})"

lemma set_fold_insert [simp]: "set (fold List.insert xs ys) = set xs \<union> set ys"
  by (induction xs arbitrary: ys) auto

lemma distinct_fold_insert [simp]: "distinct ys \<Longrightarrow> distinct (fold List.insert xs ys)"
  by (induction xs arbitrary: ys) auto

lemma host_targets_props:
  assumes "\<forall>f. distinct (targets f)"
  shows "case snd (host_targets R provider families backends (st, targets)) of
     Inl e \<Rightarrow> resolver_error e
   | Inr targets' \<Rightarrow>
       (\<forall>f. distinct (targets' f) \<and> set (targets' f) = set (targets f) \<union>
          (if f \<in> set families then \<Union>b \<in> set backends. backend_addresses R provider f b else {}))"
  using assms
proof (induction backends arbitrary: st targets)
  case (Cons b bs)
  note step = backendTargets_props [where R = R and backend = b and provider = provider and families = families and st = st]
  obtain st1 r where run: "backendTargets R b provider families st = (st1, r)" by fastforce
  show ?case
  proof (cases r)
    case (Inl e)
    then show ?thesis using step run by simp
  next
    case (Inr resolved)
    define t where "t = (\<lambda>f. fold List.insert (resolved f) (targets f))"
    have t: "distinct (t f)" "set (t f) = set (targets f) \<union> (if f \<in> set families then backend_addresses R provider f b else {})" for f
      using step run Inr Cons.prems by (auto simp: t_def)
    have "host_targets R provider families (b # bs) (st, targets) = host_targets R provider families bs (st1, t)"
      using run Inr by (simp add: t_def)
    with Cons.IH [of t st1] t show ?thesis by (auto split: sum.splits if_splits)
  qed
qed simp

definition host_record :: "string \<Rightarrow> (AddressFamily \<Rightarrow> string set) \<Rightarrow> int \<Rightarrow> Property list \<Rightarrow> AddressFamily \<Rightarrow> Record" where
  "host_record hostname addresses ttl properties f =
     \<lparr>rDNSName = hostname, rRecordType = record_type f, rTargets = sorted_list_of_set (addresses f), rTTL = ttl, rProviderSpecific = properties\<rparr>"

lemma set_map_filter: "set (List.map_filter f xs) = {y. \<exists>x \<in> set xs. f x = Some y}"
  by (induction xs) (auto simp: map_filter_simps split: option.splits)

lemma set_host_records:
  assumes "\<And>f. distinct (targets f)" "\<And>f. set (targets f) = A f"
  shows "set (host_records hostname families targets ttl properties) =
    host_record hostname A ttl properties ` {f \<in> set families. A f \<noteq> {}}"
proof -
  have "stringSet (targets f) = sorted_list_of_set (A f)" for f
    using assms by (simp add: stringSet_def sorted_list_of_set_sort_remdups distinct_remdups_id flip: assms(2))
  moreover have "stringSet (targets f) = [] \<longleftrightarrow> A f = {}" for f using assms(2) [of f] by (metis set_empty set_sort stringSet_def)
  ultimately show ?thesis by (auto simp: host_records_def set_map_filter host_record_def Let_def)
qed

definition in_zones :: "DNSProvider \<Rightarrow> string \<Rightarrow> bool" where
  "in_zones provider hostname \<longleftrightarrow> matchingZone hostname (map zoneName (Zones (dpSpec provider))) \<noteq> ''''"

lemma host_loop_props:
  "case snd (host_loop R provider families ttl properties hosts (st, records)) of
     Inl e \<Rightarrow> resolver_error e
   | Inr records' \<Rightarrow> set records' = set records \<union>
       (\<Union>host \<in> {host \<in> set hosts. in_zones provider (Hostname host)}.
          host_record (Hostname host) (host_addresses R provider families host) ttl properties `
            {f \<in> set families. host_addresses R provider families host f \<noteq> {}})"
proof (induction hosts arbitrary: st records)
  case (Cons host hosts)
  show ?case
  proof (cases "in_zones provider (Hostname host)")
    case False
    then obtain st1 where "host_loop R provider families ttl properties (host # hosts) (st, records) =
      host_loop R provider families ttl properties hosts (st1, records)" by (simp add: in_zones_def)
    with Cons.IH [of records st1] False show ?thesis by (simp split: sum.splits) blast
  next
    case True
    note step = host_targets_props [where R = R and provider = provider and families = families and backends = "Backends host" and
        st = st and targets = "\<lambda>_. []"]
    obtain st1 r where run: "host_targets R provider families (Backends host) (st, \<lambda>_. []) = (st1, r)" by fastforce
    show ?thesis
    proof (cases r)
      case (Inl e)
      then show ?thesis using step run True by (simp add: in_zones_def)
    next
      case (Inr targets)
      define recs where "recs = host_records (Hostname host) families targets ttl properties"
      have "set recs = host_record (Hostname host) (host_addresses R provider families host) ttl properties `
          {f \<in> set families. host_addresses R provider families host f \<noteq> {}}"
        unfolding recs_def by (rule set_host_records) (use step run Inr in \<open>auto simp: host_addresses_def split: if_splits\<close>)
      moreover have "host_loop R provider families ttl properties (host # hosts) (st, records) =
          host_loop R provider families ttl properties hosts (st1, records @ recs)"
        using True run Inr by (simp add: in_zones_def recs_def)
      ultimately show ?thesis using Cons.IH [of "records @ recs" st1] True by (simp split: sum.splits) blast
    qed
  qed
qed simp

section \<open>Node addresses are canonical\<close>

lemma ParseAddr_zone: "ParseAddr s = Some (Addr6 gs z) \<Longrightarrow> set z \<subseteq> set s"
  by (auto simp: ParseAddr_def parseIPv6_def Let_def dest: in_set_dropD split: option.splits if_splits)

lemma Join_chars: "set (Join ws sep) \<subseteq> (\<Union>w \<in> set ws. set w) \<union> set sep"
proof (induction ws sep rule: Join.induct)
  case (3 w v ws sep)
  then show ?case by auto
qed simp_all

lemma string4_chars: "c \<in> set (string4 os) \<Longrightarrow> is_digit c \<or> c = CHR ''.''"
  using Join_chars [of "map show_nat os" "''.''"] by (auto simp: string4_def dest: show_nat_digits)

lemma Addr_String_no_dash:
  assumes "case a of Addr4 _ \<Rightarrow> True | Addr6 _ z \<Rightarrow> CHR ''-'' \<notin> set z"
  shows "CHR ''-'' \<notin> set (Addr_String a)"
proof (cases a)
  case (Addr4 os)
  then show ?thesis using string4_chars [of "CHR ''-''" os] by (auto simp: is_digit_def)
next
  case (Addr6 gs z)
  have "CHR ''-'' \<notin> set (string4 os)" for os using string4_chars [of "CHR ''-''" os] by (auto simp: is_digit_def)
  moreover have "CHR ''-'' \<notin> set (string6 gs)" using string6_chars [of "CHR ''-''" gs] by (auto simp: hex_val_def)
  ultimately show ?thesis using assms Addr6 by (simp add: zone_text_def)
qed

lemma v6_decode:
  assumes "CHR ''-'' \<notin> set (Addr_String a)"
  shows "ReplaceAll (TrimPrefix (v6_encode a) ''v6-'') CHR ''-'' CHR '':'' = Addr_String a"
  unfolding v6_encode_def TrimPrefix_append by (rule ReplaceAll_inverse [OF assms])

lemma parseNodeAddress_Inr:
  assumes "parseNodeAddress v f = Inr a"
  shows "case f of IPv4 \<Rightarrow> Is4 a \<and> Addr_String a = v
    | IPv6 \<Rightarrow> Is6 a \<and> \<not> Is4In6 a \<and> v = v6_encode a \<and> Addr_String a = ReplaceAll (TrimPrefix v ''v6-'') CHR ''-'' CHR '':''"
proof (cases f)
  case IPv4
  then have "ParseAddr v = Some a" "Is4 a"
    using assms by (auto simp: parseNodeAddress_def invalid_text_def split: if_splits option.splits)
  with IPv4 show ?thesis by (cases a) (auto dest: ParseAddr4_exact)
next
  case IPv6
  let ?d = "ReplaceAll (TrimPrefix v ''v6-'') CHR ''-'' CHR '':''"
  have a: "ParseAddr ?d = Some a" "Is6 a" "\<not> Is4In6 a" "v = v6_encode a"
    using assms IPv6 by (auto simp: parseNodeAddress_def invalid_text_def Let_def split: if_splits option.splits)
  obtain gs z where gs: "a = Addr6 gs z" using a(2) by (cases a) auto
  have "CHR ''-'' \<notin> set z" using ParseAddr_zone [of ?d gs z] a(1) gs set_ReplaceAll [of "CHR ''-''" "CHR '':''" "TrimPrefix v ''v6-''"] by auto
  then have "CHR ''-'' \<notin> set (Addr_String a)" by (intro Addr_String_no_dash) (simp add: gs)
  from v6_decode [OF this] a show ?thesis by (simp add: IPv6)
qed

lemma parseNodeAddress_nonempty:
  assumes "parseNodeAddress v f = Inr a" "v \<noteq> ''''"
  shows "Addr_String a \<noteq> ''''"
proof (cases f)
  case IPv4
  then show ?thesis using parseNodeAddress_Inr [OF assms(1)] assms(2) by simp
next
  case IPv6
  then have "ParseAddr (ReplaceAll (TrimPrefix v ''v6-'') CHR ''-'' CHR '':'') = Some a"
    using assms(1) by (auto simp: parseNodeAddress_def invalid_text_def Let_def split: if_splits option.splits)
  moreover have "ParseAddr [] = None" by (simp add: ParseAddr_def)
  ultimately show ?thesis using parseNodeAddress_Inr [OF assms(1)] IPv6 by fastforce
qed

text \<open>An accepted label of the IPv4 family is itself the published address; one of the IPv6 family is \<^verbatim>\<open>v6-\<close> and
  the canonical text of a proper IPv6 address with dashes for colons.\<close>

lemma parseNodeAddress_canonical:
  "case parseNodeAddress v f of
     Inl e \<Rightarrow> IsInvalid e
   | Inr a \<Rightarrow> (case f of IPv4 \<Rightarrow> Is4 a \<and> Addr_String a = v
       | IPv6 \<Rightarrow> Is6 a \<and> \<not> Is4In6 a \<and> v = v6_encode a \<and> Addr_String a = ReplaceAll (TrimPrefix v ''v6-'') CHR ''-'' CHR '':'')"
  using parseNodeAddress_Inr [of v f] parseNodeAddress_error [of v f] by (cases "parseNodeAddress v f") auto

text \<open>The dotted text of an IPv4 address and the documented form of a proper IPv6 address are read back.\<close>

lemma parseNodeAddress_read_back:
  assumes "octets os" "groups gs" "\<not> Is4In6 (Addr6 gs '''')"
  shows "parseNodeAddress (Addr_String (Addr4 os)) IPv4 = Inr (Addr4 os) \<and>
    parseNodeAddress (v6_encode (Addr6 gs '''')) IPv6 = Inr (Addr6 gs '''')"
proof -
  have "\<not> HasPrefix (string4 os) ''v6-''"
    using string4_chars [of "CHR ''v''" os] by (auto simp: HasPrefix_def prefix_def is_digit_def)
  then have v4: "parseNodeAddress (Addr_String (Addr4 os)) IPv4 = Inr (Addr4 os)"
    by (simp add: parseNodeAddress_def ParseAddr_string4 [OF assms(1)])
  have "CHR ''-'' \<notin> set (Addr_String (Addr6 gs ''''))" by (rule Addr_String_no_dash) simp
  note decode = v6_decode [OF this]
  have "HasPrefix (v6_encode (Addr6 gs '''')) ''v6-''" by (simp add: v6_encode_def HasPrefix_def)
  moreover have "Addr_String (Addr6 gs '''') = string6 gs" using assms(3) by (simp add: zone_text_def)
  ultimately have "parseNodeAddress (v6_encode (Addr6 gs '''')) IPv6 = Inr (Addr6 gs '''')"
    unfolding parseNodeAddress_def decode using assms(3) by (simp add: ParseAddr_string6 [OF assms(2)])
  with v4 show ?thesis by simp
qed

text \<open>C35: Node labels and addresses correspond one to one.  Every address can be written as a label: the dotted
  text of an IPv4 address, and the documented \<^verbatim>\<open>v6-\<close> form of an IPv6 address that is not an embedded IPv4 address,
  are read back as that address.  And a label denotes at most one address text: an accepted label of the IPv4
  family is itself the published address; one of the IPv6 family is \<^verbatim>\<open>v6-\<close> and the canonical text of a proper IPv6
  address with dashes for colons, and that canonical text is published; everything else is rejected as an invalid
  source, never as a retryable error.\<close>

theorem parseNodeAddress_roundtrip:
  assumes "octets os" "groups gs" "\<not> Is4In6 (Addr6 gs '''')"
  shows "parseNodeAddress (Addr_String (Addr4 os)) IPv4 = Inr (Addr4 os) \<and>
    parseNodeAddress (v6_encode (Addr6 gs '''')) IPv6 = Inr (Addr6 gs '''') \<and>
    (case parseNodeAddress v f of
       Inl e \<Rightarrow> IsInvalid e
     | Inr a \<Rightarrow> (case f of IPv4 \<Rightarrow> Is4 a \<and> Addr_String a = v
         | IPv6 \<Rightarrow> Is6 a \<and> \<not> Is4In6 a \<and> v = v6_encode a \<and> Addr_String a = ReplaceAll (TrimPrefix v ''v6-'') CHR ''-'' CHR '':''))"
  using parseNodeAddress_read_back [OF assms] parseNodeAddress_canonical [of v f] by blast

theorem parseNodeAddress_roundtrip_witness:
  "parseNodeAddress (Addr_String (Addr4 [192, 0, 2, 1])) IPv4 = Inr (Addr4 [192, 0, 2, 1]) \<and>
   parseNodeAddress (v6_encode (Addr6 [8193, 3512, 0, 0, 0, 0, 0, 16] '''')) IPv6 = Inr (Addr6 [8193, 3512, 0, 0, 0, 0, 0, 16] '''')"
  using parseNodeAddress_roundtrip [of "[192, 0, 2, 1]" "[8193, 3512, 0, 0, 0, 0, 0, 16]"] by (simp add: octets_def groups_def)

section \<open>Publications\<close>

definition publication_records :: "reader \<Rightarrow> HostProjection list \<Rightarrow> PublicationOptions \<Rightarrow> DNSProvider \<Rightarrow> Record set" where
  "publication_records R projection options provider =
     (let families = publication_families provider (poFamilies options);
          properties = fst (providerProperties provider (poAnnotations options)); ttl = publication_ttl provider (poTTL options)
      in \<Union>host \<in> {host \<in> set projection. in_zones provider (Hostname host)}.
           host_record (Hostname host) (host_addresses R provider families host) ttl properties `
             {f \<in> set families. host_addresses R provider families host f \<noteq> {}})"

text \<open>What one provider should publish.\<close>

definition published :: "reader \<Rightarrow> HostProjection list \<Rightarrow> PublicationOptions \<Rightarrow> DNSProvider \<Rightarrow> Publication \<Rightarrow> bool" where
  "published R projection options provider pub \<longleftrightarrow>
     ProviderName pub = dpName provider \<and> set (Records pub) = publication_records R projection options provider \<and>
     sorted (map (\<lambda>r. (rDNSName r, rRecordType r)) (Records pub)) \<and>
     MetadataAnnotations pub = snd (providerProperties provider (poAnnotations options)) \<and>
     DeletionDelay pub = publication_delay provider (poDeletionDelay options)"

lemma publication_props:
  "case snd (publication R projection provider options st) of
     Inl e \<Rightarrow> resolver_error e | Inr pub \<Rightarrow> published R projection options provider pub"
proof -
  obtain properties metadata where pp: "providerProperties provider (poAnnotations options) = (properties, metadata)" by fastforce
  let ?fs = "publication_families provider (poFamilies options)" and ?ttl = "publication_ttl provider (poTTL options)"
  let ?st = "fold (report_family provider) ?fs st"
  note loop = host_loop_props [where R = R and provider = provider and families = ?fs and ttl = ?ttl and properties = properties and
      hosts = projection and st = ?st and records = "[]"]
  obtain st1 r where run: "host_loop R provider ?fs ?ttl properties projection (?st, []) = (st1, r)" by fastforce
  show ?thesis
    using loop by (cases r) (simp_all add: run publication_def Let_def pp published_def publication_records_def)
qed

lemma publication_loop_props:
  "case snd (publication_loop R projection options providers (st, pubs)) of
     Inl e \<Rightarrow> resolver_error e
   | Inr pubs' \<Rightarrow> \<exists>new. pubs' = pubs @ new \<and> list_all2 (published R projection options) providers new"
proof (induction providers arbitrary: st pubs)
  case (Cons provider providers)
  note step = publication_props [where R = R and projection = projection and provider = provider and options = options and st = st]
  obtain st1 r where run: "publication R projection provider options st = (st1, r)" by fastforce
  show ?case
  proof (cases r)
    case (Inl e)
    then show ?thesis using step run by simp
  next
    case (Inr pub)
    with step run have "published R projection options provider pub" by simp
    with Cons.IH [of "pubs @ [pub]" st1] show ?thesis using run Inr
      by (auto split: sum.splits)
  qed
qed simp

lemma list_all2_sort_key:
  assumes "list_all2 P xs ys" "\<And>x y. P x y \<Longrightarrow> f x = g y"
  shows "list_all2 P (sort_key f xs) (sort_key g ys)"
  using assms(1)
proof (induction xs ys rule: list_all2_induct)
  case (Cons x xs y ys)
  have insort: "list_all2 P (insort_key f x us) (insort_key g y vs)" if "list_all2 P us vs" for us vs
    using that by (induction us vs rule: list_all2_induct) (use Cons.hyps(1) assms(2) in auto)
  then show ?case using Cons.IH by simp
qed simp

lemma Publications_exact:
  "case snd (Publications R projection providers options) of
     Inl e \<Rightarrow> resolver_error e
   | Inr pubs \<Rightarrow> list_all2 (published R projection options) (sort_key dpName providers) pubs"
proof -
  note loop = publication_loop_props [where R = R and projection = projection and options = options and providers = providers and
      st = diagnosticOnce and pubs = "[]"]
  obtain st r where run: "publication_loop R projection options providers (diagnosticOnce, []) = (st, r)" by fastforce
  show ?thesis
    using loop by (cases r) (auto simp: run Publications_def published_def intro!: list_all2_sort_key)
qed

text \<open>C33: the resolver publishes exactly the addresses of the Nodes that serve the source.  When
  \<^verbatim>\<open>Publications\<close> succeeds there is one publication for each provider, in the order of their names; its
  records are, for each projected hostname inside the provider's zones and each selected family with at
  least one address, one record whose targets are exactly the canonical addresses that the provider's label
  gives the Nodes of ready endpoints of the host's Services, sorted and without duplicates; TTL, properties,
  metadata and deletion delay follow the provider and the source's overrides.  A failure is an invalid
  source or a read that may be retried.\<close>

theorem Publications_correct:
  "case snd (Publications R projection providers options) of
     Inl e \<Rightarrow> resolver_error e
   | Inr pubs \<Rightarrow> list_all2 (published R projection options) (sort_key dpName providers) pubs"
  by (rule Publications_exact)

end
