(* ===== verification/Go_Utf8.thy ===== *)
theory Go_Utf8
  imports Go_Strconv
begin

text \<open>
  Go's view of a byte string as a sequence of runes: what \<^verbatim>\<open>for _, r := range s\<close>,
  \<^verbatim>\<open>utf8.RuneCountInString\<close> and \<^verbatim>\<open>strings.Builder.WriteRune\<close> do.  \<open>rune_len\<close> is the number of bytes the
  first rune takes (1 for an invalid byte), \<open>rune_text\<close> the bytes \<^verbatim>\<open>WriteRune\<close> writes for it: the bytes
  themselves, or the encoding of U+FFFD for an invalid byte.
\<close>

definition cont :: "char \<Rightarrow> bool" where
  "cont c \<longleftrightarrow> 128 \<le> code c \<and> code c \<le> 191"

definition within :: "char \<Rightarrow> nat \<Rightarrow> nat \<Rightarrow> bool" where
  "within c lo hi \<longleftrightarrow> lo \<le> code c \<and> code c \<le> hi"

text \<open>The number of bytes of the valid encoding at the start of a string, 0 when there is none.\<close>

definition valid_len :: "string \<Rightarrow> nat" where
  "valid_len s =
     (case s of
        [] \<Rightarrow> 0
      | a # r1 \<Rightarrow>
          (if code a < 128 then 1
           else case r1 of
             [] \<Rightarrow> 0
           | b # r2 \<Rightarrow>
               (if within a 194 223 then (if cont b then 2 else 0)
                else case r2 of
                  [] \<Rightarrow> 0
                | c # r3 \<Rightarrow>
                    (if within a 224 239
                     then (if cont c \<and> (if code a = 224 then within b 160 191 else if code a = 237 then within b 128 159 else cont b)
                           then 3 else 0)
                     else case r3 of
                       [] \<Rightarrow> 0
                     | d # r4 \<Rightarrow>
                         (if within a 240 244 \<and> cont c \<and> cont d \<and>
                             (if code a = 240 then within b 144 191 else if code a = 244 then within b 128 143 else cont b)
                          then 4 else 0)))))"

definition rune_len :: "string \<Rightarrow> nat" where
  "rune_len s = (if valid_len s = 0 then 1 else valid_len s)"

definition rune_error :: string where
  "rune_error = [CHR 0xEF, CHR 0xBF, CHR 0xBD]"

definition rune_text :: "string \<Rightarrow> string" where
  "rune_text s = (if valid_len s = 0 then rune_error else take (valid_len s) s)"

lemma rune_len_pos: "0 < rune_len s"
  by (simp add: rune_len_def)

function runes :: "string \<Rightarrow> string list" where
  "runes s = (if s = [] then [] else rune_text s # runes (drop (rune_len s) s))"
  by pat_completeness auto
termination by (relation "measure length") (auto simp: rune_len_pos)

declare runes.simps [simp del]

lemma runes_Nil [simp]: "runes [] = []"
  by (subst runes.simps) simp

definition RuneCount :: "string \<Rightarrow> nat" where
  "RuneCount s = length (runes s)"

text \<open>A string of valid encodings.\<close>

function valid_utf8 :: "string \<Rightarrow> bool" where
  "valid_utf8 s = (if s = [] then True else valid_len s \<noteq> 0 \<and> valid_utf8 (drop (rune_len s) s))"
  by pat_completeness auto
termination by (relation "measure length") (auto simp: rune_len_pos)

declare valid_utf8.simps [simp del]

lemma concat_runes: "valid_utf8 s \<Longrightarrow> concat (runes s) = s"
proof (induction s rule: runes.induct)
  case (1 s)
  show ?case
  proof (cases "s = []")
    case False
    with "1.prems" have "valid_len s \<noteq> 0" "valid_utf8 (drop (rune_len s) s)" by (simp_all add: valid_utf8.simps [of s])
    with "1.IH" [OF False] False show ?thesis
      by (subst runes.simps) (simp add: rune_text_def rune_len_def)
  qed simp
qed

lemma valid_len_ascii: "is_ascii c \<Longrightarrow> valid_len (c # s) = 1"
  by (simp add: valid_len_def is_ascii_def)

lemma runes_ascii: "\<forall>c \<in> set s. is_ascii c \<Longrightarrow> runes s = map (\<lambda>c. [c]) s"
proof (induction s)
  case (Cons c s)
  then show ?case by (subst runes.simps) (simp add: valid_len_ascii rune_text_def rune_len_def)
qed simp

lemma RuneCount_ascii: "\<forall>c \<in> set s. is_ascii c \<Longrightarrow> RuneCount s = length s"
  by (simp add: RuneCount_def runes_ascii)

end
