(* ===== verification/Diagnostics.thy ===== *)
theory Diagnostics
  imports Go_Utf8 Go_Time Kube_Types
begin

text \<open>
  \<^verbatim>\<open>internal/controller/diagnostics.go\<close>: the deduplicating reporter behind the events and the log of the
  source controllers.  An \<open>emitter\<close> remembers, for a bounded number of sources in least-recently-used order
  and a bounded number of conditions each, when a diagnostic was last emitted, and drops one that was emitted less
  than the repeat interval ago.  The index \<^verbatim>\<open>entries\<close> and the linked list \<^verbatim>\<open>lru\<close> are two fields here as there:
  an association list from sources to their conditions, and the list of sources, front first.  A list element is identified by its source;
  \<open>emitter_inv\<close> says that the two agree.  The mutexes serialise the operations, so an operation is a
  function of the emitter.  What reaches the outside is a list of \<open>sink\<close>s.
\<close>

definition diagnosticRepeatInterval :: int where "diagnosticRepeatInterval = 5 * 60 * second_ns"
definition diagnosticSourceCapacity :: int where "diagnosticSourceCapacity = 4096"
definition diagnosticConditionLimit :: nat where "diagnosticConditionLimit = 128"
definition diagnosticEventNoteLimit :: nat where "diagnosticEventNoteLimit = 1024"

definition diagnosticEventTruncationSuffix :: string where
  "diagnosticEventTruncationSuffix = [CHR 0xE2, CHR 0x80, CHR 0xA6] @ '' (see manager logs)''"

text \<open>A \<^verbatim>\<open>diagnosticKey\<close> is a \<open>diagnostic\<close>: severity, reason and message.\<close>

record diagnosticSourceKey =
  dsKind :: string
  dsNamespace :: string
  dsName :: string
  dsUID :: string

type_synonym conditions = "(diagnostic \<times> int) list"

record diagnosticEmitter =
  capacity :: int
  interval :: int
  entries :: "(diagnosticSourceKey \<times> conditions) list"
  lru :: "diagnosticSourceKey list"

definition newDiagnosticEmitter :: diagnosticEmitter where
  "newDiagnosticEmitter =
     \<lparr>capacity = diagnosticSourceCapacity, interval = diagnosticRepeatInterval, entries = [], lru = []\<rparr>"

datatype sink =
    Event diagnosticSourceKey string string string
  | LogWarn string "(string \<times> string) list"
  | LogInfo string "(string \<times> string) list"

fun go_kind :: "client_object \<Rightarrow> string" where
  "go_kind (KIngress _) = SourceKindIngress"
| "go_kind (KHTTPRoute _) = SourceKindHTTPRoute"
| "go_kind (KTCPRoute _) = SourceKindTCPRoute"
| "go_kind (KUDPRoute _) = SourceKindUDPRoute"
| "go_kind (KService _) = ''Service''"
| "go_kind (KOther _ _) = ''''"

definition diagnosticSourceKeyFor :: "client_object \<Rightarrow> diagnosticSourceKey" where
  "diagnosticSourceKeyFor obj =
     (let kind = omKind (object_meta obj)
      in \<lparr>dsKind = (if kind = '''' then go_kind obj else kind), dsNamespace = GetNamespace obj, dsName = GetName obj, dsUID = GetUID obj\<rparr>)"

section \<open>The operations of the emitter\<close>

definition remove_source :: "diagnosticSourceKey \<Rightarrow> diagnosticEmitter \<Rightarrow> diagnosticEmitter" where
  "remove_source key e = e\<lparr>entries := AList.delete key (entries e), lru := removeAll key (lru e)\<rparr>"

definition move_to_front :: "diagnosticSourceKey \<Rightarrow> diagnosticEmitter \<Rightarrow> diagnosticEmitter" where
  "move_to_front key e = e\<lparr>lru := key # removeAll key (lru e)\<rparr>"

text \<open>The loop that makes room: it ends because every round shortens the list.\<close>

function evict_loop :: "int \<Rightarrow> diagnosticEmitter \<Rightarrow> diagnosticEmitter" where
  "evict_loop cap e =
     (if int (length (lru e)) \<ge> cap \<and> lru e \<noteq> [] then evict_loop cap (remove_source (last (lru e)) e) else e)"
  by pat_completeness auto
termination
  by (relation "measure (\<lambda>(cap, e). length (lru e))")
    (auto simp: remove_source_def intro!: length_removeAll_less)

declare evict_loop.simps [simp del]

definition effective_capacity :: "diagnosticEmitter \<Rightarrow> int" where
  "effective_capacity e = (if capacity e \<le> 0 then diagnosticSourceCapacity else capacity e)"

definition emitter_state :: "diagnosticSourceKey \<Rightarrow> diagnosticEmitter \<Rightarrow> diagnosticEmitter \<times> conditions" where
  "emitter_state key e =
     (case map_of (entries e) key of
        Some cs \<Rightarrow> (move_to_front key e, cs)
      | None \<Rightarrow>
          (let e1 = evict_loop (effective_capacity e) e
           in (e1\<lparr>entries := AList.update key [] (entries e1), lru := key # lru e1\<rparr>, [])))"

text \<open>The loop over the conditions: the oldest one apart from the protected.\<close>

definition oldest_step :: "diagnostic \<Rightarrow> (diagnostic \<times> int) option \<Rightarrow> diagnostic \<times> int \<Rightarrow> (diagnostic \<times> int) option" where
  "oldest_step protected best c =
     (if fst c = protected then best
      else case best of None \<Rightarrow> Some c | Some b \<Rightarrow> if snd c < snd b then Some c else best)"

definition evictOldestCondition :: "conditions \<Rightarrow> diagnostic \<Rightarrow> conditions" where
  "evictOldestCondition cs protected =
     (case foldl (oldest_step protected) None cs of None \<Rightarrow> cs | Some oldest \<Rightarrow> AList.delete (fst oldest) cs)"

fun note_runes :: "nat \<Rightarrow> string \<Rightarrow> string list \<Rightarrow> string" where
  "note_runes limit acc [] = acc"
| "note_runes limit acc (r # rs) = (if length acc + length r > limit then acc else note_runes limit (acc @ r) rs)"

definition eventDiagnosticMessage :: "string \<Rightarrow> string" where
  "eventDiagnosticMessage message =
     (if length message \<le> diagnosticEventNoteLimit then message
      else note_runes (diagnosticEventNoteLimit - length diagnosticEventTruncationSuffix) '''' (runes message) @
        diagnosticEventTruncationSuffix)"

definition logDiagnostic :: "diagnosticSourceKey \<Rightarrow> diagnostic \<Rightarrow> sink" where
  "logDiagnostic key d =
     (case d of (severity, reason, message) \<Rightarrow>
        let attributes = [(''source_kind'', dsKind key), (''source_namespace'', dsNamespace key), (''source_name'', dsName key),
                          (''source_uid'', dsUID key), (''severity'', severity), (''reason'', reason)]
        in if severity = ''Warning'' then LogWarn message attributes else LogInfo message attributes)"

definition sinks :: "bool \<Rightarrow> diagnosticSourceKey \<Rightarrow> diagnostic \<Rightarrow> sink list" where
  "sinks recorder key d =
     (case d of (severity, reason, message) \<Rightarrow>
        (if recorder then [Event key severity reason (eventDiagnosticMessage message)] else []) @ [logDiagnostic key d])"

definition emitter_report :: "bool \<Rightarrow> diagnosticSourceKey \<Rightarrow> int \<Rightarrow> diagnostic \<Rightarrow> diagnosticEmitter \<Rightarrow> diagnosticEmitter \<times> sink list" where
  "emitter_report recorder key now d e =
     (let (e1, cs) = emitter_state key e;
          shouldEmit = (case map_of cs d of None \<Rightarrow> True | Some emittedAt \<Rightarrow> time_Sub now emittedAt \<ge> interval e)
      in if \<not> shouldEmit then (e1, [])
         else let cs1 = AList.update d now cs;
                  cs2 = (if length cs1 > diagnosticConditionLimit then evictOldestCondition cs1 d else cs1)
              in (e1\<lparr>entries := AList.update key cs2 (entries e1)\<rparr>, sinks recorder key d))"

definition clearMissing :: "diagnosticSourceKey \<Rightarrow> diagnostic list \<Rightarrow> diagnosticEmitter \<Rightarrow> diagnosticEmitter" where
  "clearMissing key seen e =
     (case map_of (entries e) key of
        None \<Rightarrow> e
      | Some cs \<Rightarrow>
          (let e1 = move_to_front key e; cs1 = filter (\<lambda>c. fst c \<in> set seen) cs
           in if length cs1 = 0 then remove_source key e1
              else e1\<lparr>entries := AList.update key cs1 (entries e1)\<rparr>))"

definition deleteSource :: "string \<Rightarrow> string \<Rightarrow> string \<Rightarrow> diagnosticEmitter \<Rightarrow> diagnosticEmitter" where
  "deleteSource kind namespace name e =
     fold (\<lambda>key e. if dsKind key = kind \<and> dsNamespace key = namespace \<and> dsName key = name then remove_source key e else e)
       (map fst (entries e)) e"

section \<open>Sessions\<close>

text \<open>One reconciliation reports through a session, which passes each diagnostic on once and clears the
  conditions it has not seen when the reconciliation succeeds.\<close>

record diagnosticSession =
  sessRecorder :: bool
  sessKey :: diagnosticSourceKey
  sessSeen :: "diagnostic list"

definition session_begin :: "client_object \<Rightarrow> bool \<Rightarrow> diagnosticSession" where
  "session_begin obj recorder = \<lparr>sessRecorder = recorder, sessKey = diagnosticSourceKeyFor obj, sessSeen = []\<rparr>"

definition session_report ::
  "int \<Rightarrow> diagnostic \<Rightarrow> diagnosticSession \<times> diagnosticEmitter \<Rightarrow> (diagnosticSession \<times> diagnosticEmitter) \<times> sink list" where
  "session_report now d st =
     (case st of (s, e) \<Rightarrow>
        if d \<in> set (sessSeen s) then (st, [])
        else let (e', out) = emitter_report (sessRecorder s) (sessKey s) now d e
          in ((s\<lparr>sessSeen := d # sessSeen s\<rparr>, e'), out))"

definition session_finish :: "bool \<Rightarrow> diagnosticSession \<Rightarrow> diagnosticEmitter \<Rightarrow> diagnosticEmitter" where
  "session_finish success s e = (if \<not> success then e else clearMissing (sessKey s) (sessSeen s) e)"

text \<open>\<^verbatim>\<open>reportSourceDiagnostic\<close>: through the session of the context when there is one.\<close>

definition reportSourceDiagnostic ::
  "client_object \<Rightarrow> bool \<Rightarrow> int \<Rightarrow> diagnostic \<Rightarrow> diagnosticSession option \<times> diagnosticEmitter \<Rightarrow>
   (diagnosticSession option \<times> diagnosticEmitter) \<times> sink list" where
  "reportSourceDiagnostic obj recorder now d st =
     (case st of
        (Some s, e) \<Rightarrow> (let ((s', e'), out) = session_report now d (s, e) in ((Some s', e'), out))
      | (None, e) \<Rightarrow> (let (e', out) = emitter_report recorder (diagnosticSourceKeyFor obj) now d e in ((None, e'), out)))"

section \<open>What the emitter remembers\<close>

definition last_at :: "diagnosticEmitter \<Rightarrow> diagnosticSourceKey \<Rightarrow> diagnostic \<rightharpoonup> int" where
  "last_at e key = (case map_of (entries e) key of None \<Rightarrow> Map.empty | Some cs \<Rightarrow> map_of cs)"

definition wf_conditions :: "conditions \<Rightarrow> bool" where
  "wf_conditions cs \<longleftrightarrow> distinct (map fst cs) \<and> length cs \<le> diagnosticConditionLimit"

text \<open>The index and the list hold the same sources, each once.\<close>

definition index_ok :: "diagnosticEmitter \<Rightarrow> bool" where
  "index_ok e \<longleftrightarrow> distinct (map fst (entries e)) \<and> distinct (lru e) \<and> set (lru e) = dom (map_of (entries e)) \<and>
     (\<forall>key cs. map_of (entries e) key = Some cs \<longrightarrow> wf_conditions cs)"

definition emitter_inv :: "diagnosticEmitter \<Rightarrow> bool" where
  "emitter_inv e \<longleftrightarrow> index_ok e \<and> int (length (lru e)) \<le> effective_capacity e"

lemma index_okI [wf_intros]:
  "distinct (map fst (entries e)) \<Longrightarrow> distinct (lru e) \<Longrightarrow> set (lru e) = dom (map_of (entries e)) \<Longrightarrow>
   (\<And>key cs. map_of (entries e) key = Some cs \<Longrightarrow> wf_conditions cs) \<Longrightarrow> index_ok e"
  by (simp add: index_ok_def)

lemma index_okD:
  assumes "index_ok e"
  shows "distinct (map fst (entries e))" "distinct (lru e)" "set (lru e) = dom (map_of (entries e))"
    "map_of (entries e) key = Some cs \<Longrightarrow> wf_conditions cs"
  using assms by (auto simp: index_ok_def)

lemma effective_capacity_update [simp]:
  "effective_capacity (e\<lparr>entries := x\<rparr>) = effective_capacity e" "effective_capacity (e\<lparr>lru := y\<rparr>) = effective_capacity e"
  by (simp_all add: effective_capacity_def)

lemma remove_source_props:
  assumes "index_ok e"
  shows "index_ok (remove_source key e)" "last_at (remove_source key e) = (last_at e)(key := Map.empty)"
    "length (lru (remove_source key e)) \<le> length (lru e)" "effective_capacity (remove_source key e) = effective_capacity e"
    "interval (remove_source key e) = interval e"
proof -
  note e = index_okD [OF assms]
  show "index_ok (remove_source key e)"
    by (rule index_okI) (use e in \<open>auto simp: remove_source_def distinct_delete delete_conv' distinct_removeAll split: if_splits\<close>)
  show "last_at (remove_source key e) = (last_at e)(key := Map.empty)"
    by (auto simp: last_at_def remove_source_def delete_conv' fun_eq_iff)
  show "length (lru (remove_source key e)) \<le> length (lru e)" by (simp add: remove_source_def)
qed (simp_all add: remove_source_def effective_capacity_def)

lemma move_to_front_props:
  assumes "index_ok e" "map_of (entries e) key = Some cs"
  shows "index_ok (move_to_front key e)" "entries (move_to_front key e) = entries e" "length (lru (move_to_front key e)) = length (lru e)"
    "effective_capacity (move_to_front key e) = effective_capacity e" "interval (move_to_front key e) = interval e"
proof -
  note e = index_okD [OF assms(1)]
  have key: "key \<in> set (lru e)" using e(3) assms(2) by auto
  then show "index_ok (move_to_front key e)"
    by (intro index_okI) (use e in \<open>auto simp: move_to_front_def distinct_removeAll\<close>)
  show "length (lru (move_to_front key e)) = length (lru e)"
    using key e(2) by (simp add: move_to_front_def length_remove1 flip: distinct_remove1_removeAll) (metis Suc_pred length_pos_if_in_set)
qed (simp_all add: move_to_front_def effective_capacity_def)

text \<open>An emitter that has only forgotten sources.\<close>

definition forgets :: "diagnosticEmitter \<Rightarrow> diagnosticEmitter \<Rightarrow> bool" where
  "forgets e e' \<longleftrightarrow> (\<forall>key. last_at e' key = last_at e key \<or> last_at e' key = Map.empty)"

lemma evict_loop_props:
  assumes "index_ok e" "0 < cap"
  shows "index_ok (evict_loop cap e) \<and> forgets e (evict_loop cap e) \<and> int (length (lru (evict_loop cap e))) < cap \<and>
    set (lru (evict_loop cap e)) \<subseteq> set (lru e) \<and> interval (evict_loop cap e) = interval e \<and> capacity (evict_loop cap e) = capacity e \<and>
    (int (length (lru e)) < cap \<longrightarrow> evict_loop cap e = e)"
  using assms
proof (induction cap e rule: evict_loop.induct)
  case (1 cap e)
  show ?case
  proof (cases "int (length (lru e)) \<ge> cap \<and> lru e \<noteq> []")
    case False
    with "1.prems" show ?thesis by (subst (1 2 3 4 5 6 7) evict_loop.simps) (auto simp: forgets_def)
  next
    case True
    let ?e = "remove_source (last (lru e)) e"
    note rm = remove_source_props [OF "1.prems"(1), of "last (lru e)"]
    have "forgets ?e e' \<Longrightarrow> forgets e e'" for e' unfolding forgets_def rm(2) by (metis fun_upd_apply)
    moreover have "set (lru ?e) \<subseteq> set (lru e)" "capacity ?e = capacity e" by (auto simp: remove_source_def)
    moreover have "evict_loop cap e = evict_loop cap ?e" using True by (subst evict_loop.simps) simp
    ultimately show ?thesis using "1.IH" [OF True rm(1) "1.prems"(2)] True rm(5) by auto
  qed
qed

lemma effective_capacity_pos: "0 < effective_capacity e"
  by (simp add: effective_capacity_def diagnosticSourceCapacity_def)

lemma emitter_state_props:
  assumes "emitter_inv e" "emitter_state key e = (e1, cs)"
  shows "emitter_inv e1" "map_of (entries e1) key = Some cs" "map_of cs = last_at e key" "wf_conditions cs" "interval e1 = interval e"
    "forgets e e1" "last_at e1 key = last_at e key"
    "map_of (entries e) key \<noteq> None \<or> int (length (lru e)) < effective_capacity e \<Longrightarrow> last_at e1 = last_at e"
proof -
  have e: "index_ok e" "int (length (lru e)) \<le> effective_capacity e" using assms(1) by (simp_all add: emitter_inv_def)
  have goal: "emitter_inv e1 \<and> map_of (entries e1) key = Some cs \<and> map_of cs = last_at e key \<and> wf_conditions cs \<and> interval e1 = interval e \<and>
    forgets e e1 \<and> last_at e1 key = last_at e key \<and>
    (map_of (entries e) key \<noteq> None \<or> int (length (lru e)) < effective_capacity e \<longrightarrow> last_at e1 = last_at e)"
  proof (cases "map_of (entries e) key")
    case (Some cs')
    then have "e1 = move_to_front key e" "cs' = cs" using assms(2) by (simp_all add: emitter_state_def)
    with move_to_front_props [OF e(1) Some] e Some index_okD(4) [OF e(1) Some] show ?thesis
      by (simp add: emitter_inv_def last_at_def forgets_def fun_eq_iff)
  next
    case None
    define e0 where "e0 = evict_loop (effective_capacity e) e"
    have e1: "e1 = e0\<lparr>entries := AList.update key [] (entries e0), lru := key # lru e0\<rparr>" "cs = []"
      using assms(2) None by (simp_all add: emitter_state_def Let_def e0_def)
    have ev: "index_ok e0" "forgets e e0" "int (length (lru e0)) < effective_capacity e" "set (lru e0) \<subseteq> set (lru e)"
      "interval e0 = interval e" "capacity e0 = capacity e" "int (length (lru e)) < effective_capacity e \<longrightarrow> e0 = e"
      using evict_loop_props [OF e(1) effective_capacity_pos [of e]] unfolding e0_def by blast+
    note ok = index_okD [OF ev(1)]
    have new: "key \<notin> set (lru e0)" using ev(4) index_okD(3) [OF e(1)] None by auto
    have "index_ok e1"
      by (rule index_okI) (use ok new e1 in \<open>auto simp: distinct_update update_conv' wf_conditions_def split: if_splits\<close>)
    moreover have cap: "effective_capacity e1 = effective_capacity e" using ev(6) e1 by (simp add: effective_capacity_def)
    ultimately have "emitter_inv e1" using ev(3) e1(1) by (simp add: emitter_inv_def)
    moreover have at: "last_at e1 = last_at e0"
      using new ok(3) e1(1) by (auto simp: last_at_def update_conv' fun_eq_iff split: option.split)
    moreover have "last_at e key = Map.empty" using None by (simp add: last_at_def)
    moreover have "last_at e0 key = Map.empty" using new ok(3) by (auto simp: last_at_def split: option.split)
    ultimately show ?thesis using ev e1 None
      by (auto simp: update_conv' wf_conditions_def forgets_def)
  qed
  then show "emitter_inv e1" "map_of (entries e1) key = Some cs" "map_of cs = last_at e key" "wf_conditions cs" "interval e1 = interval e"
    "forgets e e1" "last_at e1 key = last_at e key"
    "map_of (entries e) key \<noteq> None \<or> int (length (lru e)) < effective_capacity e \<Longrightarrow> last_at e1 = last_at e" by blast+
qed

text \<open>The evicted condition is an oldest one and never the protected one.\<close>

lemma oldest_fold:
  "case foldl (oldest_step p) best cs of
     None \<Rightarrow> best = None \<and> (\<forall>c \<in> set cs. fst c = p)
   | Some c \<Rightarrow> (best = Some c \<or> c \<in> set cs \<and> fst c \<noteq> p) \<and> (\<forall>c' \<in> set cs. fst c' \<noteq> p \<longrightarrow> snd c \<le> snd c') \<and>
       (\<forall>b. best = Some b \<longrightarrow> snd c \<le> snd b)"
proof (induction cs arbitrary: best)
  case Nil
  then show ?case by (cases best) simp_all
next
  case (Cons c cs)
  obtain b where b: "oldest_step p best c = b" by simp
  have step: "b = None \<Longrightarrow> best = None \<and> fst c = p"
    "b = Some x \<Longrightarrow> (best = Some x \<or> x = c \<and> fst c \<noteq> p) \<and> (fst c \<noteq> p \<longrightarrow> snd x \<le> snd c) \<and> (\<forall>y. best = Some y \<longrightarrow> snd x \<le> snd y)" for x
    using b by (auto simp: oldest_step_def split: if_splits option.splits)
  have "foldl (oldest_step p) best (c # cs) = foldl (oldest_step p) b cs" by (simp add: b)
  moreover note IH = Cons.IH [of b]
  ultimately show ?case
  proof (cases "foldl (oldest_step p) b cs")
    case None
    with IH step(1) \<open>foldl (oldest_step p) best (c # cs) = foldl (oldest_step p) b cs\<close> show ?thesis by simp
  next
    case (Some x)
    with IH have x: "b = Some x \<or> x \<in> set cs \<and> fst x \<noteq> p" "\<forall>c' \<in> set cs. fst c' \<noteq> p \<longrightarrow> snd x \<le> snd c'" "\<forall>y. b = Some y \<longrightarrow> snd x \<le> snd y"
      by simp_all
    have le: "snd x \<le> snd c" if "fst c \<noteq> p" using step x(3) that by (cases b) force+
    have le': "snd x \<le> snd y" if "best = Some y" for y using step x(3) that by (cases b) force+
    have mem: "best = Some x \<or> x \<in> set (c # cs) \<and> fst x \<noteq> p" using x(1) step(2) [of x] by auto
    with x(2) le le' Some \<open>foldl (oldest_step p) best (c # cs) = foldl (oldest_step p) b cs\<close> show ?thesis
      by (simp del: foldl_Cons)
  qed
qed

lemma evict_oldest_props:
  assumes "distinct (map fst cs)" "length cs \<le> Suc diagnosticConditionLimit" "Suc 0 < length cs"
  shows "wf_conditions (evictOldestCondition cs p)" "map_of (evictOldestCondition cs p) p = map_of cs p"
    "map_of (evictOldestCondition cs p) d = map_of cs d \<or> map_of (evictOldestCondition cs p) d = None"
proof -
  have "\<exists>c \<in> set cs. fst c \<noteq> p"
  proof (rule ccontr)
    assume "\<not> (\<exists>c \<in> set cs. fst c \<noteq> p)"
    then have "set (map fst cs) \<subseteq> {p}" by auto
    then have "card (set (map fst cs)) \<le> 1" using card_mono [of "{p}"] by fastforce
    with distinct_card [OF assms(1)] assms(3) show False by simp
  qed
  with oldest_fold [where p = p and best = None and cs = cs]
  obtain c where c: "foldl (oldest_step p) None cs = Some c" "c \<in> set cs" "fst c \<noteq> p"
    by (cases "foldl (oldest_step p) None cs") auto
  have "length (AList.delete (fst c) cs) < length cs"
    using c(2) by (simp add: AList.delete_eq) (rule length_filter_less [OF c(2)], simp add: case_prod_unfold)
  then show "wf_conditions (evictOldestCondition cs p)" "map_of (evictOldestCondition cs p) p = map_of cs p"
    "map_of (evictOldestCondition cs p) d = map_of cs d \<or> map_of (evictOldestCondition cs p) d = None"
    using c(1,3) assms(1,2) by (auto simp: evictOldestCondition_def wf_conditions_def distinct_delete delete_conv')
qed

lemma length_alist_update: "distinct (map fst cs) \<Longrightarrow> length (AList.update d t cs) = (if d \<in> fst ` set cs then length cs else Suc (length cs))"
  by (induction cs) auto

lemma update_conditions:
  fixes now :: int and d :: diagnostic
  assumes "wf_conditions cs"
  defines "cs1 \<equiv> AList.update d now cs"
  defines "cs2 \<equiv> (if length cs1 > diagnosticConditionLimit then evictOldestCondition cs1 d else cs1)"
  shows "wf_conditions cs2" "map_of cs2 d = Some now" "d' \<noteq> d \<Longrightarrow> map_of cs2 d' = map_of cs d' \<or> map_of cs2 d' = None"
proof -
  have d: "distinct (map fst cs1)" "length cs1 \<le> Suc diagnosticConditionLimit"
    using assms(1) by (auto simp: cs1_def wf_conditions_def distinct_update length_alist_update)
  have "Suc 0 < length cs1" if "length cs1 > diagnosticConditionLimit" using that by (simp add: diagnosticConditionLimit_def)
  note ev = evict_oldest_props [OF d this, of d]
  show "wf_conditions cs2" using ev(1) d by (auto simp: cs2_def wf_conditions_def)
  show "map_of cs2 d = Some now" using ev(2) by (auto simp: cs2_def cs1_def update_conv')
  show "d' \<noteq> d \<Longrightarrow> map_of cs2 d' = map_of cs d' \<or> map_of cs2 d' = None"
    using ev(3) [of d'] by (auto simp: cs2_def cs1_def update_conv' split: if_splits)
qed

definition due :: "diagnosticEmitter \<Rightarrow> diagnosticSourceKey \<Rightarrow> diagnostic \<Rightarrow> int \<Rightarrow> bool" where
  "due e key d now \<longleftrightarrow> (case last_at e key d of None \<Rightarrow> True | Some t \<Rightarrow> interval e \<le> time_Sub now t)"

lemma emitter_report_props:
  assumes "emitter_inv e" "emitter_report recorder key now d e = (e', out)"
  shows "emitter_inv e'" "out = (if due e key d now then sinks recorder key d else [])"
    "last_at e' key d = (if due e key d now then Some now else last_at e key d)"
    "(k, d') \<noteq> (key, d) \<Longrightarrow> last_at e' k d' = last_at e k d' \<or> last_at e' k d' = None" "interval e' = interval e"
    "k \<noteq> key \<Longrightarrow> map_of (entries e) key \<noteq> None \<or> int (length (lru e)) < effective_capacity e \<Longrightarrow> last_at e' k = last_at e k"
proof -
  obtain e1 cs where st: "emitter_state key e = (e1, cs)" by fastforce
  note S = emitter_state_props [OF assms(1) st]
  define cs1 where "cs1 = AList.update d now cs"
  define cs2 where "cs2 = (if length cs1 > diagnosticConditionLimit then evictOldestCondition cs1 d else cs1)"
  note U = update_conditions [OF S(4), where d = d and now = now, folded cs1_def, folded cs2_def]
  have due: "due e key d now \<longleftrightarrow> (case map_of cs d of None \<Rightarrow> True | Some emittedAt \<Rightarrow> interval e \<le> time_Sub now emittedAt)"
    by (simp add: due_def S(3))
  have run: "e' = (if due e key d now then e1\<lparr>entries := AList.update key cs2 (entries e1)\<rparr> else e1)"
    "out = (if due e key d now then sinks recorder key d else [])"
    using assms(2) unfolding emitter_report_def st due Let_def cs2_def cs1_def
    by (auto split: if_splits option.splits)
  have at: "last_at (e1\<lparr>entries := AList.update key cs2 (entries e1)\<rparr>) = (last_at e1)(key := map_of cs2)"
    by (auto simp: last_at_def update_conv' fun_eq_iff)
  have ok: "index_ok e1" using S(1) by (simp add: emitter_inv_def)
  have "index_ok (e1\<lparr>entries := AList.update key cs2 (entries e1)\<rparr>)"
    by (rule index_okI) (use index_okD [OF ok] S(2) U(1) in \<open>auto simp: distinct_update update_conv' split: if_splits\<close>)
  then show "emitter_inv e'" using S(1) by (simp add: run(1) emitter_inv_def)
  show "out = (if due e key d now then sinks recorder key d else [])" by (rule run(2))
  show "last_at e' key d = (if due e key d now then Some now else last_at e key d)" using S(7) U(2) by (simp add: run(1) at)
  show "interval e' = interval e" using S(5) by (simp add: run(1))
  have F: "last_at e1 k d' = last_at e k d' \<or> last_at e1 k d' = None" using S(6) unfolding forgets_def by metis
  show "(k, d') \<noteq> (key, d) \<Longrightarrow> last_at e' k d' = last_at e k d' \<or> last_at e' k d' = None"
    using F U(3) [of d'] S(3) by (cases "k = key") (auto simp: run(1) at)
  show "k \<noteq> key \<Longrightarrow> map_of (entries e) key \<noteq> None \<or> int (length (lru e)) < effective_capacity e \<Longrightarrow> last_at e' k = last_at e k"
    using S(8) by (auto simp: run(1) at)
qed

lemma clearMissing_props:
  assumes "emitter_inv e"
  shows "emitter_inv (clearMissing key seen e)"
    "last_at (clearMissing key seen e) k d = (if k = key \<and> d \<notin> set seen then None else last_at e k d)"
proof -
  have ok: "index_ok e" "int (length (lru e)) \<le> effective_capacity e" using assms by (simp_all add: emitter_inv_def)
  have both: "emitter_inv (clearMissing key seen e) \<and>
    last_at (clearMissing key seen e) k d = (if k = key \<and> d \<notin> set seen then None else last_at e k d)"
  proof (cases "map_of (entries e) key")
    case None
    then show ?thesis using assms by (auto simp: clearMissing_def last_at_def)
  next
    case (Some cs)
    define e1 where "e1 = move_to_front key e"
    define cs1 where "cs1 = filter (\<lambda>c. fst c \<in> set seen) cs"
    note M = move_to_front_props [OF ok(1) Some, folded e1_def]
    have cs: "wf_conditions cs" by (rule index_okD(4) [OF ok(1) Some])
    have get: "map_of cs1 d = (if d \<in> set seen then map_of cs d else None)" for d
      unfolding cs1_def by (induction cs) auto
    have at1: "last_at e1 = last_at e" by (simp add: last_at_def M(2) fun_eq_iff)
    have at: "last_at e key = map_of cs" using Some by (simp add: last_at_def)
    show ?thesis
    proof (cases "cs1 = []")
      case True
      then have run: "clearMissing key seen e = remove_source key e1" using Some by (simp add: clearMissing_def e1_def cs1_def)
      have "map_of cs d = None" if "d \<in> set seen" using get [of d] True that by simp
      with remove_source_props [OF M(1), of key] M ok at1 at show ?thesis by (auto simp: run emitter_inv_def)
    next
      case False
      then have run: "clearMissing key seen e = e1\<lparr>entries := AList.update key cs1 (entries e1)\<rparr>"
        using Some by (simp add: clearMissing_def e1_def cs1_def Let_def)
      have "length cs1 \<le> length cs" by (simp add: cs1_def)
      then have wf: "wf_conditions cs1" using cs unfolding wf_conditions_def cs1_def by (meson distinct_map_filter le_trans)
      have "index_ok (clearMissing key seen e)" unfolding run
        by (rule index_okI) (use index_okD [OF M(1)] wf M(2) Some in \<open>auto simp: distinct_update update_conv' split: if_splits\<close>)
      moreover have "last_at (clearMissing key seen e) = (last_at e)(key := map_of cs1)"
        using at1 by (auto simp: run last_at_def update_conv' fun_eq_iff M(2))
      ultimately show ?thesis using M(3,4) ok(2) at get by (auto simp: run emitter_inv_def)
    qed
  qed
  then show "emitter_inv (clearMissing key seen e)"
    "last_at (clearMissing key seen e) k d = (if k = key \<and> d \<notin> set seen then None else last_at e k d)" by simp_all
qed

lemma deleteSource_props:
  assumes "emitter_inv e"
  shows "emitter_inv (deleteSource kind namespace name e)"
    "last_at (deleteSource kind namespace name e) k =
       (if dsKind k = kind \<and> dsNamespace k = namespace \<and> dsName k = name then Map.empty else last_at e k)"
proof -
  let ?hit = "\<lambda>k. dsKind k = kind \<and> dsNamespace k = namespace \<and> dsName k = name"
  let ?f = "\<lambda>key e. if ?hit key then remove_source key e else e"
  have rm: "emitter_inv (remove_source k e)" if "emitter_inv e" for k e
    using that remove_source_props [of e k] by (auto simp: emitter_inv_def)
  have at: "last_at (remove_source k e) = (last_at e)(k := Map.empty)" if "emitter_inv e" for k e
    using that remove_source_props(2) [of e k] by (simp add: emitter_inv_def)
  have loop: "emitter_inv (fold ?f ks e) \<and> last_at (fold ?f ks e) k = (if ?hit k \<and> k \<in> set ks then Map.empty else last_at e k)"
    if "emitter_inv e" for ks e using that
  proof (induction ks arbitrary: e)
    case (Cons key ks)
    then show ?case using rm [OF Cons.prems, of key] at [OF Cons.prems, of key] Cons.IH [of "?f key e"] by auto
  qed simp
  have "last_at e k = Map.empty" if "k \<notin> set (map fst (entries e))"
    using that by (auto simp: last_at_def map_of_eq_None_iff split: option.split) (metis map_of_eq_None_iff option.distinct(1) set_map)
  with loop [OF assms, of "map fst (entries e)"]
  show "emitter_inv (deleteSource kind namespace name e)" "last_at (deleteSource kind namespace name e) k = (if ?hit k then Map.empty else last_at e k)"
    by (auto simp: deleteSource_def)
qed

lemma new_inv: "emitter_inv newDiagnosticEmitter"
  by (auto simp: newDiagnosticEmitter_def emitter_inv_def index_ok_def effective_capacity_def diagnosticSourceCapacity_def)

section \<open>Properties\<close>

text \<open>The operations the controllers perform on the shared emitter, in the order the mutex gives them.\<close>

datatype emitter_op =
    OpReport bool diagnosticSourceKey int diagnostic
  | OpClear diagnosticSourceKey "diagnostic list"
  | OpDelete string string string

fun emitter_step :: "emitter_op \<Rightarrow> diagnosticEmitter \<Rightarrow> diagnosticEmitter \<times> sink list" where
  "emitter_step (OpReport recorder key now d) e = emitter_report recorder key now d e"
| "emitter_step (OpClear key seen) e = (clearMissing key seen e, [])"
| "emitter_step (OpDelete kind namespace name) e = (deleteSource kind namespace name e, [])"

fun emitter_run :: "emitter_op list \<Rightarrow> diagnosticEmitter \<Rightarrow> diagnosticEmitter \<times> sink list list" where
  "emitter_run [] e = (e, [])"
| "emitter_run (op # ops) e = (let (e1, out) = emitter_step op e; (e2, outs) = emitter_run ops e1 in (e2, out # outs))"

lemma emitter_step_inv: "emitter_inv e \<Longrightarrow> emitter_inv (fst (emitter_step op e))"
  by (cases op) (auto simp: clearMissing_props deleteSource_props dest: emitter_report_props(1) [OF _ surjective_pairing])

lemma emitter_run_inv: "emitter_inv e \<Longrightarrow> emitter_inv (fst (emitter_run ops e))"
proof (induction ops arbitrary: e)
  case (Cons op ops)
  from emitter_step_inv [OF Cons.prems, of op] Cons.IH [of "fst (emitter_step op e)"] show ?case
    by (simp add: case_prod_unfold Let_def)
qed simp

text \<open>After every sequence of reports, clearings and deletions the index and the least-recently-used list agree and are
  within their limits.\<close>

lemma emitter_run_bounded:
  "let e = fst (emitter_run ops newDiagnosticEmitter)
   in emitter_inv e \<and> length (lru e) \<le> 4096 \<and> distinct (lru e) \<and> set (lru e) = dom (map_of (entries e)) \<and>
      list_all (\<lambda>(key, cs). length cs \<le> 128) (entries e)"
proof -
  define e where "e = fst (emitter_run ops newDiagnosticEmitter)"
  have cap: "capacity (fst (emitter_run ops e)) = capacity e" for ops e
  proof (induction ops arbitrary: e)
    case (Cons op ops)
    have evict: "capacity (evict_loop cap e) = capacity e" for cap e
    proof (induction cap e rule: evict_loop.induct)
      case (1 cap e)
      then show ?case by (subst evict_loop.simps) (simp add: remove_source_def)
    qed
    have fold: "capacity (fold (\<lambda>key e. if P key then remove_source key e else e) ks e) = capacity e" for P ks e
      by (induction ks arbitrary: e) (auto simp: remove_source_def)
    have "capacity (fst (emitter_step op e)) = capacity e"
      by (cases op) (auto simp: emitter_report_def emitter_state_def clearMissing_def deleteSource_def Let_def evict fold
          remove_source_def move_to_front_def split: option.splits prod.splits if_splits)
    then show ?case by (simp add: Cons.IH case_prod_unfold Let_def)
  qed simp
  have inv: "emitter_inv e" unfolding e_def by (rule emitter_run_inv [OF new_inv])
  have "capacity e = diagnosticSourceCapacity" by (simp add: e_def cap newDiagnosticEmitter_def)
  then have "length (lru e) \<le> 4096" using inv by (simp add: emitter_inv_def effective_capacity_def diagnosticSourceCapacity_def)
  moreover have ok: "index_ok e" using inv by (simp add: emitter_inv_def)
  moreover have "list_all (\<lambda>(key, cs). length cs \<le> 128) (entries e)"
    unfolding list_all_iff using index_okD(1,4) [OF ok] by (fastforce simp: wf_conditions_def diagnosticConditionLimit_def)
  ultimately show ?thesis using inv index_okD [OF ok] unfolding e_def Let_def by blast
qed

text \<open>The history of the emitter: when each diagnostic of a source was last let out, by what went to the sinks.\<close>

fun note_op :: "emitter_op \<Rightarrow> sink list \<Rightarrow> (diagnosticSourceKey \<times> diagnostic \<rightharpoonup> int) \<Rightarrow> (diagnosticSourceKey \<times> diagnostic \<rightharpoonup> int)" where
  "note_op (OpReport recorder key now d) out L = (if out = [] then L else L((key, d) \<mapsto> now))"
| "note_op _ out L = L"

fun last_out :: "emitter_op list \<Rightarrow> diagnosticEmitter \<Rightarrow> (diagnosticSourceKey \<times> diagnostic \<rightharpoonup> int) \<Rightarrow> (diagnosticSourceKey \<times> diagnostic \<rightharpoonup> int)" where
  "last_out [] e L = L"
| "last_out (op # ops) e L = (let (e1, out) = emitter_step op e in last_out ops e1 (note_op op out L))"

text \<open>What is remembered of a diagnostic is its latest emission, if anything.\<close>

definition remembers :: "diagnosticEmitter \<Rightarrow> (diagnosticSourceKey \<times> diagnostic \<rightharpoonup> int) \<Rightarrow> bool" where
  "remembers e L \<longleftrightarrow> (\<forall>k d. last_at e k d = None \<or> last_at e k d = L (k, d))"

lemma sinks_nonempty: "sinks recorder key d \<noteq> []"
  by (simp add: sinks_def split: prod.split)

lemma emitter_step_remembers:
  assumes "emitter_inv e" "remembers e L" "emitter_step op e = (e1, out)"
  shows "remembers e1 (note_op op out L)"
proof (cases op)
  case (OpReport recorder key now d)
  with assms(3) have run: "emitter_report recorder key now d e = (e1, out)" by simp
  note R = emitter_report_props [OF assms(1) run]
  have "last_at e1 k d' = None \<or> last_at e1 k d' = note_op op out L (k, d')" for k d'
  proof (cases "(k, d') = (key, d)")
    case True
    have "last_at e key d = None \<or> last_at e key d = L (key, d)" using assms(2) unfolding remembers_def by blast
    with True R(2,3) sinks_nonempty show ?thesis by (simp add: OpReport)
  next
    case False
    then have "note_op op out L (k, d') = L (k, d')" by (auto simp: OpReport)
    with R(4) [OF False] assms(2) show ?thesis unfolding remembers_def by metis
  qed
  then show ?thesis by (simp add: remembers_def)
next
  case (OpClear key seen)
  then have "last_at e1 k d = (if k = key \<and> d \<notin> set seen then None else last_at e k d)" for k d
    using assms(3) clearMissing_props(2) [OF assms(1), of key seen] by auto
  then show ?thesis using assms(2) unfolding remembers_def OpClear note_op.simps by metis
next
  case (OpDelete kind namespace name)
  then have "last_at e1 k = (if dsKind k = kind \<and> dsNamespace k = namespace \<and> dsName k = name then Map.empty else last_at e k)" for k
    using assms(3) deleteSource_props(2) [OF assms(1)] by auto
  then show ?thesis using assms(2) unfolding remembers_def OpDelete note_op.simps by metis
qed

lemma emitter_run_remembers:
  assumes "emitter_inv e" "remembers e L"
  shows "remembers (fst (emitter_run ops e)) (last_out ops e L)"
  using assms
proof (induction ops arbitrary: e L)
  case (Cons op ops)
  obtain e1 out where step: "emitter_step op e = (e1, out)" by fastforce
  with emitter_step_inv [OF Cons.prems(1), of op] have "emitter_inv e1" by simp
  from Cons.IH [OF this emitter_step_remembers [OF Cons.prems step]] show ?case by (simp add: step case_prod_unfold Let_def)
qed simp

lemma emitter_run_interval: "emitter_inv e \<Longrightarrow> interval (fst (emitter_run ops e)) = interval e"
proof (induction ops arbitrary: e)
  case (Cons op ops)
  have fold: "interval (fold (\<lambda>key e. if P key then remove_source key e else e) ks e) = interval e" for P ks e
    by (induction ks arbitrary: e) (auto simp: remove_source_def)
  have "interval (fst (emitter_step op e)) = interval e"
  proof (cases op)
    case (OpReport recorder key now d)
    then show ?thesis using emitter_report_props(5) [OF Cons.prems surjective_pairing] by simp
  qed (auto simp: clearMissing_def deleteSource_def Let_def fold remove_source_def move_to_front_def split: option.split)
  with Cons.IH [OF emitter_step_inv [OF Cons.prems, of op]] show ?case by (simp add: case_prod_unfold Let_def)
qed simp

lemma suppressed_recent:
  assumes "snd (emitter_report recorder key now d (fst (emitter_run ops newDiagnosticEmitter))) = []"
  shows "\<exists>t. last_out ops newDiagnosticEmitter Map.empty (key, d) = Some t \<and> time_Sub now t < diagnosticRepeatInterval"
proof -
  let ?e = "fst (emitter_run ops newDiagnosticEmitter)"
  have inv: "emitter_inv ?e" by (rule emitter_run_inv [OF new_inv])
  have "\<not> due ?e key d now"
    using assms emitter_report_props(2) [OF inv surjective_pairing, of recorder key now d] sinks_nonempty [of recorder key d] by metis
  then obtain t where t: "last_at ?e key d = Some t" "time_Sub now t < interval ?e" by (auto simp: due_def split: option.splits)
  have "remembers newDiagnosticEmitter Map.empty" by (simp add: remembers_def last_at_def newDiagnosticEmitter_def)
  from emitter_run_remembers [OF new_inv this, of ops] t(1)
  have "last_out ops newDiagnosticEmitter Map.empty (key, d) = Some t" unfolding remembers_def by (metis option.distinct(1))
  moreover have "interval ?e = diagnosticRepeatInterval" using emitter_run_interval [OF new_inv, of ops] by (simp add: newDiagnosticEmitter_def)
  ultimately show ?thesis using t(2) by auto
qed

text \<open>C37: a diagnostic is held back only while the emitter remembers it and it is not yet due again.  A report is
  passed on to the event recorder and the log exactly when the emitter remembers no emission of this
  diagnostic for this source, or one at least the repeat interval ago, and then this instant is remembered;
  otherwise nothing is passed on and the remembered instant stays.  What is remembered is the latest
  emission: after any sequence of operations on a new emitter a report is held back only if this diagnostic
  of this source was really let out, the last time less than the repeat interval ago; nothing new and nothing
  overdue is lost.  The emitter forgets on purpose, so a diagnostic can be let out again sooner: a successful
  reconciliation forgets exactly the conditions of its source that it has not seen, a deleted source is
  forgotten, and a report can make it forget other conditions of its source, and other sources only when its
  source is new and the capacity is reached.\<close>

theorem emitter_report_correct:
  assumes "emitter_inv e"
  shows "(let (e', out) = emitter_report recorder key now d e; emitted = due e key d now
    in out = (if emitted then sinks recorder key d else []) \<and>
       last_at e' key d = (if emitted then Some now else last_at e key d) \<and>
       (\<forall>k d'. (k, d') \<noteq> (key, d) \<longrightarrow> last_at e' k d' = last_at e k d' \<or> last_at e' k d' = None) \<and>
       (\<forall>k. k \<noteq> key \<longrightarrow> key \<in> set (lru e) \<or> int (length (lru e)) < effective_capacity e \<longrightarrow> last_at e' k = last_at e k)) \<and>
    (\<forall>ops. e = fst (emitter_run ops newDiagnosticEmitter) \<longrightarrow> snd (emitter_report recorder key now d e) = [] \<longrightarrow>
       (\<exists>t. last_out ops newDiagnosticEmitter Map.empty (key, d) = Some t \<and> time_Sub now t < diagnosticRepeatInterval)) \<and>
    (\<forall>k d'. last_at (clearMissing key seen e) k d' = (if k = key \<and> d' \<notin> set seen then None else last_at e k d')) \<and>
    (\<forall>k. last_at (deleteSource kind namespace name e) k =
       (if dsKind k = kind \<and> dsNamespace k = namespace \<and> dsName k = name then Map.empty else last_at e k))"
proof -
  obtain e' out where run: "emitter_report recorder key now d e = (e', out)" by fastforce
  note R = emitter_report_props [OF assms run]
  have "index_ok e" using assms by (simp add: emitter_inv_def)
  from index_okD(3) [OF this] have key: "key \<in> set (lru e) \<longleftrightarrow> map_of (entries e) key \<noteq> None" by auto
  have "snd (emitter_report recorder key now d e) = [] \<longrightarrow>
      (\<exists>t. last_out ops newDiagnosticEmitter Map.empty (key, d) = Some t \<and> time_Sub now t < diagnosticRepeatInterval)"
    if "e = fst (emitter_run ops newDiagnosticEmitter)" for ops
    using suppressed_recent [of recorder key now d ops] that by blast
  moreover have "let (e', out) = emitter_report recorder key now d e; emitted = due e key d now
    in out = (if emitted then sinks recorder key d else []) \<and>
       last_at e' key d = (if emitted then Some now else last_at e key d) \<and>
       (\<forall>k d'. (k, d') \<noteq> (key, d) \<longrightarrow> last_at e' k d' = last_at e k d' \<or> last_at e' k d' = None) \<and>
       (\<forall>k. k \<noteq> key \<longrightarrow> key \<in> set (lru e) \<or> int (length (lru e)) < effective_capacity e \<longrightarrow> last_at e' k = last_at e k)"
    unfolding run Let_def prod.case key using R(2,3,4,6) by blast
  ultimately show ?thesis using clearMissing_props(2) [OF assms] deleteSource_props(2) [OF assms] by blast
qed

definition sample_source :: diagnosticSourceKey where
  "sample_source = \<lparr>dsKind = SourceKindIngress, dsNamespace = ''apps'', dsName = ''web'', dsUID = ''uid-1''\<rparr>"

definition sample_diagnostic :: diagnostic where
  "sample_diagnostic = (DiagnosticWarning, ''NoProvidersSelected'', ''Ingress is enabled but selects no DNSProviders'')"

text \<open>Reported, reported again a minute later and held back, cleared by a successful reconciliation without it, and
  let out at once when it returns.\<close>

theorem emitter_report_correct_witness:
  "let first = OpReport True sample_source 1000 sample_diagnostic; clear = OpClear sample_source [];
     e1 = fst (emitter_run [first] newDiagnosticEmitter); e2 = fst (emitter_run [first, clear] newDiagnosticEmitter)
   in emitter_report True sample_source (1000 + 60000000000) sample_diagnostic e1 = (e1, []) \<and>
     last_out [first] newDiagnosticEmitter Map.empty (sample_source, sample_diagnostic) = Some 1000 \<and>
     snd (emitter_report True sample_source (1000 + 60000000000) sample_diagnostic e2) = sinks True sample_source sample_diagnostic"
proof -
  let ?first = "OpReport True sample_source 1000 sample_diagnostic"
  define e1 where "e1 = fst (emitter_run [?first] newDiagnosticEmitter)"
  define e2 where "e2 = fst (emitter_run [?first, OpClear sample_source []] newDiagnosticEmitter)"
  have inv: "emitter_inv e1" "emitter_inv e2" unfolding e1_def e2_def by (rule emitter_run_inv [OF new_inv])+
  have quiet: "emitter_report True sample_source (1000 + 60000000000) sample_diagnostic e1 = (e1, [])"
    unfolding e1_def by code_simp
  note C = emitter_report_correct [of _ True sample_source "1000 + 60000000000" sample_diagnostic]
  have "snd (emitter_report True sample_source (1000 + 60000000000) sample_diagnostic e1) = []" by (simp only: quiet snd_conv)
  with C [OF inv(1), THEN conjunct2, THEN conjunct1, rule_format, OF e1_def]
  obtain t where t: "last_out [?first] newDiagnosticEmitter Map.empty (sample_source, sample_diagnostic) = Some t" by blast
  have "t = 1000" using t by (simp add: case_prod_unfold Let_def split: if_splits)
  with t have first: "last_out [?first] newDiagnosticEmitter Map.empty (sample_source, sample_diagnostic) = Some 1000" by simp
  have "e2 = clearMissing sample_source [] e1" by (simp add: e1_def e2_def case_prod_unfold Let_def)
  then have "last_at e2 sample_source sample_diagnostic = None" using clearMissing_props(2) [OF inv(1)] by simp
  then have "due e2 sample_source sample_diagnostic (1000 + 60000000000)" by (simp add: due_def)
  then have "snd (emitter_report True sample_source (1000 + 60000000000) sample_diagnostic e2) = sinks True sample_source sample_diagnostic"
    using C [OF inv(2), THEN conjunct1] by (simp add: Let_def case_prod_unfold)
  with quiet first show ?thesis unfolding Let_def e1_def e2_def by blast
qed

lemma note_runes_length: "length acc \<le> limit \<Longrightarrow> length (note_runes limit acc rs) \<le> limit"
  by (induction rs arbitrary: acc) auto

lemma note_runes_prefix: "\<exists>k. note_runes limit acc rs = acc @ concat (take k rs)"
proof (induction rs arbitrary: acc)
  case (Cons r rs)
  from Cons.IH [of "acc @ r"] obtain k where "note_runes limit (acc @ r) rs = (acc @ r) @ concat (take k rs)" by blast
  then show ?case by (cases "length acc + length r > limit") (auto intro: exI [of _ 0] exI [of _ "Suc k"])
qed simp

text \<open>A message that fits is passed on unchanged; a longer one is cut at the border of a rune and marked.\<close>

lemma event_note_bounded:
  "length (eventDiagnosticMessage m) \<le> 1024 \<and>
   (if length m \<le> 1024 then eventDiagnosticMessage m = m
    else \<exists>k. eventDiagnosticMessage m = concat (take k (runes m)) @ diagnosticEventTruncationSuffix)"
proof (cases "length m \<le> 1024")
  case True
  then show ?thesis by (simp add: eventDiagnosticMessage_def diagnosticEventNoteLimit_def)
next
  case False
  let ?limit = "1024 - length diagnosticEventTruncationSuffix"
  have "length (note_runes ?limit '''' (runes m)) \<le> ?limit" by (rule note_runes_length) simp
  moreover have "length diagnosticEventTruncationSuffix \<le> 1024" by (simp add: diagnosticEventTruncationSuffix_def)
  moreover obtain k where "note_runes ?limit '''' (runes m) = concat (take k (runes m))"
    using note_runes_prefix [of ?limit "''''" "runes m"] by auto
  ultimately show ?thesis using False
    by (auto simp: eventDiagnosticMessage_def diagnosticEventNoteLimit_def)
qed

text \<open>C36: what the reporter holds and sends is bounded.  After every sequence of reports, clearings and deletions the
  index and the least-recently-used list agree, hold at most 4096 sources, each once, and at most 128
  conditions for each of them.  And an event note never exceeds the 1024 bytes the API accepts: a message that fits
  is passed on unchanged; a longer one is cut at the border of a rune, never inside one, and marked.\<close>

theorem emitter_bounded:
  "(let e = fst (emitter_run ops newDiagnosticEmitter)
    in emitter_inv e \<and> length (lru e) \<le> 4096 \<and> distinct (lru e) \<and> set (lru e) = dom (map_of (entries e)) \<and>
       list_all (\<lambda>(key, cs). length cs \<le> 128) (entries e)) \<and>
   length (eventDiagnosticMessage m) \<le> 1024 \<and>
   (if length m \<le> 1024 then eventDiagnosticMessage m = m
    else \<exists>k. eventDiagnosticMessage m = concat (take k (runes m)) @ diagnosticEventTruncationSuffix)"
  using emitter_run_bounded [of ops] event_note_bounded [of m] by blast

end
