(* ===== verification/Metrics.thy ===== *)
theory Metrics
  imports Prelude "HOL-Library.AList"
begin

text \<open>
  \<^verbatim>\<open>internal/controller/metrics.go\<close>: the bookkeeping behind the operational gauges.  The Prometheus
  collectors are modelled by their values: gauges and counters of integers (a count below \<open>2\<^sup>5\<^sup>3\<close> is exact as
  a \<^verbatim>\<open>float64\<close>) and the list of observed durations.  A nil \<^verbatim>\<open>*Metrics\<close>, on which every method does nothing,
  is \<open>None\<close>.  The specification is \<open>last_source\<close> and \<open>last_endpoint\<close>: what the last call said about a key.
\<close>

record Metrics =
  mSources :: "(string \<times> string list) list"
  mEndpoints :: "(string \<times> int) list"
  mDuration :: "(string \<times> int) list"
  mErrors :: "(string \<times> int) list"
  mSource :: "(string \<times> int) list"
  mGenerated :: int
  mPending :: int

definition NewMetrics :: Metrics where
  "NewMetrics = \<lparr>mSources = [], mEndpoints = [], mDuration = [], mErrors = [], mSource = [], mGenerated = 0, mPending = 0\<rparr>"

definition count :: "(string \<times> int) list \<Rightarrow> string \<Rightarrow> int" where
  "count m k = (case map_of m k of None \<Rightarrow> 0 | Some n \<Rightarrow> n)"

definition Observe :: "string \<Rightarrow> int \<Rightarrow> bool \<Rightarrow> Metrics option \<Rightarrow> Metrics option" where
  "Observe controller elapsed failed m =
     map_option
       (\<lambda>m. let m1 = m\<lparr>mDuration := mDuration m @ [(controller, elapsed)]\<rparr>
            in if failed then m1\<lparr>mErrors := AList.update controller (count (mErrors m1) controller + 1) (mErrors m1)\<rparr> else m1) m"

definition source_set :: "Metrics \<Rightarrow> string \<Rightarrow> string list" where
  "source_set m kind = (case map_of (mSources m) kind of None \<Rightarrow> [] | Some s \<Rightarrow> s)"

definition set_source :: "string \<Rightarrow> string \<Rightarrow> bool \<Rightarrow> Metrics \<Rightarrow> Metrics" where
  "set_source kind key managed m =
     (let s = source_set m kind; s' = (if managed then List.insert key s else removeAll key s)
      in m\<lparr>mSources := AList.update kind s' (mSources m), mSource := AList.update kind (int (length s')) (mSource m)\<rparr>)"

definition SetSource :: "string \<Rightarrow> string \<Rightarrow> bool \<Rightarrow> Metrics option \<Rightarrow> Metrics option" where
  "SetSource kind key managed m = map_option (set_source kind key managed) m"

definition set_endpoint :: "string \<Rightarrow> bool \<Rightarrow> int \<Rightarrow> Metrics \<Rightarrow> Metrics" where
  "set_endpoint key managed pending m =
     (let es = (if managed then AList.update key pending (mEndpoints m) else AList.delete key (mEndpoints m));
          total = foldl (\<lambda>total (_, count). total + count) 0 es
      in m\<lparr>mEndpoints := es, mGenerated := int (length es), mPending := total\<rparr>)"

definition SetEndpoint :: "string \<Rightarrow> bool \<Rightarrow> int \<Rightarrow> Metrics option \<Rightarrow> Metrics option" where
  "SetEndpoint key managed pending m = map_option (set_endpoint key managed pending) m"

section \<open>The gauges count what the last calls said\<close>

datatype metric_op = OpSource string string bool | OpEndpoint string bool int

fun metric_step :: "Metrics \<Rightarrow> metric_op \<Rightarrow> Metrics" where
  "metric_step m (OpSource kind key managed) = set_source kind key managed m"
| "metric_step m (OpEndpoint key managed pending) = set_endpoint key managed pending m"

text \<open>The specification: whether a source is managed, and the pending targets of an endpoint.\<close>

fun last_source :: "metric_op list \<Rightarrow> string \<Rightarrow> string set" where
  "last_source [] kind = {}"
| "last_source (OpSource kind' key managed # ops) kind =
     (if kind' = kind then (if managed then insert key (last_source ops kind) else last_source ops kind - {key}) else last_source ops kind)"
| "last_source (OpEndpoint _ _ _ # ops) kind = last_source ops kind"

fun last_endpoint :: "metric_op list \<Rightarrow> string \<rightharpoonup> int" where
  "last_endpoint [] = Map.empty"
| "last_endpoint (OpEndpoint key managed pending # ops) = (last_endpoint ops)(key := if managed then Some pending else None)"
| "last_endpoint (OpSource _ _ _ # ops) = last_endpoint ops"

definition metrics_ok :: "metric_op list \<Rightarrow> Metrics \<Rightarrow> bool" where
  "metrics_ok ops m \<longleftrightarrow>
     (\<forall>kind. distinct (source_set m kind) \<and> set (source_set m kind) = last_source ops kind \<and>
             count (mSource m) kind = int (length (source_set m kind))) \<and>
     distinct (map fst (mEndpoints m)) \<and> map_of (mEndpoints m) = last_endpoint ops \<and>
     mGenerated m = int (length (mEndpoints m)) \<and> mPending m = sum_list (map snd (mEndpoints m))"

lemma foldl_total: "foldl (\<lambda>total (_, count). total + count) a es = a + (sum_list (map snd es) :: int)"
  by (induction es arbitrary: a) auto

lemma set_source_simps:
  "source_set (set_source kind key managed m) k =
     (if k = kind then if managed then List.insert key (source_set m kind) else removeAll key (source_set m kind) else source_set m k)"
  "count (mSource (set_source kind key managed m)) k =
     (if k = kind then int (length (source_set (set_source kind key managed m) kind)) else count (mSource m) k)"
  "mEndpoints (set_source kind key managed m) = mEndpoints m" "mGenerated (set_source kind key managed m) = mGenerated m"
  "mPending (set_source kind key managed m) = mPending m"
  by (simp_all add: set_source_def Let_def source_set_def count_def update_conv')

lemma set_endpoint_simps:
  "source_set (set_endpoint key managed pending m) k = source_set m k" "mSource (set_endpoint key managed pending m) = mSource m"
  "mEndpoints (set_endpoint key managed pending m) =
     (if managed then AList.update key pending (mEndpoints m) else AList.delete key (mEndpoints m))"
  "mGenerated (set_endpoint key managed pending m) = int (length (mEndpoints (set_endpoint key managed pending m)))"
  "mPending (set_endpoint key managed pending m) = sum_list (map snd (mEndpoints (set_endpoint key managed pending m)))"
  by (simp_all add: set_endpoint_def Let_def source_set_def foldl_total)

lemma metric_step_ok: "metrics_ok ops m \<Longrightarrow> metrics_ok (op # ops) (metric_step m op)"
proof (cases op)
  case (OpSource kind key managed)
  then show "metrics_ok ops m \<Longrightarrow> ?thesis"
    by (auto simp: metrics_ok_def set_source_simps distinct_removeAll)
next
  case (OpEndpoint key managed pending)
  then show "metrics_ok ops m \<Longrightarrow> ?thesis"
    by (auto simp: metrics_ok_def set_endpoint_simps update_conv' delete_conv' distinct_update distinct_delete)
qed

lemma metric_run_ok: "metrics_ok done m \<Longrightarrow> metrics_ok (rev ops @ done) (foldl metric_step m ops)"
  by (induction ops arbitrary: "done" m) (auto dest: metric_step_ok [of "done" m for "done" m])

lemma sum_distinct_map_of:
  assumes "distinct (map fst es)"
  shows "(\<Sum>k \<in> dom (map_of es). the (map_of es k)) = sum_list (map snd es)"
proof -
  have "sum_list (map (\<lambda>p. the (map_of es (fst p))) es) = sum_list (map snd es)"
    using assms by (intro arg_cong [where f = sum_list] map_cong) auto
  then show ?thesis using assms
    by (simp add: dom_map_of_conv_image_fst sum_list_distinct_conv_sum_set [symmetric] comp_def flip: set_map)
qed

text \<open>C38: the gauges are right after every history of the controllers.  The gauge of a source kind is the
  number of keys that the last call for them reported as managed; the generated gauge is the number of
  DNSEndpoints whose last report was managed, and the pending gauge is the sum of their pending targets.\<close>

theorem gauges_correct:
  "let m = foldl metric_step NewMetrics ops; managed = last_endpoint (rev ops)
   in count (mSource m) kind = int (card (last_source (rev ops) kind)) \<and> mGenerated m = int (card (dom managed)) \<and>
      mPending m = (\<Sum>k \<in> dom managed. the (managed k))"
proof -
  have "metrics_ok [] NewMetrics" by (simp add: metrics_ok_def NewMetrics_def source_set_def count_def)
  from metric_run_ok [OF this, of ops]
  have ok: "metrics_ok (rev ops) (foldl metric_step NewMetrics ops)" by simp
  let ?m = "foldl metric_step NewMetrics ops"
  have E: "map_of (mEndpoints ?m) = last_endpoint (rev ops)" "distinct (map fst (mEndpoints ?m))" using ok by (simp_all add: metrics_ok_def)
  have "card (dom (last_endpoint (rev ops))) = length (mEndpoints ?m)"
    unfolding E(1) [symmetric] dom_map_of_conv_image_fst using distinct_card [OF E(2)] by simp
  moreover have "card (last_source (rev ops) kind) = length (source_set ?m kind)"
    using ok by (auto simp: metrics_ok_def dest!: spec [of _ kind] distinct_card)
  ultimately show ?thesis using ok sum_distinct_map_of [OF E(2)] by (simp add: Let_def metrics_ok_def E(1))
qed

end
