(* ===== verification/Lifecycle.thy ===== *)
theory Lifecycle
  imports Errors Go_Time Go_Json
begin

text \<open>
  \<^verbatim>\<open>internal/dnsendpoint/lifecycle.go\<close>: the state that a managed DNSEndpoint carries in its lifecycle
  annotation, a versioned JSON document with the targets that are waiting for their deletion
  deadline.  \<open>decode_lifecycle\<close> is \<^verbatim>\<open>json.Decoder.Decode\<close> with \<^verbatim>\<open>DisallowUnknownFields\<close> for the two
  struct types; \<open>parseLifecycle\<close> adds the checks of the source, \<open>marshalLifecycle\<close> prints.  A time is
  its number of nanoseconds since the Unix epoch.  The wording of the standard library's own errors is
  not modelled; \<open>std_error\<close> stands for it.

  \<open>parseLifecycle_wf\<close> shows that whatever is accepted is well formed, \<open>parse_marshal\<close> that a valid
  state survives printing and reading; the \<open>codec\<close> interface is discharged for durations, timestamps
  and lifecycle states.
\<close>

section \<open>Data\<close>

record pendingTarget =
  pDNSName :: string
  pRecordType :: string
  pTarget :: string
  pDeadline :: string

record lifecycle =
  Version :: int
  Pending :: "pendingTarget list"

text \<open>The comparable struct \<^verbatim>\<open>targetKey{dnsName, recordType, target}\<close>.\<close>

type_synonym targetKey = "string \<times> string \<times> string"

definition lifecycleVersion :: int where
  "lifecycleVersion = 1"

definition pending_key :: "pendingTarget \<Rightarrow> targetKey" where
  "pending_key p = (pDNSName p, pRecordType p, pTarget p)"

section \<open>Decoding JSON into the structs\<close>

text \<open>Field names match exactly or after folding case, where U+017F and U+212A fold to ASCII letters.\<close>

definition upper_byte :: "char \<Rightarrow> char" where
  "upper_byte c = (if 97 \<le> code c \<and> code c \<le> 122 then byte (code c - 32) else c)"

fun fold_name :: "string \<Rightarrow> string" where
  "fold_name [] = []"
| "fold_name (c # s) =
     (if c = CHR 0xC5 \<and> prefix [CHR 0xBF] s then CHR ''S'' # fold_name (drop 1 s)
      else if c = CHR 0xE2 \<and> prefix [CHR 0x84, CHR 0xAA] s then CHR ''K'' # fold_name (drop 2 s)
      else upper_byte c # fold_name s)"

definition is_field :: "string \<Rightarrow> string \<Rightarrow> bool" where
  "is_field name key \<longleftrightarrow> key = name \<or> fold_name key = fold_name name"

definition json_integer :: "string \<Rightarrow> bool" where
  "json_integer t =
     (let d = (if prefix ''-'' t then tl t else t)
      in d \<noteq> [] \<and> list_all is_digit d \<and> (hd d = CHR ''0'' \<longrightarrow> length d = 1))"

definition decode_int :: "int \<Rightarrow> json \<Rightarrow> int option" where
  "decode_int old v =
     (case v of
        JNull \<Rightarrow> Some old
      | JNum t \<Rightarrow> (if json_integer t then ParseInt t else None)
      | _ \<Rightarrow> None)"

definition decode_str :: "string \<Rightarrow> json \<Rightarrow> string option" where
  "decode_str old v = (case v of JNull \<Rightarrow> Some old | JStr s \<Rightarrow> Some s | _ \<Rightarrow> None)"

fun decode_pending_members :: "pendingTarget \<Rightarrow> (string \<times> json) list \<Rightarrow> pendingTarget option" where
  "decode_pending_members p [] = Some p"
| "decode_pending_members p ((k, v) # ms) =
     (case (if is_field ''dnsName'' k then map_option (\<lambda>x. p\<lparr>pDNSName := x\<rparr>) (decode_str (pDNSName p) v)
            else if is_field ''recordType'' k
            then map_option (\<lambda>x. p\<lparr>pRecordType := x\<rparr>) (decode_str (pRecordType p) v)
            else if is_field ''target'' k then map_option (\<lambda>x. p\<lparr>pTarget := x\<rparr>) (decode_str (pTarget p) v)
            else if is_field ''deadline'' k
            then map_option (\<lambda>x. p\<lparr>pDeadline := x\<rparr>) (decode_str (pDeadline p) v)
            else None) of
        None \<Rightarrow> None
      | Some p' \<Rightarrow> decode_pending_members p' ms)"

definition decode_pending :: "pendingTarget \<Rightarrow> json \<Rightarrow> pendingTarget option" where
  "decode_pending p v =
     (case v of JNull \<Rightarrow> Some p | JObj ms \<Rightarrow> decode_pending_members p ms | _ \<Rightarrow> None)"

definition zero_pending :: pendingTarget where
  "zero_pending = \<lparr>pDNSName = '''', pRecordType = '''', pTarget = '''', pDeadline = ''''\<rparr>"

text \<open>
  A slice is decoded in place: element \<open>i\<close> starts from what the backing array holds at \<open>i\<close> (a
  repeated \<^verbatim>\<open>pending\<close> key can therefore see values of the earlier one).  The state is the backing array
  and the length of the slice.
\<close>

fun decode_elems :: "pendingTarget list \<Rightarrow> json list \<Rightarrow> pendingTarget list option" where
  "decode_elems store [] = Some []"
| "decode_elems store (v # vs) =
     (case decode_pending (case store of [] \<Rightarrow> zero_pending | p # _ \<Rightarrow> p) v of
        None \<Rightarrow> None
      | Some p \<Rightarrow> map_option (Cons p) (decode_elems (tl store) vs))"

definition decode_slice :: "pendingTarget list \<times> nat \<Rightarrow> json \<Rightarrow> (pendingTarget list \<times> nat) option" where
  "decode_slice st v =
     (case v of
        JNull \<Rightarrow> Some ([], 0)
      | JArr [] \<Rightarrow> Some ([], 0)
      | JArr vs \<Rightarrow> map_option (\<lambda>ps. (ps @ drop (length vs) (fst st), length vs)) (decode_elems (fst st) vs)
      | _ \<Rightarrow> None)"

fun decode_members ::
  "int \<times> pendingTarget list \<times> nat \<Rightarrow> (string \<times> json) list \<Rightarrow> (int \<times> pendingTarget list \<times> nat) option" where
  "decode_members st [] = Some st"
| "decode_members (ver, sl) ((k, v) # ms) =
     (case (if is_field ''version'' k then map_option (\<lambda>n. (n, sl)) (decode_int ver v)
            else if is_field ''pending'' k then map_option (\<lambda>s. (ver, s)) (decode_slice sl v)
            else None) of
        None \<Rightarrow> None
      | Some st \<Rightarrow> decode_members st ms)"

definition decode_lifecycle :: "json \<Rightarrow> lifecycle option" where
  "decode_lifecycle v =
     map_option (\<lambda>(ver, store, n). \<lparr>Version = ver, Pending = take n store\<rparr>)
       (case v of
          JNull \<Rightarrow> Some (0, [], 0)
        | JObj ms \<Rightarrow> decode_members (0, [], 0) ms
        | _ \<Rightarrow> None)"

section \<open>Operations\<close>

definition sortPending :: "pendingTarget list \<Rightarrow> pendingTarget list" where
  "sortPending values = sort_key pending_key values"

definition check_deadline :: "string \<Rightarrow> int result" where
  "check_deadline text =
     (case ParseRFC3339 text of
        None \<Rightarrow> Inl (WrapErr (Sprintf ''parse lifecycle deadline %q: '' [FStr text]) std_error)
      | Some (parsed, offset) \<Rightarrow>
          (if offset \<noteq> 0 \<or> FormatRFC3339 parsed \<noteq> text
           then Inl (ErrMsg (Sprintf ''lifecycle deadline %q is not canonical UTC RFC3339Nano'' [FStr text]))
           else Inr parsed))"

fun check_pending :: "targetKey list \<Rightarrow> pendingTarget list \<Rightarrow> goerr option" where
  "check_pending seen [] = None"
| "check_pending seen (p # ps) =
     (if pDNSName p = '''' \<or> pRecordType p = '''' \<or> pTarget p = ''''
      then Some (ErrMsg ''lifecycle pending target has an empty identity field'')
      else case check_deadline (pDeadline p) of
             Inl e \<Rightarrow> Some e
           | Inr _ \<Rightarrow>
               (if pending_key p \<in> set seen
                then Some (ErrMsg (Sprintf ''duplicate lifecycle pending target %q/%s/%s''
                       [FStr (pDNSName p), FStr (pRecordType p), FStr (pTarget p)]))
                else check_pending (pending_key p # seen) ps))"

text \<open>Decoding into \<^verbatim>\<open>&struct{}{}\<close> with unknown fields refused succeeds on an empty object or null.\<close>

definition decodes_empty :: "(json \<times> string) option \<Rightarrow> bool" where
  "decodes_empty v = (case v of Some (JObj [], _) \<Rightarrow> True | Some (JNull, _) \<Rightarrow> True | _ \<Rightarrow> False)"

definition parseLifecycle :: "string \<Rightarrow> lifecycle result" where
  "parseLifecycle value =
     (if value = '''' then Inl (ErrMsg ''lifecycle annotation is required'')
      else case parse_json value of
             None \<Rightarrow> Inl (WrapErr ''parse lifecycle annotation: '' std_error)
           | Some (v, rest) \<Rightarrow>
               (case decode_lifecycle v of
                  None \<Rightarrow> Inl (WrapErr ''parse lifecycle annotation: '' std_error)
                | Some state \<Rightarrow>
                    (if skip_ws rest \<noteq> []
                     then (if decodes_empty (parse_json rest)
                           then Inl (ErrMsg ''parse lifecycle annotation: multiple JSON values'')
                           else Inl (WrapErr ''parse lifecycle annotation trailing data: '' std_error))
                     else if Version state \<noteq> lifecycleVersion
                     then Inl (ErrMsg (Sprintf ''unknown lifecycle version %d'' [FInt (Version state)]))
                     else case check_pending [] (Pending state) of
                            Some e \<Rightarrow> Inl e
                          | None \<Rightarrow> Inr (state\<lparr>Pending := sortPending (Pending state)\<rparr>))))"

definition pending_json :: "pendingTarget \<Rightarrow> json" where
  "pending_json p =
     JObj [(''dnsName'', JStr (pDNSName p)), (''recordType'', JStr (pRecordType p)),
           (''target'', JStr (pTarget p)), (''deadline'', JStr (pDeadline p))]"

definition lifecycle_json :: "lifecycle \<Rightarrow> json" where
  "lifecycle_json state =
     JObj [(''version'', JNum (Itoa (Version state))), (''pending'', JArr (map pending_json (Pending state)))]"

definition marshalLifecycle :: "lifecycle \<Rightarrow> string result" where
  "marshalLifecycle state =
     Inr (print_json (lifecycle_json (state\<lparr>Version := lifecycleVersion, Pending := sortPending (Pending state)\<rparr>)))"

text \<open>The zero \<^verbatim>\<open>time.Time\<close>, 1 January of year 1, is what a failed \<^verbatim>\<open>time.Parse\<close> returns.\<close>

definition zero_time :: int where
  "zero_time = - 62135596800 * 10 ^ 9"

definition deadline :: "pendingTarget \<Rightarrow> int" where
  "deadline p = (case ParseRFC3339 (pDeadline p) of None \<Rightarrow> zero_time | Some (parsed, _) \<Rightarrow> parsed)"

definition PendingTargetCount :: "string \<Rightarrow> int result" where
  "PendingTargetCount value = map_sum id (\<lambda>state. int (length (Pending state))) (parseLifecycle value)"

record PendingTarget =
  tDNSName :: string
  tRecordType :: string
  tTarget :: string
  tDeadline :: int

definition InspectLifecycle :: "string \<Rightarrow> PendingTarget list result" where
  "InspectLifecycle value =
     (case parseLifecycle value of
        Inl e \<Rightarrow> Inl e
      | Inr state \<Rightarrow>
          Inr (map (\<lambda>item. \<lparr>tDNSName = pDNSName item, tRecordType = pRecordType item, tTarget = pTarget item,
                            tDeadline = deadline item\<rparr>) (Pending state)))"

section \<open>Well-formed states\<close>

definition canonical_deadline :: "string \<Rightarrow> bool" where
  "canonical_deadline s \<longleftrightarrow> (\<exists>t. check_deadline s = Inr t)"

definition wf_pending :: "pendingTarget \<Rightarrow> bool" where
  "wf_pending p \<longleftrightarrow> pDNSName p \<noteq> '''' \<and> pRecordType p \<noteq> '''' \<and> pTarget p \<noteq> '''' \<and> canonical_deadline (pDeadline p)"

definition wf_pendings :: "pendingTarget list \<Rightarrow> bool" where
  "wf_pendings ps \<longleftrightarrow> (\<forall>p \<in> set ps. wf_pending p) \<and> distinct (map pending_key ps)"

definition wf_lifecycle :: "lifecycle \<Rightarrow> bool" where
  "wf_lifecycle st \<longleftrightarrow> Version st = lifecycleVersion \<and> wf_pendings (Pending st) \<and> sorted (map pending_key (Pending st))"

lemma check_pending_iff:
  "check_pending seen ps = None \<longleftrightarrow> wf_pendings ps \<and> pending_key ` set ps \<inter> set seen = {}"
  by (induction ps arbitrary: seen) (auto simp: wf_pendings_def wf_pending_def canonical_deadline_def split: sum.splits)

lemma wf_pendings_sort [simp]: "wf_pendings (sortPending ps) \<longleftrightarrow> wf_pendings ps"
  by (simp add: wf_pendings_def sortPending_def distinct_map)

lemma set_sortPending [simp]: "set (sortPending ps) = set ps"
  by (simp add: sortPending_def)

lemma sortPending_id: "sorted (map pending_key ps) \<Longrightarrow> sortPending ps = ps"
  by (simp add: sortPending_def sort_key_id_if_sorted)

lemma wf_lifecycle_sort: "wf_lifecycle st \<Longrightarrow> sortPending (Pending st) = Pending st"
  by (simp add: wf_lifecycle_def sortPending_id)

lemma parseLifecycle_wf: "parseLifecycle value = Inr st \<Longrightarrow> wf_lifecycle st"
  by (auto simp: parseLifecycle_def wf_lifecycle_def check_pending_iff sortPending_def
      wf_pendings_sort [unfolded sortPending_def] split: if_splits option.splits prod.splits)

lemma canonical_deadline_Format: "four_digit_year t \<Longrightarrow> check_deadline (FormatRFC3339 t) = Inr t"
  by (simp add: check_deadline_def ParseRFC3339_Format)

lemma check_deadline_deadline: "check_deadline (pDeadline p) = Inr t \<Longrightarrow> deadline p = t"
  by (auto simp: check_deadline_def deadline_def split: option.splits if_splits)

section \<open>Round trip\<close>

lemma is_field_simps [simp]:
  "is_field ''dnsName'' ''dnsName''" "\<not> is_field ''dnsName'' ''recordType''" "\<not> is_field ''dnsName'' ''target''"
  "\<not> is_field ''dnsName'' ''deadline''" "is_field ''recordType'' ''recordType''"
  "\<not> is_field ''recordType'' ''target''" "\<not> is_field ''recordType'' ''deadline''" "is_field ''target'' ''target''"
  "\<not> is_field ''target'' ''deadline''" "is_field ''deadline'' ''deadline''" "is_field ''version'' ''version''"
  "\<not> is_field ''version'' ''pending''" "is_field ''pending'' ''pending''"
  by code_simp+

lemma decode_pending_json [simp]: "decode_pending q (pending_json p) = Some p"
  by (simp add: decode_pending_def pending_json_def decode_str_def)

lemma decode_elems_json [simp]: "decode_elems store (map pending_json ps) = Some ps"
  by (induction ps arbitrary: store) auto

lemma decode_slice_json: "decode_slice ([], 0) (JArr (map pending_json ps)) = Some (ps, length ps)"
  by (cases ps) (auto simp: decode_slice_def)

lemma decode_lifecycle_json:
  "Version st = lifecycleVersion \<Longrightarrow> decode_lifecycle (lifecycle_json st) = Some st"
proof -
  have one: "Itoa 1 = ''1''" "json_integer ''1''" "ParseInt ''1'' = Some 1" by code_simp+
  show "Version st = lifecycleVersion \<Longrightarrow> ?thesis"
    by (simp add: decode_lifecycle_def lifecycle_json_def decode_int_def lifecycleVersion_def one decode_slice_json)
qed

lemma wf_lifecycle_json: "Version st = lifecycleVersion \<Longrightarrow> wf_json (lifecycle_json st)"
proof -
  have "Itoa 1 = ''1''" "num_char CHR ''1''" by code_simp+
  then show "Version st = lifecycleVersion \<Longrightarrow> ?thesis"
    by (simp add: lifecycle_json_def list_all_iff pending_json_def lifecycleVersion_def)
qed

lemma parse_marshal:
  assumes "wf_pendings (Pending st)"
  shows "\<exists>s. marshalLifecycle st = Inr s \<and>
           parseLifecycle s = Inr (st\<lparr>Version := lifecycleVersion, Pending := sortPending (Pending st)\<rparr>)"
proof -
  let ?st = "st\<lparr>Version := lifecycleVersion, Pending := sortPending (Pending st)\<rparr>"
  let ?s = "print_json (lifecycle_json ?st)"
  have "parse_json ?s = Some (lifecycle_json ?st, [])"
    using parse_json_print [of "lifecycle_json ?st" "[]"] by (simp add: wf_lifecycle_json)
  moreover have "?s \<noteq> ''''" by (simp add: lifecycle_json_def)
  moreover have "check_pending [] (sortPending (Pending st)) = None"
    using assms by (simp add: check_pending_iff)
  moreover have "sortPending (sortPending (Pending st)) = sortPending (Pending st)"
    by (rule sortPending_id) (simp add: sortPending_def)
  ultimately have "parseLifecycle ?s = Inr ?st"
    by (simp add: parseLifecycle_def decode_lifecycle_json)
  then show ?thesis by (simp add: marshalLifecycle_def)
qed

section \<open>The three formats as codecs\<close>

definition parse_timestamp :: "string \<Rightarrow> int option" where
  "parse_timestamp s = (case check_deadline s of Inl _ \<Rightarrow> None | Inr t \<Rightarrow> Some t)"

definition lifecycle_text :: "lifecycle \<Rightarrow> string" where
  "lifecycle_text st = print_json (lifecycle_json st)"

definition read_lifecycle :: "string \<Rightarrow> lifecycle option" where
  "read_lifecycle s = (case parseLifecycle s of Inl _ \<Rightarrow> None | Inr st \<Rightarrow> Some st)"

interpretation duration: codec Duration_String ParseDuration "\<lambda>d. 0 \<le> d \<and> d \<le> max_duration"
  by unfold_locales (simp add: ParseDuration_String)

interpretation timestamp: codec FormatRFC3339 parse_timestamp four_digit_year
  by unfold_locales (simp add: parse_timestamp_def canonical_deadline_Format)

lemma lifecycle_update_id:
  "wf_lifecycle st \<Longrightarrow> st\<lparr>Version := lifecycleVersion, Pending := sortPending (Pending st)\<rparr> = st"
  by (simp add: wf_lifecycle_sort) (simp add: wf_lifecycle_def)

lemma marshal_wf: "wf_lifecycle st \<Longrightarrow> marshalLifecycle st = Inr (lifecycle_text st)"
  by (simp add: marshalLifecycle_def lifecycle_text_def lifecycle_update_id)

lemma parse_lifecycle_text: "wf_lifecycle st \<Longrightarrow> parseLifecycle (lifecycle_text st) = Inr st"
  using parse_marshal [of st] by (auto simp: marshal_wf lifecycle_update_id wf_lifecycle_def)

interpretation lifecycle_doc: codec lifecycle_text read_lifecycle wf_lifecycle
  by unfold_locales (simp add: read_lifecycle_def parse_lifecycle_text)

lemma deadline_Format: "four_digit_year t \<Longrightarrow> pDeadline p = FormatRFC3339 t \<Longrightarrow> deadline p = t"
  by (simp add: deadline_def ParseRFC3339_Format)

section \<open>Properties\<close>

text \<open>C17: a lifecycle annotation that is accepted denotes a well-formed state: version 1, non-empty
  identities, canonical UTC deadlines, no duplicate and sorted; and writing that state back gives an
  annotation that is read as the very same state, so repeated reconciliations never drift.\<close>

theorem parseLifecycle_sound:
  "case parseLifecycle value of
     Inl _ \<Rightarrow> True
   | Inr st \<Rightarrow> wf_lifecycle st \<and> (\<exists>s. marshalLifecycle st = Inr s \<and> parseLifecycle s = Inr st)"
  by (auto split: sum.split dest: parseLifecycle_wf intro: marshal_wf parse_lifecycle_text)

text \<open>C18: writing any valid set of pending targets, in any order, and reading the annotation back gives
  exactly those targets, sorted; two different well-formed states never have the same text.\<close>

theorem marshalLifecycle_roundtrip:
  assumes "wf_pendings ps"
  shows "\<exists>s. marshalLifecycle \<lparr>Version = v, Pending = ps\<rparr> = Inr s \<and>
           parseLifecycle s = Inr \<lparr>Version = lifecycleVersion, Pending = sortPending ps\<rparr> \<and>
           (\<forall>qs. wf_pendings qs \<longrightarrow> marshalLifecycle \<lparr>Version = v, Pending = qs\<rparr> = Inr s \<longrightarrow> sortPending qs = sortPending ps)"
proof -
  have wf: "wf_lifecycle \<lparr>Version = lifecycleVersion, Pending = sortPending qs\<rparr>" if "wf_pendings qs" for qs
    using that by (simp add: wf_lifecycle_def) (simp add: sortPending_def)
  have m: "marshalLifecycle \<lparr>Version = v, Pending = qs\<rparr> =
      Inr (lifecycle_text \<lparr>Version = lifecycleVersion, Pending = sortPending qs\<rparr>)" for qs
    by (simp add: marshalLifecycle_def lifecycle_text_def)
  show ?thesis
    using lifecycle_doc.enc_inj [OF wf wf] parse_lifecycle_text [OF wf] assms by (auto simp: m)
qed

definition sample_pending :: pendingTarget where
  "sample_pending = \<lparr>pDNSName = ''app.example.com'', pRecordType = ''A'', pTarget = ''192.0.2.1'',
     pDeadline = FormatRFC3339 1767225600000000000\<rparr>"

lemma wf_sample_pending: "wf_pending sample_pending"
  using canonical_deadline_Format [OF four_digit_year_bound, of 1767225600000000000]
  by (simp add: wf_pending_def sample_pending_def canonical_deadline_def)

theorem marshalLifecycle_roundtrip_witness:
  "\<exists>s. marshalLifecycle \<lparr>Version = 0, Pending = [sample_pending]\<rparr> = Inr s \<and>
       parseLifecycle s = Inr \<lparr>Version = 1, Pending = [sample_pending]\<rparr>"
proof -
  have "wf_pendings [sample_pending]" by (simp add: wf_pendings_def wf_sample_pending)
  from marshalLifecycle_roundtrip [OF this, of 0] show ?thesis
    by (auto simp: lifecycleVersion_def sortPending_def)
qed

end
