(* ===== verification/Go_Sha256.thy ===== *)
theory Go_Sha256
  imports Go_Strconv "HOL-Library.Word"
begin

text \<open>
  The standard library's \<^verbatim>\<open>crypto/sha256\<close> and \<^verbatim>\<open>encoding/hex\<close>, from which the object names and source keys
  are made: FIPS 180-4 on 32-bit words, a byte string in and the 32-byte digest out.  The facts used
  are about lengths and alphabets (\<open>length_Sum256\<close>, \<open>length_hex_encode\<close>, \<open>hex_chars\<close>); collision resistance is not, and
  cannot be, a theorem.
\<close>

unbundle bit_operations_syntax

text \<open>
  The round constants are the first 32 fractional bits of the cube roots of the first 64 primes, the
  initial state those of the square roots of the first eight; they are computed from this definition,
  the integer root bit by bit from the top.
\<close>

definition small_primes :: "int list" where
  "small_primes = filter (\<lambda>n. list_all (\<lambda>d. n mod d \<noteq> 0) [2..n - 1]) [2..311]"

definition int_root :: "nat \<Rightarrow> int \<Rightarrow> int" where
  "int_root k n = foldl (\<lambda>r b. if (r + 2 ^ b) ^ k \<le> n then r + 2 ^ b else r) 0 (rev [0..<40])"

definition sha_K :: "32 word list" where
  "sha_K = map (\<lambda>p. of_int (int_root 3 (p * 2 ^ 96))) small_primes"

definition sha_H0 :: "32 word list" where
  "sha_H0 = map (\<lambda>p. of_int (int_root 2 (p * 2 ^ 64))) [2, 3, 5, 7, 11, 13, 17, 19]"

lemma length_sha_H0 [simp]: "length sha_H0 = 8"
  by (simp add: sha_H0_def)

definition rotr :: "nat \<Rightarrow> 32 word \<Rightarrow> 32 word" where
  "rotr n w = drop_bit n w OR push_bit (32 - n) w"

definition sig0 :: "32 word \<Rightarrow> 32 word" where "sig0 x = rotr 7 x XOR rotr 18 x XOR drop_bit 3 x"
definition sig1 :: "32 word \<Rightarrow> 32 word" where "sig1 x = rotr 17 x XOR rotr 19 x XOR drop_bit 10 x"
definition Sig0 :: "32 word \<Rightarrow> 32 word" where "Sig0 x = rotr 2 x XOR rotr 13 x XOR rotr 22 x"
definition Sig1 :: "32 word \<Rightarrow> 32 word" where "Sig1 x = rotr 6 x XOR rotr 11 x XOR rotr 25 x"

definition sha_ch :: "32 word \<Rightarrow> 32 word \<Rightarrow> 32 word \<Rightarrow> 32 word" where
  "sha_ch x y z = (x AND y) XOR (NOT x AND z)"

definition sha_maj :: "32 word \<Rightarrow> 32 word \<Rightarrow> 32 word \<Rightarrow> 32 word" where
  "sha_maj x y z = (x AND y) XOR (x AND z) XOR (y AND z)"

definition be_word :: "string \<Rightarrow> 32 word" where
  "be_word bs = foldl (\<lambda>w c. push_bit 8 w OR of_nat (code c)) 0 bs"

definition be_bytes :: "nat \<Rightarrow> nat \<Rightarrow> string" where
  "be_bytes n v = map (\<lambda>i. byte (v div 256 ^ i mod 256)) (rev [0..<n])"

fun chunks :: "nat \<Rightarrow> string \<Rightarrow> string list" where
  "chunks n [] = []"
| "chunks 0 s = []"
| "chunks (Suc n) s = take (Suc n) s # chunks (Suc n) (drop (Suc n) s)"

definition sha_pad :: "string \<Rightarrow> string" where
  "sha_pad s = s @ [CHR 0x80] @ replicate ((119 - length s mod 64) mod 64) CHR 0x00 @ be_bytes 8 (8 * length s)"

definition schedule :: "string \<Rightarrow> 32 word list" where
  "schedule block =
     foldl (\<lambda>w i. w @ [sig1 (w ! (i - 2)) + w ! (i - 7) + sig0 (w ! (i - 15)) + w ! (i - 16)])
       (map be_word (chunks 4 block)) [16..<64]"

fun sha_round :: "32 word list \<Rightarrow> 32 word \<times> 32 word \<Rightarrow> 32 word list" where
  "sha_round [a, b, c, d, e, f, g, h] (k, w) =
     (let t1 = h + Sig1 e + sha_ch e f g + k + w; t2 = Sig0 a + sha_maj a b c
      in [t1 + t2, a, b, c, d + t1, e, f, g])"
| "sha_round st kw = st"

definition compress :: "32 word list \<Rightarrow> string \<Rightarrow> 32 word list" where
  "compress st block = map (\<lambda>(x, y). x + y) (zip st (foldl sha_round st (zip sha_K (schedule block))))"

definition Sum256 :: "string \<Rightarrow> string" where
  "Sum256 s = concat (map (\<lambda>w. be_bytes 4 (unat w)) (foldl compress sha_H0 (chunks 64 (sha_pad s))))"

definition hex_encode :: "string \<Rightarrow> string" where
  "hex_encode s = concat (map (\<lambda>c. [hex_digit (code c div 16), hex_digit (code c mod 16)]) s)"

lemma length_be_bytes [simp]: "length (be_bytes n v) = n"
  by (simp add: be_bytes_def)

lemma length_sha_round [simp]: "length (sha_round st kw) = length st"
  by (induction st kw rule: sha_round.induct) (simp_all add: Let_def)

lemma length_compress [simp]: "length (compress st block) = length st"
proof -
  have "length (foldl sha_round st kws) = length st" for kws by (induction kws arbitrary: st) auto
  then show ?thesis by (simp add: compress_def)
qed

lemma length_Sum256 [simp]: "length (Sum256 s) = 32"
proof -
  have "length (foldl compress st bs) = length st" for st bs by (induction bs arbitrary: st) auto
  then show ?thesis by (simp add: Sum256_def length_concat comp_def sum_list_triv)
qed

lemma length_hex_encode [simp]: "length (hex_encode s) = 2 * length s"
  by (simp add: hex_encode_def length_concat comp_def sum_list_triv)

lemma hex_digit_char: "n < 16 \<Longrightarrow> is_digit (hex_digit n) \<or> 97 \<le> code (hex_digit n) \<and> code (hex_digit n) \<le> 102"
  by (auto simp: hex_digit_def is_digit_def)

lemma hex_chars: "c \<in> set (hex_encode s) \<Longrightarrow> is_digit c \<or> 97 \<le> code c \<and> code c \<le> 102"
proof -
  assume "c \<in> set (hex_encode s)"
  then obtain d where "c = hex_digit (code d div 16) \<or> c = hex_digit (code d mod 16)"
    by (auto simp: hex_encode_def)
  moreover have "code d div 16 < 16" "code d mod 16 < 16"
    using nat_of_char_less_256 [of d] by (simp_all add: less_mult_imp_div_less)
  ultimately show ?thesis using hex_digit_char by blast
qed

end
