(* ===== verification/Endpoints.thy ===== *)
theory Endpoints
  imports Source_Types Lifecycle Go_Sha256 "HOL-Library.AList"
begin

text \<open>
  The record arithmetic of \<^verbatim>\<open>internal/dnsendpoint/writer.go\<close>: names and keys of the generated objects,
  the normal form of endpoint lists, and the combination of desired, current and pending targets.  The
  types \<open>endpoint\<close>, \<open>OwnerReference\<close> and \<open>DNSEndpoint\<close> have the fields of the external-dns and
  Kubernetes types that the code reads, copies or compares (\<open>oRest\<close> and \<open>ObjectMetaRest\<close> stand for
  the ones it only copies).

  Go maps that are built and then iterated are association lists without duplicate keys; the iteration
  order is insertion order, and every result is sorted afterwards by a key that is unique in the map.
  \<^verbatim>\<open>sort.Slice\<close> is a stable sort, which is what it is for at most twelve elements; for longer slices Go
  leaves the order of records with equal name and type open.
\<close>

section \<open>External types\<close>

record endpoint =
  eDNSName :: string
  eTargets :: "string list"
  eRecordType :: string
  eSetIdentifier :: string
  eRecordTTL :: int
  eLabels :: strmap
  eProviderSpecific :: "Property list"

record OwnerReference =
  oAPIVersion :: string
  oKind :: string
  oName :: string
  oRest :: string

record DNSEndpoint =
  TypeMeta :: "string \<times> string"
  mName :: string
  mNamespace :: string
  ResourceVersion :: string
  mLabels :: strmap
  mAnnotations :: strmap
  OwnerReferences :: "OwnerReference list"
  ObjectMetaRest :: string
  mGeneration :: int
  SpecEndpoints :: "endpoint option list"
  ObservedGeneration :: int
  StatusRest :: string

section \<open>Constants, keys and names\<close>

definition ManagedByLabel :: string where "ManagedByLabel = ''app.kubernetes.io/managed-by''"
definition ProviderLabel :: string where "ProviderLabel = AnnotationPrefix @ ''provider''"
definition SourceKeyLabel :: string where "SourceKeyLabel = AnnotationPrefix @ ''source-key''"
definition SourceKindAnnotation :: string where "SourceKindAnnotation = AnnotationPrefix @ ''source-kind''"
definition SourceNamespaceAnnotation :: string where
  "SourceNamespaceAnnotation = AnnotationPrefix @ ''source-namespace''"
definition SourceNameAnnotation :: string where "SourceNameAnnotation = AnnotationPrefix @ ''source-name''"
definition SourceUIDAnnotation :: string where "SourceUIDAnnotation = AnnotationPrefix @ ''source-uid''"
definition StoredDelayAnnotation :: string where "StoredDelayAnnotation = AnnotationPrefix @ ''deletion-delay''"
definition LifecycleAnnotation :: string where "LifecycleAnnotation = AnnotationPrefix @ ''lifecycle''"
definition ManagedByValue :: string where "ManagedByValue = ''labdns''"
definition externalDNSPrefix :: string where "externalDNSPrefix = ''external-dns.alpha.kubernetes.io/''"

definition NUL :: string where
  "NUL = [CHR 0x00]"

definition identityValue :: "Identity \<Rightarrow> string" where
  "identityValue identity = Join [iAPIVersion identity, iKind identity, iNamespace identity, iName identity] NUL"

definition hash16 :: "string \<Rightarrow> string" where
  "hash16 value = take 16 (hex_encode (Sum256 value))"

definition SourceKey :: "Identity \<Rightarrow> string" where
  "SourceKey identity = hash16 (identityValue identity)"

text \<open>The loop of \<^verbatim>\<open>sanitize\<close>: the text built so far and whether its last byte is a dash.  A multi-byte
  rune counts as one invalid character in Go and as several here, with the same single dash.\<close>

definition sanitize_step :: "string \<times> bool \<Rightarrow> char \<Rightarrow> string \<times> bool" where
  "sanitize_step st char =
     (let (result, lastDash) = st in
      if 97 \<le> code char \<and> code char \<le> 122 \<or> is_digit char then (result @ [char], False)
      else if \<not> lastDash \<and> result \<noteq> [] then (result @ ''-'', True)
      else (result, lastDash))"

definition sanitize :: "string \<Rightarrow> string" where
  "sanitize value = Trim1 (fst (foldl sanitize_step ([], False) (ToLower value))) CHR ''-''"

definition ObjectName :: "Identity \<Rightarrow> string \<Rightarrow> string" where
  "ObjectName identity provider =
     (let hash = hash16 (identityValue identity @ NUL @ provider);
          prefix = sanitize (Join [iKind identity, iName identity, provider] ''-'');
          maxPrefix = 253 - 1 - 16;
          prefix = (if length prefix > maxPrefix then Trim1 (take maxPrefix prefix) CHR ''-'' else prefix);
          prefix = (if prefix = '''' then ''source'' else prefix)
      in prefix @ ''-'' @ hash)"

section \<open>Normal forms\<close>

definition compact :: "'a list \<Rightarrow> 'a list" where
  "compact values =
     (case values of
        [] \<Rightarrow> []
      | v # vs \<Rightarrow> foldl (\<lambda>out v. if v \<noteq> last out then out @ [v] else out) [v] vs)"

definition record_id :: "endpoint \<Rightarrow> string \<times> string" where
  "record_id e = (eDNSName e, eRecordType e)"

definition normalize_endpoint :: "endpoint \<Rightarrow> endpoint" where
  "normalize_endpoint e = e\<lparr>eTargets := compact (sort (eTargets e)), eProviderSpecific := sort (eProviderSpecific e)\<rparr>"

definition normalizeEndpoints :: "endpoint option list \<Rightarrow> endpoint list" where
  "normalizeEndpoints values = sort_key record_id (map normalize_endpoint (List.map_filter id values))"

definition record_key :: "string \<Rightarrow> string \<Rightarrow> string" where
  "record_key dnsName recordType = dnsName @ NUL @ recordType"

definition normalize_record_step :: "(string \<times> endpoint) list \<Rightarrow> Record \<Rightarrow> (string \<times> endpoint) list" where
  "normalize_record_step byRecord record =
     (let targets = compact (sort (rTargets record));
          properties = sort (rProviderSpecific record);
          dnsName = ToLower (TrimSuffix (rDNSName record) ''.'');
          key = record_key dnsName (rRecordType record)
      in case map_of byRecord key of
           Some existing \<Rightarrow> AList.update key (existing\<lparr>eTargets := eTargets existing @ targets\<rparr>) byRecord
         | None \<Rightarrow>
             AList.update key
               \<lparr>eDNSName = dnsName, eTargets = targets, eRecordType = rRecordType record, eSetIdentifier = '''',
                eRecordTTL = rTTL record, eLabels = fmempty, eProviderSpecific = properties\<rparr> byRecord)"

definition normalizeRecords :: "Record list \<Rightarrow> endpoint list" where
  "normalizeRecords records =
     normalizeEndpoints (map (Some \<circ> snd) (foldl normalize_record_step [] records))"

definition endpointTargets :: "endpoint list \<Rightarrow> targetKey list" where
  "endpointTargets records =
     concat (map (\<lambda>record. map (\<lambda>target. (eDNSName record, eRecordType record, target)) (eTargets record)) records)"

abbreviation recordTargets :: "endpoint list \<Rightarrow> targetKey list" where
  "recordTargets \<equiv> endpointTargets"

section \<open>Combining desired, current and pending targets\<close>

definition combine_step ::
  "(string \<times> endpoint) list \<Rightarrow> (string \<times> endpoint) list \<Rightarrow> targetKey \<times> pendingTarget \<Rightarrow> (string \<times> endpoint) list" where
  "combine_step currentByRecord byRecord entry =
     (let ((dnsName, recordType, target), item) = entry;
          recordKey = record_key dnsName recordType;
          record = (case map_of byRecord recordKey of
                      Some record \<Rightarrow> record
                    | None \<Rightarrow>
                        (case map_of currentByRecord recordKey of
                           Some old \<Rightarrow> old\<lparr>eTargets := []\<rparr>
                         | None \<Rightarrow>
                             \<lparr>eDNSName = pDNSName item, eTargets = [], eRecordType = pRecordType item,
                              eSetIdentifier = '''', eRecordTTL = 0, eLabels = fmempty, eProviderSpecific = []\<rparr>))
      in AList.update recordKey (record\<lparr>eTargets := eTargets record @ [target]\<rparr>) byRecord)"

definition index_records :: "endpoint list \<Rightarrow> (string \<times> endpoint) list" where
  "index_records records =
     foldl (\<lambda>m record. AList.update (record_key (eDNSName record) (eRecordType record)) record m) [] records"

definition combineRecords :: "endpoint list \<Rightarrow> endpoint list \<Rightarrow> (targetKey \<times> pendingTarget) list \<Rightarrow> endpoint list" where
  "combineRecords desired current pending =
     (let byRecord = foldl (combine_step (index_records current)) (index_records desired) pending;
          sorted = map ((\<lambda>record. record\<lparr>eTargets := compact (sort (eTargets record))\<rparr>) \<circ> snd) byRecord
      in normalizeEndpoints (map Some (filter (\<lambda>record. length (eTargets record) > 0) sorted)))"

section \<open>Normalisation\<close>

lemma compact_remdups_adj: "compact xs = remdups_adj xs"
proof -
  have "foldl (\<lambda>out v. if v \<noteq> last out then out @ [v] else out) (out @ [x]) vs = out @ remdups_adj (x # vs)"
    for out x and vs :: "'a list"
  proof (induction vs arbitrary: out x)
    case (Cons v vs)
    then show ?case using Cons.IH [of "out @ [x]" v] by simp
  qed simp
  from this [of "[]"] show ?thesis by (cases xs) (simp_all add: compact_def)
qed

lemma distinct_remdups_adj_sorted: "sorted xs \<Longrightarrow> distinct (remdups_adj xs)"
  by (induction xs rule: remdups_adj.induct) (auto simp: remdups_adj_set)

lemma compact_sort: "compact (sort xs) = sort (remdups xs)"
  by (rule sorted_distinct_unique) (simp_all add: compact_remdups_adj distinct_remdups_adj_sorted)

lemma endpointTargets_Nil [simp]: "endpointTargets [] = []"
  by (simp add: endpointTargets_def)

lemma set_endpointTargets:
  "set (endpointTargets rs) = {(n, t, x). \<exists>r \<in> set rs. n = eDNSName r \<and> t = eRecordType r \<and> x \<in> set (eTargets r)}"
  by (auto simp: endpointTargets_def)

lemma set_map_filter_id: "set (List.map_filter id vs) = {e. Some e \<in> set vs}"
  by (induction vs) (auto simp: map_filter_simps split: option.splits)

lemma map_filter_Some [simp]: "List.map_filter id (map Some es) = es"
  by (induction es) (auto simp: map_filter_simps)

text \<open>The targets a spec publishes.\<close>

definition spec_targets :: "endpoint option list \<Rightarrow> targetKey set" where
  "spec_targets vs = set (endpointTargets (List.map_filter id vs))"

lemma normalize_endpoint_simps [simp]:
  "eDNSName (normalize_endpoint e) = eDNSName e" "eRecordType (normalize_endpoint e) = eRecordType e"
  "set (eTargets (normalize_endpoint e)) = set (eTargets e)" "record_id (normalize_endpoint e) = record_id e"
  "eRecordTTL (normalize_endpoint e) = eRecordTTL e" "eTargets (normalize_endpoint e) = sort (remdups (eTargets e))"
  by (simp_all add: normalize_endpoint_def compact_sort record_id_def)

lemma normalize_endpoint_idem [simp]: "normalize_endpoint (normalize_endpoint e) = normalize_endpoint e"
  by (simp add: normalize_endpoint_def compact_sort distinct_remdups_id sorted_sort_id)

lemma set_normalizeEndpoints: "set (normalizeEndpoints vs) = normalize_endpoint ` {e. Some e \<in> set vs}"
  by (simp add: normalizeEndpoints_def set_map_filter_id)

lemma normalizeEndpoints_targets [simp]: "set (endpointTargets (normalizeEndpoints vs)) = spec_targets vs"
  by (auto simp: set_endpointTargets set_normalizeEndpoints spec_targets_def set_map_filter_id)

lemma normalizeEndpoints_idem [simp]: "normalizeEndpoints (map Some (normalizeEndpoints vs)) = normalizeEndpoints vs"
proof -
  have "map normalize_endpoint (normalizeEndpoints vs) = normalizeEndpoints vs"
    by (rule map_idI) (auto simp: set_normalizeEndpoints)
  then show ?thesis
    by (simp add: normalizeEndpoints_def [of "map Some _"] sort_key_id_if_sorted)
      (simp add: normalizeEndpoints_def sort_key_id_if_sorted)
qed

lemma sorted_normalizeEndpoints: "sorted (map record_id (normalizeEndpoints vs))"
  by (simp add: normalizeEndpoints_def)

section \<open>Record keys\<close>

definition nul_free :: "string \<Rightarrow> bool" where
  "nul_free s \<longleftrightarrow> CHR 0x00 \<notin> set s"

lemma split_first_eq: "x \<notin> set a \<Longrightarrow> x \<notin> set c \<Longrightarrow> a @ x # b = c @ x # d \<longleftrightarrow> a = c \<and> b = d"
proof (induction a arbitrary: c)
  case Nil
  then show ?case by (cases c) auto
next
  case (Cons y a)
  then show ?case by (cases c) auto
qed

lemma record_key_inj:
  "nul_free n \<Longrightarrow> nul_free m \<Longrightarrow> record_key n t = record_key m u \<longleftrightarrow> n = m \<and> t = u"
  by (simp add: record_key_def NUL_def nul_free_def split_first_eq)

text \<open>An index of records under their keys, and the targets in it.\<close>

definition keyed :: "(string \<times> endpoint) list \<Rightarrow> bool" where
  "keyed m \<longleftrightarrow> distinct (map fst m) \<and>
     (\<forall>(k, e) \<in> set m. k = record_key (eDNSName e) (eRecordType e) \<and> nul_free (eDNSName e))"

lemma keyed_Nil [simp]: "keyed []"
  by (simp add: keyed_def)

lemma keyed_lookup:
  "keyed m \<Longrightarrow> nul_free n \<Longrightarrow> map_of m (record_key n t) = Some e \<longleftrightarrow> e \<in> snd ` set m \<and> record_id e = (n, t)"
  by (auto simp: keyed_def record_id_def record_key_inj dest: map_of_SomeD) (force simp: record_key_inj)+

lemma keyed_update:
  assumes "keyed m" "nul_free (eDNSName e)"
  shows "keyed (AList.update (record_key (eDNSName e) (eRecordType e)) e m)"
proof -
  let ?k = "record_key (eDNSName e) (eRecordType e)"
  have "distinct (map fst (AList.update ?k e m))" using assms by (simp add: keyed_def distinct_update)
  moreover from this have "set (AList.update ?k e m) \<subseteq> insert (?k, e) (set m)"
    by (auto simp flip: map_of_eq_Some_iff simp: update_conv' split: if_splits intro: map_of_SomeD)
  ultimately show ?thesis using assms unfolding keyed_def by blast
qed

lemma records_update:
  assumes "keyed m" "nul_free (eDNSName e)"
  shows "snd ` set (AList.update (record_key (eDNSName e) (eRecordType e)) e m) =
         insert e {e' \<in> snd ` set m. record_id e' \<noteq> record_id e}"
proof -
  note k = keyed_update [OF assms]
  have "e' \<in> snd ` set (AList.update (record_key (eDNSName e) (eRecordType e)) e m) \<longleftrightarrow>
      e' = e \<or> e' \<in> snd ` set m \<and> record_id e' \<noteq> record_id e" for e'
  proof (cases "nul_free (eDNSName e')")
    case True
    then show ?thesis
      using keyed_lookup [OF k True, of "eRecordType e'" e'] keyed_lookup [OF assms(1) True, of "eRecordType e'" e'] assms(2)
      by (auto simp: update_conv' record_key_inj record_id_def split: if_splits)
  next
    case False
    then show ?thesis using k assms unfolding keyed_def by fastforce
  qed
  then show ?thesis by blast
qed

definition index_targets :: "(string \<times> endpoint) list \<Rightarrow> targetKey set" where
  "index_targets m = set (endpointTargets (map snd m))"

lemma mem_index_targets:
  "(n, t, x) \<in> index_targets m \<longleftrightarrow> (\<exists>e \<in> snd ` set m. record_id e = (n, t) \<and> x \<in> set (eTargets e))"
  by (auto simp: index_targets_def set_endpointTargets record_id_def)

lemma index_targets_Nil [simp]: "index_targets [] = {}"
  by (simp add: index_targets_def endpointTargets_def)

text \<open>Replacing a record by one with more targets, or adding a new one.\<close>

lemma index_targets_update:
  assumes "keyed m" "nul_free (eDNSName e)"
    and old: "\<And>e'. map_of m (record_key (eDNSName e) (eRecordType e)) = Some e' \<Longrightarrow> set (eTargets e') \<subseteq> set (eTargets e)"
  shows "index_targets (AList.update (record_key (eDNSName e) (eRecordType e)) e m) =
         index_targets m \<union> (\<lambda>x. (eDNSName e, eRecordType e, x)) ` set (eTargets e)"
proof -
  have sub: "set (eTargets e') \<subseteq> set (eTargets e)" if "e' \<in> snd ` set m" "record_id e' = record_id e" for e'
    using that old keyed_lookup [OF assms(1,2)] by (simp add: record_id_def)
  have "(n, t, x) \<in> index_targets (AList.update (record_key (eDNSName e) (eRecordType e)) e m) \<longleftrightarrow>
      (n, t, x) \<in> index_targets m \<or> record_id e = (n, t) \<and> x \<in> set (eTargets e)" for n t x
    unfolding mem_index_targets records_update [OF assms(1,2)] using sub by fastforce
  then show ?thesis by (auto simp: record_id_def)
qed

definition record_dns_name :: "Record \<Rightarrow> string" where
  "record_dns_name r = ToLower (TrimSuffix (rDNSName r) ''.'')"

definition record_targets :: "Record \<Rightarrow> targetKey set" where
  "record_targets r = (\<lambda>x. (record_dns_name r, rRecordType r, x)) ` set (rTargets r)"

lemma normalize_record_step_props:
  assumes "keyed m" "nul_free (record_dns_name r)"
  shows "keyed (normalize_record_step m r)"
    and "index_targets (normalize_record_step m r) = index_targets m \<union> record_targets r"
proof -
  let ?k = "record_key (record_dns_name r) (rRecordType r)" and ?ts = "sort (remdups (rTargets r))"
  obtain e where e: "normalize_record_step m r = AList.update ?k e m" "record_id e = (record_dns_name r, rRecordType r)"
    "set (eTargets e) = set ?ts \<union> (case map_of m ?k of None \<Rightarrow> {} | Some e' \<Rightarrow> set (eTargets e'))"
  proof (cases "map_of m ?k")
    case None
    show ?thesis
      by (rule that [of "\<lparr>eDNSName = record_dns_name r, eTargets = ?ts, eRecordType = rRecordType r, eSetIdentifier = '''',
            eRecordTTL = rTTL r, eLabels = fmempty, eProviderSpecific = sort (rProviderSpecific r)\<rparr>"])
        (use None in \<open>simp_all add: normalize_record_step_def Let_def compact_sort record_id_def flip: record_dns_name_def\<close>)
  next
    case (Some e')
    then have "record_id e' = (record_dns_name r, rRecordType r)" using keyed_lookup [OF assms] by simp
    with Some show ?thesis
      by (intro that [of "e'\<lparr>eTargets := eTargets e' @ ?ts\<rparr>"])
        (simp_all add: normalize_record_step_def Let_def compact_sort record_id_def Un_commute flip: record_dns_name_def)
  qed
  have id: "eDNSName e = record_dns_name r" "eRecordType e = rRecordType r" using e(2) by (simp_all add: record_id_def)
  show "keyed (normalize_record_step m r)"
    using keyed_update [OF assms(1), of e] assms(2) e(1) id by simp
  have "index_targets (normalize_record_step m r) = index_targets m \<union> (\<lambda>x. (eDNSName e, eRecordType e, x)) ` set (eTargets e)"
    using index_targets_update [OF assms(1), of e] assms(2) e id by simp
  moreover have "(\<lambda>x. (record_dns_name r, rRecordType r, x)) ` set (eTargets e') \<subseteq> index_targets m"
    if "map_of m ?k = Some e'" for e'
    using that unfolding keyed_lookup [OF assms] by (intro image_subsetI) (unfold mem_index_targets, blast)
  ultimately show "index_targets (normalize_record_step m r) = index_targets m \<union> record_targets r"
    using e(3) id by (auto simp: record_targets_def split: option.splits)
qed

lemma normalize_records_fold:
  assumes "keyed m" "\<forall>r \<in> set rs. nul_free (record_dns_name r)"
  shows "keyed (foldl normalize_record_step m rs) \<and>
         index_targets (foldl normalize_record_step m rs) = index_targets m \<union> (\<Union>r \<in> set rs. record_targets r)"
  using assms
proof (induction rs arbitrary: m)
  case (Cons r rs)
  then show ?case
    using normalize_record_step_props [of m r] Cons.IH [of "normalize_record_step m r"] by auto
qed simp

definition desired_targets :: "Record list \<Rightarrow> targetKey set" where
  "desired_targets rs = (\<Union>r \<in> set rs. record_targets r)"

lemma spec_targets_Some [simp]: "spec_targets (map Some es) = set (endpointTargets es)"
  by (simp add: spec_targets_def)

lemma normalizeRecords_targets:
  "\<forall>r \<in> set rs. nul_free (record_dns_name r) \<Longrightarrow> set (endpointTargets (normalizeRecords rs)) = desired_targets rs"
  using normalize_records_fold [of "[]" rs]
  by (simp add: normalizeRecords_def index_targets_def desired_targets_def flip: map_map)

lemma keyed_distinct_ids: "keyed m \<Longrightarrow> distinct (map (record_id \<circ> snd) m)"
proof (induction m)
  case (Cons p m)
  then have "keyed m" by (auto simp: keyed_def)
  moreover have "record_id (snd p) \<notin> record_id ` snd ` set m"
    using Cons.prems by (force simp: keyed_def record_id_def)
  ultimately show ?case using Cons.IH by (auto simp: image_image)
qed simp

lemma keyed_same: "keyed m \<Longrightarrow> d \<in> snd ` set m \<Longrightarrow> e \<in> snd ` set m \<Longrightarrow> record_id d = record_id e \<Longrightarrow> d = e"
  using keyed_distinct_ids [of m] by (auto simp: distinct_map inj_on_def)

lemma distinct_normalizeEndpoints [simp]:
  "distinct (map record_id (normalizeEndpoints (map Some es))) = distinct (map record_id es)"
  by (simp add: normalizeEndpoints_def comp_def)

lemma normalizeRecords_props:
  assumes "\<forall>r \<in> set rs. nul_free (record_dns_name r)"
  shows "distinct (map record_id (normalizeRecords rs))" "\<forall>e \<in> set (normalizeRecords rs). nul_free (eDNSName e)"
proof -
  let ?m = "foldl normalize_record_step [] rs"
  have m: "keyed ?m" using normalize_records_fold [of "[]" rs] assms by simp
  show "distinct (map record_id (normalizeRecords rs))"
    using distinct_normalizeEndpoints [of "map snd ?m"] keyed_distinct_ids [OF m] by (simp add: normalizeRecords_def)
  show "\<forall>e \<in> set (normalizeRecords rs). nul_free (eDNSName e)"
    using m by (auto simp: normalizeRecords_def set_normalizeEndpoints keyed_def)
qed

section \<open>Combination\<close>

abbreviation index_fold :: "(string \<times> endpoint) list \<Rightarrow> endpoint list \<Rightarrow> (string \<times> endpoint) list" where
  "index_fold \<equiv> foldl (\<lambda>m record. AList.update (record_key (eDNSName record) (eRecordType record)) record m)"

lemma index_fold_props:
  assumes "keyed m" "\<forall>r \<in> set rs. nul_free (eDNSName r)"
  shows "keyed (index_fold m rs) \<and> snd ` set (index_fold m rs) \<subseteq> snd ` set m \<union> set rs \<and>
         (distinct (map record_id rs) \<and> record_id ` snd ` set m \<inter> record_id ` set rs = {} \<longrightarrow>
           snd ` set (index_fold m rs) = snd ` set m \<union> set rs)"
  using assms
proof (induction rs arbitrary: m)
  case (Cons r rs)
  let ?u = "AList.update (record_key (eDNSName r) (eRecordType r)) r m"
  have u: "keyed ?u" "snd ` set ?u = insert r {e \<in> snd ` set m. record_id e \<noteq> record_id r}"
    using Cons.prems keyed_update [of m r] records_update [of m r] by simp_all
  have "\<forall>r \<in> set rs. nul_free (eDNSName r)" using Cons.prems by simp
  note ih = Cons.IH [OF u(1) this]
  have new: "snd ` set ?u = insert r (snd ` set m)"
    if disj: "record_id ` snd ` set m \<inter> record_id ` set (r # rs) = {}"
  proof -
    have "record_id e \<noteq> record_id r" if "e \<in> snd ` set m" for e
      using disj that by (metis IntI empty_iff image_eqI list.set_intros(1))
    then show ?thesis unfolding u(2) by blast
  qed
  show ?case
  proof (intro conjI impI)
    show "keyed (index_fold m (r # rs))" using ih by simp
    show "snd ` set (index_fold m (r # rs)) \<subseteq> snd ` set m \<union> set (r # rs)" using ih u(2) by auto
    assume d: "distinct (map record_id (r # rs)) \<and> record_id ` snd ` set m \<inter> record_id ` set (r # rs) = {}"
    then have "record_id ` snd ` set ?u \<inter> record_id ` set rs = {}" using new by auto
    then show "snd ` set (index_fold m (r # rs)) = snd ` set m \<union> set (r # rs)" using ih d new by simp
  qed
qed simp

lemma keyed_index_records: "\<forall>r \<in> set rs. nul_free (eDNSName r) \<Longrightarrow> keyed (index_records rs)"
  using index_fold_props [of "[]" rs] by (simp add: index_records_def)

lemma index_records_subset: "\<forall>r \<in> set rs. nul_free (eDNSName r) \<Longrightarrow> snd ` set (index_records rs) \<subseteq> set rs"
  using index_fold_props [of "[]" rs] by (simp add: index_records_def)

lemma index_records_set:
  "\<forall>r \<in> set rs. nul_free (eDNSName r) \<Longrightarrow> distinct (map record_id rs) \<Longrightarrow> snd ` set (index_records rs) = set rs"
  using index_fold_props [of "[]" rs] by (simp add: index_records_def)

text \<open>An entry of the pending map: the key is the item's own, and its name has no NUL byte.\<close>

definition meta :: "endpoint \<Rightarrow> string \<times> int \<times> strmap \<times> Property list" where
  "meta e = (eSetIdentifier e, eRecordTTL e, eLabels e, eProviderSpecific e)"

definition pending_entry :: "targetKey \<times> pendingTarget \<Rightarrow> bool" where
  "pending_entry p \<longleftrightarrow> fst p = pending_key (snd p) \<and> nul_free (fst (fst p))"

lemma combine_step_props:
  assumes "keyed cur" "keyed m" "pending_entry p"
  shows "keyed (combine_step cur m p)" "index_targets (combine_step cur m p) = insert (fst p) (index_targets m)"
    and "e \<in> snd ` set (combine_step cur m p) \<Longrightarrow> d \<in> snd ` set m \<Longrightarrow> record_id e = record_id d \<Longrightarrow> meta e = meta d"
    and "record_id ` snd ` set m \<subseteq> record_id ` snd ` set (combine_step cur m p)"
    and "e \<in> snd ` set (combine_step cur m p) \<Longrightarrow> record_id e \<notin> record_id ` snd ` set m \<Longrightarrow> c \<in> snd ` set cur \<Longrightarrow>
      record_id c = record_id e \<Longrightarrow> meta e = meta c"
proof -
  obtain n t x item where p: "p = ((n, t, x), item)" by (metis surj_pair)
  have n: "nul_free n" "pDNSName item = n" "pRecordType item = t"
    using assms(3) by (auto simp: pending_entry_def p pending_key_def)
  obtain e' where e': "combine_step cur m p = AList.update (record_key n t) e' m" "record_id e' = (n, t)"
    "set (eTargets e') = insert x (case map_of m (record_key n t) of None \<Rightarrow> {} | Some r \<Rightarrow> set (eTargets r))"
    "\<And>r. map_of m (record_key n t) = Some r \<Longrightarrow> meta e' = meta r"
    "\<And>r. map_of m (record_key n t) = None \<Longrightarrow> map_of cur (record_key n t) = Some r \<Longrightarrow> meta e' = meta r"
  proof (cases "map_of m (record_key n t)")
    case (Some r)
    then have "record_id r = (n, t)" using keyed_lookup [OF assms(2) n(1)] by simp
    with Some show ?thesis
      by (intro that [of "r\<lparr>eTargets := eTargets r @ [x]\<rparr>"]) (simp_all add: combine_step_def p record_id_def meta_def)
  next
    case None
    show ?thesis
    proof (cases "map_of cur (record_key n t)")
      case (Some old)
      then have "record_id old = (n, t)" using keyed_lookup [OF assms(1) n(1)] by simp
      with Some None show ?thesis
        by (intro that [of "old\<lparr>eTargets := [x]\<rparr>"]) (simp_all add: combine_step_def p record_id_def meta_def)
    next
      case [simp]: None
      show ?thesis
        by (rule that [of "\<lparr>eDNSName = n, eTargets = [x], eRecordType = t, eSetIdentifier = '''', eRecordTTL = 0,
              eLabels = fmempty, eProviderSpecific = []\<rparr>"])
          (use \<open>map_of m (record_key n t) = None\<close> n in \<open>simp_all add: combine_step_def p record_id_def meta_def\<close>)
    qed
  qed
  have id: "eDNSName e' = n" "eRecordType e' = t" using e'(2) by (simp_all add: record_id_def)
  show "keyed (combine_step cur m p)" using keyed_update [OF assms(2), of e'] e'(1) id n by simp
  have old: "set (eTargets r) \<subseteq> set (eTargets e')" if "map_of m (record_key n t) = Some r" for r
    using that e'(3) by auto
  have "index_targets (combine_step cur m p) = index_targets m \<union> (\<lambda>x. (n, t, x)) ` set (eTargets e')"
    using index_targets_update [OF assms(2), of e'] old e'(1) id n by simp
  moreover have "(\<lambda>x. (n, t, x)) ` set (eTargets r) \<subseteq> index_targets m" if "map_of m (record_key n t) = Some r" for r
    using that unfolding keyed_lookup [OF assms(2) n(1)] by (intro image_subsetI) (unfold mem_index_targets, blast)
  ultimately show "index_targets (combine_step cur m p) = insert (fst p) (index_targets m)"
    using e'(3) by (auto simp: p split: option.splits)
  have recs: "snd ` set (combine_step cur m p) = insert e' {e \<in> snd ` set m. record_id e \<noteq> record_id e'}"
    using records_update [OF assms(2), of e'] e'(1) id n by simp
  show "meta e = meta d" if "e \<in> snd ` set (combine_step cur m p)" "d \<in> snd ` set m" "record_id e = record_id d"
  proof (cases "e = e'")
    case True
    with that e'(2) have "map_of m (record_key n t) = Some d" using keyed_lookup [OF assms(2) n(1)] by simp
    with True e'(4) show ?thesis by simp
  next
    case False
    with that(1) have "e \<in> snd ` set m" unfolding recs by blast
    then have "e = d" by (rule keyed_same [OF assms(2) _ that(2,3)])
    then show ?thesis by simp
  qed
  show "record_id ` snd ` set m \<subseteq> record_id ` snd ` set (combine_step cur m p)"
    unfolding recs by blast
  show "meta e = meta c" if "e \<in> snd ` set (combine_step cur m p)" "record_id e \<notin> record_id ` snd ` set m"
    "c \<in> snd ` set cur" "record_id c = record_id e"
  proof -
    have e: "e = e'" using that(1,2) unfolding recs by blast
    then have "map_of cur (record_key n t) = Some c" using keyed_lookup [OF assms(1) n(1)] that(3,4) e'(2) by simp
    moreover have "map_of m (record_key n t) = None"
    proof (cases "map_of m (record_key n t)")
      case (Some r)
      then have "r \<in> snd ` set m" "record_id r = record_id e" using keyed_lookup [OF assms(2) n(1)] e e'(2) by simp_all
      then show ?thesis using that(2) by (metis image_eqI)
    qed
    ultimately show ?thesis using e e'(5) by simp
  qed
qed

lemma combine_fold:
  assumes "keyed cur" "keyed m" "\<forall>p \<in> set ps. pending_entry p"
  shows "keyed (foldl (combine_step cur) m ps) \<and>
         index_targets (foldl (combine_step cur) m ps) = index_targets m \<union> fst ` set ps \<and>
         (\<forall>e \<in> snd ` set (foldl (combine_step cur) m ps). \<forall>d \<in> snd ` set m. record_id e = record_id d \<longrightarrow> meta e = meta d)"
  using assms
proof (induction ps arbitrary: m)
  case Nil
  have "\<forall>e \<in> snd ` set m. \<forall>d \<in> snd ` set m. record_id e = record_id d \<longrightarrow> meta e = meta d"
    by (intro ballI impI arg_cong [where f = meta]) (rule keyed_same [OF Nil.prems(2)])
  with Nil.prems(2) show ?case by (simp only: foldl_Nil list.set image_empty Un_empty_right simp_thms)
next
  case (Cons p ps)
  let ?m = "combine_step cur m p"
  have p: "pending_entry p" "\<forall>p \<in> set ps. pending_entry p" using Cons.prems by simp_all
  note step = combine_step_props [OF Cons.prems(1,2) p(1)]
  note ih = Cons.IH [OF Cons.prems(1) step(1) p(2)]
  have "meta e = meta d"
    if e: "e \<in> snd ` set (foldl (combine_step cur) m (p # ps))" and d: "d \<in> snd ` set m" "record_id e = record_id d" for e d
  proof -
    have "record_id d \<in> record_id ` snd ` set ?m" using step(4) d(1) by blast
    then obtain d' where d': "d' \<in> snd ` set ?m" "record_id d' = record_id d" by (metis imageE)
    then have "meta d' = meta d" using step(3) d(1) by blast
    moreover have "meta e = meta d'" using ih e d' d(2) unfolding foldl_Cons by (metis (no_types))
    ultimately show ?thesis by simp
  qed
  then have "\<forall>e \<in> snd ` set (foldl (combine_step cur) m (p # ps)). \<forall>d \<in> snd ` set m. record_id e = record_id d \<longrightarrow> meta e = meta d"
    by (intro ballI impI)
  moreover have "index_targets ?m \<union> fst ` set ps = index_targets m \<union> fst ` set (p # ps)" using step(2) by simp
  ultimately show ?case using ih unfolding foldl_Cons by (metis (no_types))
qed

lemma combine_fold_current:
  assumes "keyed cur" "c \<in> snd ` set cur" "record_id c = record_id e" "\<forall>p \<in> set ps. pending_entry p"
    and "keyed m" "e \<in> snd ` set (foldl (combine_step cur) m ps)" "record_id e \<notin> record_id ` snd ` set m"
  shows "meta e = meta c"
  using assms(4-)
proof (induction ps arbitrary: m)
  case Nil
  then show ?case by (metis foldl_Nil image_eqI)
next
  case (Cons p ps)
  let ?m = "combine_step cur m p"
  have p: "pending_entry p" "\<forall>p \<in> set ps. pending_entry p" using Cons.prems by simp_all
  note step = combine_step_props [OF assms(1) Cons.prems(2) p(1)]
  have e: "e \<in> snd ` set (foldl (combine_step cur) ?m ps)" using Cons.prems by simp
  show ?case
  proof (cases "record_id e \<in> record_id ` snd ` set ?m")
    case True
    then obtain d where d: "d \<in> snd ` set ?m" "record_id d = record_id e" by (metis imageE)
    then have "meta e = meta d" using combine_fold [OF assms(1) step(1) p(2)] e by (metis (no_types))
    moreover have "meta d = meta c"
      using step(5) [OF d(1) _ assms(2)] d(2) Cons.prems(4) assms(3) by metis
    ultimately show ?thesis by simp
  next
    case False
    then show ?thesis by (rule Cons.IH [OF p(2) step(1) e])
  qed
qed

text \<open>What \<^verbatim>\<open>combineRecords\<close> publishes: the desired targets and the pending ones, nothing else, one record
  per name and type, none of them empty; TTL and properties of a desired record win.\<close>

lemma combineRecords_props:
  assumes "\<forall>e \<in> set desired. nul_free (eDNSName e)" "distinct (map record_id desired)"
    and "\<forall>e \<in> set current. nul_free (eDNSName e)" "\<forall>p \<in> set pending. pending_entry p"
  shows "set (endpointTargets (combineRecords desired current pending)) = set (endpointTargets desired) \<union> fst ` set pending"
    and "distinct (map record_id (combineRecords desired current pending))"
    and "\<forall>e \<in> set (combineRecords desired current pending). eTargets e \<noteq> []"
    and "\<forall>e \<in> set (combineRecords desired current pending). \<forall>d \<in> set desired. record_id e = record_id d \<longrightarrow>
           meta e = meta (normalize_endpoint d)"
proof -
  let ?m = "foldl (combine_step (index_records current)) (index_records desired) pending"
  let ?es = "filter (\<lambda>e. eTargets e \<noteq> []) (map (\<lambda>r. (snd r)\<lparr>eTargets := compact (sort (eTargets (snd r)))\<rparr>) ?m)"
  have c: "combineRecords desired current pending = normalizeEndpoints (map Some ?es)"
    by (simp add: combineRecords_def comp_def)
  have m: "keyed ?m" "index_targets ?m = index_targets (index_records desired) \<union> fst ` set pending"
    "\<forall>e \<in> snd ` set ?m. \<forall>d \<in> set desired. record_id e = record_id d \<longrightarrow> meta e = meta d"
    using combine_fold [OF keyed_index_records keyed_index_records assms(4), of current desired] assms(1,3)
    unfolding index_records_set [OF assms(1,2)] by blast+
  have nil: "sort (remdups xs) = [] \<longleftrightarrow> xs = []" for xs :: "string list" by (metis set_empty set_remdups set_sort)
  have "set (endpointTargets ?es) = index_targets ?m"
    by (auto simp: set_endpointTargets index_targets_def compact_sort nil) (metis empty_iff empty_set snd_conv)
  moreover have "index_targets (index_records desired) = set (endpointTargets desired)"
    using index_records_set [OF assms(1,2)] by (simp add: index_targets_def set_endpointTargets flip: set_map)
  ultimately show "set (endpointTargets (combineRecords desired current pending)) = set (endpointTargets desired) \<union> fst ` set pending"
    by (simp add: c m(2))
  have "map record_id (map (\<lambda>r. (snd r)\<lparr>eTargets := compact (sort (eTargets (snd r)))\<rparr>) ?m) = map (record_id \<circ> snd) ?m"
    by (simp add: record_id_def)
  with keyed_distinct_ids [OF m(1)] have "distinct (map record_id ?es)" by (intro distinct_map_filter) (simp only:)
  then show "distinct (map record_id (combineRecords desired current pending))" by (simp add: c)
  show "\<forall>e \<in> set (combineRecords desired current pending). eTargets e \<noteq> []"
    by (auto simp: c set_normalizeEndpoints compact_sort nil)
  have meta_norm: "meta (normalize_endpoint (r\<lparr>eTargets := xs\<rparr>)) = meta (normalize_endpoint d)" if "meta r = meta d" for r d xs
    using that by (simp add: meta_def normalize_endpoint_def)
  show "\<forall>e \<in> set (combineRecords desired current pending). \<forall>d \<in> set desired. record_id e = record_id d \<longrightarrow>
      meta e = meta (normalize_endpoint d)"
    using m(3) by (auto simp: c set_normalizeEndpoints record_id_def intro!: meta_norm)
qed

section \<open>Object names\<close>

lemma Trim1_props:
  "set (Trim1 s c) \<subseteq> set s" "length (Trim1 s c) \<le> length s"
  "Trim1 s c \<noteq> [] \<Longrightarrow> hd (Trim1 s c) \<noteq> c \<and> last (Trim1 s c) \<noteq> c"
proof -
  let ?d = "dropWhile (\<lambda>x. x = c) s"
  have eq: "rev (Trim1 s c) = dropWhile (\<lambda>x. x = c) (rev ?d)" by (simp add: Trim1_def)
  show "set (Trim1 s c) \<subseteq> set s"
    unfolding Trim1_def set_rev by (auto dest!: set_dropWhileD)
  show "length (Trim1 s c) \<le> length s"
    using length_dropWhile_le [of "\<lambda>x. x = c" "rev ?d"] length_dropWhile_le [of "\<lambda>x. x = c" s] by (simp add: Trim1_def)
  assume ne: "Trim1 s c \<noteq> []"
  then have "last (Trim1 s c) \<noteq> c" using hd_dropWhile [of "\<lambda>x. x = c" "rev ?d"] eq by (metis hd_rev rev_is_Nil_conv)
  moreover have "hd (Trim1 s c) \<noteq> c"
  proof -
    obtain t where "rev ?d = t @ rev (Trim1 s c)" using eq takeWhile_dropWhile_id by metis
    then have "?d = Trim1 s c @ rev t" by (metis rev_append rev_rev_ident)
    moreover from this ne have "?d \<noteq> []" by auto
    ultimately show ?thesis using hd_dropWhile [of "\<lambda>x. x = c" s] ne by simp
  qed
  ultimately show "hd (Trim1 s c) \<noteq> c \<and> last (Trim1 s c) \<noteq> c" by simp
qed

definition label_char :: "char \<Rightarrow> bool" where
  "label_char c \<longleftrightarrow> is_alnum c \<or> c = CHR ''-''"

definition label_shape :: "string \<Rightarrow> bool" where
  "label_shape s \<longleftrightarrow> s \<noteq> [] \<and> list_all label_char s \<and> is_alnum (hd s) \<and> is_alnum (last s)"

lemma sanitize_fold_chars:
  "\<forall>c \<in> set (fst st). label_char c \<Longrightarrow> c \<in> set (fst (foldl sanitize_step st s)) \<Longrightarrow> label_char c"
proof (induction s arbitrary: st)
  case (Cons d s)
  have "\<forall>c \<in> set (fst (sanitize_step st d)). label_char c"
    using Cons.prems(1) by (auto simp: sanitize_step_def label_char_def is_alnum_def Let_def split: prod.splits)
  with Cons.IH [OF this] Cons.prems(2) show ?case by simp
qed simp

lemma Trim_label_shape:
  "\<forall>c \<in> set s. label_char c \<Longrightarrow> Trim1 s CHR ''-'' = '''' \<or> label_shape (Trim1 s CHR ''-'')"
  using Trim1_props [of s "CHR ''-''"] by (auto simp: label_shape_def list_all_iff label_char_def in_mono)

lemma sanitize_shape: "sanitize s = '''' \<or> label_shape (sanitize s)"
  unfolding sanitize_def by (rule Trim_label_shape) (auto dest: sanitize_fold_chars [rotated])

lemma length_hash16 [simp]: "length (hash16 s) = 16"
  by (simp add: hash16_def)

lemma hash16_chars: "c \<in> set (hash16 s) \<Longrightarrow> is_alnum c"
  by (auto simp: hash16_def is_alnum_def dest!: in_set_takeD hex_chars)

lemma label_shape_hash: "label_shape p \<Longrightarrow> label_shape (p @ ''-'' @ hash16 s)"
proof -
  have "hash16 s \<noteq> []" using length_hash16 [of s] by force
  then have "is_alnum (last (hash16 s))" by (intro hash16_chars [of _ s]) simp
  then show "label_shape p \<Longrightarrow> ?thesis"
    using hash16_chars \<open>hash16 s \<noteq> []\<close> by (auto simp: label_shape_def list_all_iff label_char_def)
qed

lemma ObjectName_split:
  obtains p where "ObjectName identity provider = p @ ''-'' @ hash16 (identityValue identity @ NUL @ provider)"
    "label_shape p" "length p \<le> 236"
proof -
  let ?s = "sanitize (Join [iKind identity, iName identity, provider] ''-'')"
  let ?t = "if length ?s > 236 then Trim1 (take 236 ?s) CHR ''-'' else ?s"
  have "\<forall>c \<in> set ?s. label_char c" using sanitize_shape [of "Join [iKind identity, iName identity, provider] ''-''"]
    by (auto simp: label_shape_def list_all_iff)
  then have "?t = '''' \<or> label_shape ?t"
    using sanitize_shape Trim_label_shape [of "take 236 ?s"] by (auto dest: in_set_takeD)
  moreover have "label_shape ''source''" by code_simp
  moreover have "length ?t \<le> 236" using Trim1_props(2) [of "take 236 ?s" "CHR ''-''"] by auto
  ultimately show thesis
    by (intro that [of "if ?t = '''' then ''source'' else ?t"]) (auto simp: ObjectName_def Let_def)
qed

text \<open>C19: whatever the source's kind, name and provider are, the generated object name is a valid
  DNS-1123 name of at most 253 bytes that ends in the sixteen hexadecimal digits of the identity hash,
  and the source key label is exactly sixteen such digits.\<close>

theorem ObjectName_valid:
  "dns1123_shape (ObjectName identity provider) \<and>
   (\<exists>p. ObjectName identity provider = p @ ''-'' @ hash16 (identityValue identity @ NUL @ provider)) \<and>
   length (SourceKey identity) = 16 \<and> list_all is_alnum (SourceKey identity)"
proof -
  obtain p where p: "ObjectName identity provider = p @ ''-'' @ hash16 (identityValue identity @ NUL @ provider)"
    "label_shape p" "length p \<le> 236" by (rule ObjectName_split)
  have "label_shape (ObjectName identity provider)" unfolding p(1) by (rule label_shape_hash [OF p(2)])
  moreover have "length (ObjectName identity provider) \<le> 253" using p by simp
  ultimately have "dns1123_shape (ObjectName identity provider)"
    by (auto simp: dns1123_shape_def label_shape_def list_all_iff is_dns_char_def label_char_def is_alnum_def)
  with p(1) show ?thesis by (auto simp: SourceKey_def list_all_iff dest: hash16_chars)
qed

definition nul_free_identity :: "Identity \<Rightarrow> bool" where
  "nul_free_identity i \<longleftrightarrow>
     nul_free (iAPIVersion i) \<and> nul_free (iKind i) \<and> nul_free (iNamespace i) \<and> nul_free (iName i)"

definition same_source :: "Identity \<Rightarrow> Identity \<Rightarrow> bool" where
  "same_source i j \<longleftrightarrow>
     iAPIVersion i = iAPIVersion j \<and> iKind i = iKind j \<and> iNamespace i = iNamespace j \<and> iName i = iName j"

lemma identityValue_inj:
  "nul_free_identity i \<Longrightarrow> nul_free_identity j \<Longrightarrow>
     identityValue i @ NUL @ p = identityValue j @ NUL @ q \<longleftrightarrow> same_source i j \<and> p = q"
  by (auto simp: identityValue_def NUL_def nul_free_identity_def nul_free_def same_source_def split_first_eq)

text \<open>C20: two sources never share a generated object unless the truncated hash itself collides: equal
  object names mean the same API version, kind, namespace, name and provider, or two different
  hashed texts with the same sixteen-digit hash.\<close>

theorem ObjectName_injective:
  assumes "nul_free_identity i" "nul_free_identity j" "ObjectName i p = ObjectName j q"
  shows "same_source i j \<and> p = q \<or>
    identityValue i @ NUL @ p \<noteq> identityValue j @ NUL @ q \<and>
    hash16 (identityValue i @ NUL @ p) = hash16 (identityValue j @ NUL @ q)"
proof -
  obtain a where "ObjectName i p = a @ ''-'' @ hash16 (identityValue i @ NUL @ p)" by (rule ObjectName_split)
  moreover obtain b where "ObjectName j q = b @ ''-'' @ hash16 (identityValue j @ NUL @ q)" by (rule ObjectName_split)
  ultimately have "hash16 (identityValue i @ NUL @ p) = hash16 (identityValue j @ NUL @ q)"
    using assms(3) by (metis append_eq_append_conv append.assoc length_hash16)
  then show ?thesis using identityValue_inj [OF assms(1,2)] by blast
qed

definition sample_identity :: Identity where
  "sample_identity = \<lparr>iAPIVersion = ''networking.k8s.io/v1'', iKind = SourceKindIngress, iNamespace = ''apps'',
     iName = ''web'', iUID = ''uid-1''\<rparr>"

text \<open>A source that is deleted and made again keeps its object: the two identities differ in the UID, the
  names are equal, and of the two reasons it can only be that the source is the same.\<close>

theorem ObjectName_injective_witness:
  "let old = sample_identity; new = sample_identity\<lparr>iUID := ''uid-2''\<rparr> in
     old \<noteq> new \<and> nul_free_identity old \<and> nul_free_identity new \<and> ObjectName old ''lan'' = ObjectName new ''lan'' \<and>
     same_source old new"
proof -
  let ?new = "sample_identity\<lparr>iUID := ''uid-2''\<rparr>"
  have ids: "nul_free_identity sample_identity" "nul_free_identity ?new"
    by (simp_all add: nul_free_identity_def nul_free_def sample_identity_def SourceKindIngress_def)
  have value_eq: "identityValue sample_identity = identityValue ?new" by (simp add: identityValue_def)
  then have name: "ObjectName sample_identity ''lan'' = ObjectName ?new ''lan''" by (simp add: ObjectName_def)
  from ObjectName_injective [OF ids name] value_eq have "same_source sample_identity ?new" by simp
  moreover have "sample_identity \<noteq> ?new" by (simp add: sample_identity_def)
  ultimately show ?thesis using ids name by simp
qed

section \<open>Combining again changes nothing\<close>

lemma combineRecords_current:
  assumes "\<forall>e \<in> set desired. nul_free (eDNSName e)" "distinct (map record_id desired)"
    and "\<forall>e \<in> set current. nul_free (eDNSName e)" "distinct (map record_id current)" "\<forall>p \<in> set pending. pending_entry p"
    and "e \<in> set (combineRecords desired current pending)" "record_id e \<notin> record_id ` set desired"
    and "c \<in> set current" "record_id c = record_id e"
  shows "meta e = meta (normalize_endpoint c)"
proof -
  let ?m = "foldl (combine_step (index_records current)) (index_records desired) pending"
  obtain r where r: "r \<in> snd ` set ?m" "e = normalize_endpoint (r\<lparr>eTargets := compact (sort (eTargets r))\<rparr>)"
    using assms(6) by (auto simp: combineRecords_def Let_def set_normalizeEndpoints)
  then have id: "record_id r = record_id e" by (simp add: record_id_def)
  have "meta r = meta c"
  proof (rule combine_fold_current [OF keyed_index_records [OF assms(3)] _ _ assms(5) keyed_index_records [OF assms(1)] r(1)])
    show "c \<in> snd ` set (index_records current)" using index_records_set [OF assms(3,4)] assms(8) by simp
    show "record_id c = record_id r" using id assms(9) by simp
    show "record_id r \<notin> record_id ` snd ` set (index_records desired)"
      using index_records_set [OF assms(1,2)] id assms(7) by simp
  qed
  then show ?thesis unfolding r(2) by (simp add: meta_def normalize_endpoint_def)
qed

lemma combineRecords_normal:
  "sorted (map record_id (combineRecords d c p))" "e \<in> set (combineRecords d c p) \<Longrightarrow> normalize_endpoint e = e"
  by (auto simp: combineRecords_def Let_def sorted_normalizeEndpoints set_normalizeEndpoints)

definition normal_records :: "endpoint list \<Rightarrow> bool" where
  "normal_records es \<longleftrightarrow> sorted (map record_id es) \<and> distinct (map record_id es) \<and>
     (\<forall>e \<in> set es. normalize_endpoint e = e \<and> eTargets e \<noteq> [])"

lemma record_ids_targets:
  "\<forall>e \<in> set es. eTargets e \<noteq> [] \<Longrightarrow> record_id ` set es = (\<lambda>(n, t, x). (n, t)) ` set (endpointTargets es)"
proof -
  assume ne: "\<forall>e \<in> set es. eTargets e \<noteq> []"
  have "record_id e \<in> (\<lambda>(n, t, x). (n, t)) ` set (endpointTargets es)" if e: "e \<in> set es" for e
  proof -
    obtain x where "x \<in> set (eTargets e)" using ne e by (metis list.set_intros(1) neq_Nil_conv)
    then have "(eDNSName e, eRecordType e, x) \<in> set (endpointTargets es)" using e by (auto simp: set_endpointTargets)
    then show ?thesis by (force simp: record_id_def)
  qed
  then show ?thesis by (auto simp: set_endpointTargets record_id_def)
qed

lemma endpoint_eqI:
  assumes "record_id e = record_id f" "meta e = meta f" "set (eTargets e) = set (eTargets f)"
    and "normalize_endpoint e = e" "normalize_endpoint f = f"
  shows "e = f"
proof -
  have "eTargets e = eTargets f"
    using assms(3-5) normalize_endpoint_simps(6) [of e] normalize_endpoint_simps(6) [of f] by (metis sort_remdups_eqI)
  with assms(1,2) show ?thesis by (simp add: record_id_def meta_def)
qed

lemma targets_of_record:
  "distinct (map record_id es) \<Longrightarrow> e \<in> set es \<Longrightarrow> set (eTargets e) = {x. (eDNSName e, eRecordType e, x) \<in> set (endpointTargets es)}"
proof -
  assume "distinct (map record_id es)" "e \<in> set es"
  then have "inj_on record_id (set es)" by (simp add: distinct_map)
  then have eq: "f = e" if "f \<in> set es" "eDNSName e = eDNSName f" "eRecordType e = eRecordType f" for f
    using inj_onD [of record_id "set es" f e] that \<open>e \<in> set es\<close> by (simp add: record_id_def)
  have "x \<in> set (eTargets e) \<longleftrightarrow> (eDNSName e, eRecordType e, x) \<in> set (endpointTargets es)" for x
    unfolding set_endpointTargets mem_Collect_eq prod.case using \<open>e \<in> set es\<close> by (metis eq)
  then show ?thesis by blast
qed

lemma normal_records_eqI:
  assumes "normal_records es" "normal_records fs" "set (endpointTargets es) = set (endpointTargets fs)"
    and meta: "\<And>e f. e \<in> set es \<Longrightarrow> f \<in> set fs \<Longrightarrow> record_id e = record_id f \<Longrightarrow> meta e = meta f"
  shows "es = fs"
proof -
  have n: "distinct (map record_id es)" "distinct (map record_id fs)" "sorted (map record_id es)" "sorted (map record_id fs)"
    using assms(1,2) by (simp_all add: normal_records_def)
  have "record_id ` set es = record_id ` set fs"
    using record_ids_targets [of es] record_ids_targets [of fs] assms(1-3) by (simp add: normal_records_def)
  then have ids: "map record_id es = map record_id fs" using n by (intro sorted_distinct_unique) simp_all
  show ?thesis
  proof (rule nth_equalityI)
    show len: "length es = length fs" using ids by (metis length_map)
    fix i assume i: "i < length es"
    then have mem: "es ! i \<in> set es" "fs ! i \<in> set fs" using len by simp_all
    have id: "record_id (es ! i) = record_id (fs ! i)" using ids i len by (metis nth_map)
    have "set (eTargets (es ! i)) = set (eTargets (fs ! i))"
      using targets_of_record [OF n(1) mem(1)] targets_of_record [OF n(2) mem(2)] id assms(3) by (simp add: record_id_def)
    then show "es ! i = fs ! i"
      using endpoint_eqI [OF id meta [OF mem id]] mem assms(1,2) by (simp add: normal_records_def)
  qed
qed

lemma combineRecords_again:
  assumes d: "\<forall>e \<in> set desired. nul_free (eDNSName e)" "distinct (map record_id desired)"
    and c: "\<forall>e \<in> set current. nul_free (eDNSName e)"
    and p: "\<forall>x \<in> set pending. pending_entry x" "\<forall>x \<in> set pending'. pending_entry x" "fst ` set pending' = fst ` set pending"
  shows "combineRecords desired (combineRecords desired current pending) pending' = combineRecords desired current pending"
proof -
  let ?C = "combineRecords desired current pending"
  note C = combineRecords_props [OF d c p(1)]
  have nf: "nul_free (eDNSName e)" if e: "e \<in> set ?C" for e
  proof -
    obtain x where x: "x \<in> set (eTargets e)" using C(3) e by (metis list.set_intros(1) neq_Nil_conv)
    then have "(eDNSName e, eRecordType e, x) \<in> set (endpointTargets desired) \<union> fst ` set pending"
      unfolding C(1) [symmetric] using e by (auto simp: set_endpointTargets)
    then show ?thesis using d(1) p(1) by (fastforce simp: set_endpointTargets pending_entry_def)
  qed
  note C' = combineRecords_props [OF d _ p(2), of ?C]
  have cnf: "\<forall>e \<in> set ?C. nul_free (eDNSName e)" using nf by blast
  show ?thesis
  proof (rule normal_records_eqI)
    show "normal_records ?C" using C(2,3) combineRecords_normal by (auto simp: normal_records_def)
    show "normal_records (combineRecords desired ?C pending')"
      using C'(2,3) cnf combineRecords_normal by (auto simp: normal_records_def)
    show "set (endpointTargets (combineRecords desired ?C pending')) = set (endpointTargets ?C)"
      using C(1) C'(1) cnf p(3) by simp
    show "meta e = meta f" if "e \<in> set (combineRecords desired ?C pending')" "f \<in> set ?C" "record_id e = record_id f" for e f
    proof (cases "record_id e \<in> record_id ` set desired")
      case True
      then obtain g where "g \<in> set desired" "record_id g = record_id e" by (metis imageE)
      then show ?thesis using C(4) C'(4) cnf that by (metis (no_types))
    next
      case False
      have "meta e = meta (normalize_endpoint f)"
        by (rule combineRecords_current [OF d cnf C(2) p(2) that(1) False that(2)]) (simp add: that(3))
      then show ?thesis using combineRecords_normal(2) that(2) by metis
    qed
  qed
qed

end
