(* ===== verification/Build.thy ===== *)
theory Build
  imports Endpoints
begin

text \<open>
  The pure half of \<^verbatim>\<open>internal/dnsendpoint/writer.go\<close>: \<open>build\<close>, which computes the object that should
  replace the current one, and \<open>advance_object\<close>, the body of \<^verbatim>\<open>Advance\<close> between its reads and its
  writes.  Both take the instant \<open>now\<close> that \<^verbatim>\<open>m.now()\<close> returns.  \<open>build\<close> returns \<open>Inr None\<close> where the
  source returns two nils (nothing left to publish).

  \<open>build_spec\<close> characterises a successful build by sets of targets and deadlines; the theorems of the
  last section say what a reconciliation keeps, adds and drops.
\<close>

section \<open>Reading the current object\<close>

definition stored_delay :: "string \<Rightarrow> int option" where
  "stored_delay value =
     (if value = '''' then None
      else case ParseDuration value of None \<Rightarrow> None | Some delay \<Rightarrow> (if delay < 0 then None else Some delay))"

definition build_state :: "Publication \<Rightarrow> DNSEndpoint option \<Rightarrow> (pendingTarget list \<times> int) result" where
  "build_state publication current =
     (case current of
        None \<Rightarrow> Inr ([], DeletionDelay publication)
      | Some obj \<Rightarrow>
          (case parseLifecycle (get_str (mAnnotations obj) LifecycleAnnotation) of
             Inl e \<Rightarrow> Inl (mark_invalidState e)
           | Inr state \<Rightarrow>
               (let value = get_str (mAnnotations obj) StoredDelayAnnotation in
                case stored_delay value of
                  None \<Rightarrow> Inl (mark_invalidState (ErrMsg (Sprintf ''missing or invalid stored deletion delay %q'' [FStr value])))
                | Some storedDelay \<Rightarrow> Inr (Pending state, storedDelay))))"

definition absent_error :: "pendingTarget \<Rightarrow> goerr" where
  "absent_error item =
     ErrMsg (Sprintf ''lifecycle pending target %q/%s/%s is absent from spec''
       [FStr (pDNSName item), FStr (pRecordType item), FStr (pTarget item)])"

type_synonym pending_map = "(targetKey \<times> pendingTarget) list"

fun load_pending :: "targetKey list \<Rightarrow> pending_map \<Rightarrow> pendingTarget list \<Rightarrow> pending_map result" where
  "load_pending currentTargets pending [] = Inr pending"
| "load_pending currentTargets pending (item # items) =
     (if pending_key item \<notin> set currentTargets then Inl (mark_invalidState (absent_error item))
      else load_pending currentTargets (AList.update (pending_key item) item pending) items)"

section \<open>The new pending map\<close>

definition retire_step :: "int \<Rightarrow> int \<Rightarrow> targetKey list \<Rightarrow> pending_map \<Rightarrow> targetKey \<Rightarrow> pending_map" where
  "retire_step now storedDelay desiredTargets pending key =
     (if key \<in> set desiredTargets then AList.delete key pending
      else case map_of pending key of
             Some _ \<Rightarrow> pending
           | None \<Rightarrow>
               AList.update key
                 \<lparr>pDNSName = fst key, pRecordType = fst (snd key), pTarget = snd (snd key),
                  pDeadline = FormatRFC3339 (now + storedDelay)\<rparr> pending)"

definition next_pending :: "int \<Rightarrow> int \<Rightarrow> targetKey list \<Rightarrow> targetKey list \<Rightarrow> pending_map \<Rightarrow> pending_map" where
  "next_pending now storedDelay desiredTargets currentTargets pending =
     (let retired = foldl (retire_step now storedDelay desiredTargets) pending (remdups currentTargets);
          kept = foldl (\<lambda>m key. AList.delete key m) retired (remdups desiredTargets)
      in filter (\<lambda>(key, item). deadline item > now) kept)"

section \<open>The new object\<close>

definition withoutSourceOwner :: "OwnerReference list \<Rightarrow> Identity \<Rightarrow> OwnerReference list" where
  "withoutSourceOwner references identity =
     filter (\<lambda>r. \<not> (oAPIVersion r = iAPIVersion identity \<and> oKind r = iKind identity \<and> oName r = iName identity)) references"

definition fresh_object :: "Identity \<Rightarrow> string \<Rightarrow> DNSEndpoint" where
  "fresh_object identity provider =
     \<lparr>TypeMeta = (''externaldns.k8s.io/v1alpha1'', ''DNSEndpoint''), mName = ObjectName identity provider,
      mNamespace = iNamespace identity, ResourceVersion = '''', mLabels = fmempty, mAnnotations = fmempty,
      OwnerReferences = [], ObjectMetaRest = '''', mGeneration = 0, SpecEndpoints = [], ObservedGeneration = 0, StatusRest = ''''\<rparr>"

definition build_labels :: "Identity \<Rightarrow> string \<Rightarrow> strmap \<Rightarrow> strmap" where
  "build_labels identity provider old =
     fmupd SourceKeyLabel (SourceKey identity) (fmupd ProviderLabel provider (fmupd ManagedByLabel ManagedByValue old))"

definition build_annotations :: "Identity \<Rightarrow> Publication \<Rightarrow> bool \<Rightarrow> string \<Rightarrow> strmap \<Rightarrow> strmap" where
  "build_annotations identity publication has_records lifecycleValue annotations =
     (let a = (if has_records
               then fmadd (fmfilter (\<lambda>key. \<not> HasPrefix key externalDNSPrefix) annotations) (MetadataAnnotations publication)
               else annotations);
          a = fmupd SourceKindAnnotation (iKind identity) a;
          a = fmupd SourceNamespaceAnnotation (iNamespace identity) a;
          a = fmupd SourceNameAnnotation (iName identity) a;
          a = (if iUID identity \<noteq> '''' then fmupd SourceUIDAnnotation (iUID identity) a else a);
          a = (if has_records then fmupd StoredDelayAnnotation (Duration_String (DeletionDelay publication)) a else a)
      in fmupd LifecycleAnnotation lifecycleValue a)"

definition build ::
  "int \<Rightarrow> Identity \<Rightarrow> string \<Rightarrow> Publication \<Rightarrow> DNSEndpoint option \<Rightarrow> DNSEndpoint option result" where
  "build now identity provider publication current =
     (case build_state publication current of
        Inl e \<Rightarrow> Inl e
      | Inr (statePending, storedDelay) \<Rightarrow>
          (let desiredRecords = normalizeRecords (Records publication);
               desiredTargets = recordTargets desiredRecords;
               currentRecords = (case current of None \<Rightarrow> [] | Some obj \<Rightarrow> normalizeEndpoints (SpecEndpoints obj));
               currentTargets = endpointTargets currentRecords
           in case load_pending currentTargets [] statePending of
                Inl e \<Rightarrow> Inl e
              | Inr loaded \<Rightarrow>
                  (let pending = next_pending now storedDelay desiredTargets currentTargets loaded;
                       combined = combineRecords desiredRecords currentRecords pending
                   in if length combined = 0 then Inr None
                      else case marshalLifecycle \<lparr>Version = lifecycleVersion, Pending = map snd pending\<rparr> of
                             Inl e \<Rightarrow> Inl e
                           | Inr lifecycleValue \<Rightarrow>
                               (let base = (case current of None \<Rightarrow> fresh_object identity provider | Some obj \<Rightarrow> obj)
                                in Inr (Some (base
                                   \<lparr>SpecEndpoints := map Some combined,
                                    mLabels := build_labels identity provider (mLabels base),
                                    mAnnotations := build_annotations identity publication (length desiredRecords \<noteq> 0)
                                      lifecycleValue (mAnnotations base),
                                    OwnerReferences := withoutSourceOwner (OwnerReferences base) identity\<rparr>))))))"

definition equivalent :: "DNSEndpoint \<Rightarrow> DNSEndpoint \<Rightarrow> bool" where
  "equivalent current desired \<longleftrightarrow>
     normalizeEndpoints (SpecEndpoints current) = normalizeEndpoints (SpecEndpoints desired) \<and>
     mLabels current = mLabels desired \<and> mAnnotations current = mAnnotations desired \<and>
     OwnerReferences current = OwnerReferences desired"

section \<open>Expiry\<close>

text \<open>
  The loop of \<^verbatim>\<open>Advance\<close> over the pending targets: the kept items, the expired keys, and \<open>next\<close>, the
  shortest remaining time seen so far (0 before the first).
\<close>

fun expire_loop ::
  "int \<Rightarrow> targetKey list \<Rightarrow> pendingTarget list \<Rightarrow> int \<times> pendingTarget list \<times> targetKey list \<Rightarrow>
     int \<times> (pendingTarget list \<times> targetKey list) result" where
  "expire_loop now currentTargets [] (next, kept, expired) = (next, Inr (kept, expired))"
| "expire_loop now currentTargets (item # items) (next, kept, expired) =
     (if pending_key item \<notin> set currentTargets then (next, Inl (mark_invalidState (absent_error item)))
      else let remaining = time_Sub (deadline item) now in
        if remaining \<le> 0 then expire_loop now currentTargets items (next, kept, expired @ [pending_key item])
        else expire_loop now currentTargets items
               (if next = 0 \<or> remaining < next then remaining else next, kept @ [item], expired))"

definition drop_expired :: "targetKey list \<Rightarrow> endpoint list \<Rightarrow> endpoint list" where
  "drop_expired expired endpoints =
     filter (\<lambda>record. length (eTargets record) > 0)
       (map (\<lambda>record. record\<lparr>eTargets := filter (\<lambda>target. (eDNSName record, eRecordType record, target) \<notin> set expired)
               (eTargets record)\<rparr>) endpoints)"

datatype advance_action = Nothing | DeleteObject | UpdateObject DNSEndpoint

definition advance_object :: "int \<Rightarrow> int \<Rightarrow> DNSEndpoint \<Rightarrow> int \<times> advance_action result" where
  "advance_object now next current =
     (let value = get_str (mAnnotations current) StoredDelayAnnotation in
      case stored_delay value of
        None \<Rightarrow> (next, Inl (mark_invalidState (ErrMsg (Sprintf ''missing or invalid stored deletion delay %q'' [FStr value]))))
      | Some delay \<Rightarrow>
          (case parseLifecycle (get_str (mAnnotations current) LifecycleAnnotation) of
             Inl e \<Rightarrow> (next, Inl (mark_invalidState e))
           | Inr state \<Rightarrow>
               (let endpoints = normalizeEndpoints (SpecEndpoints current) in
                case expire_loop now (endpointTargets endpoints) (Pending state) (next, [], []) of
                  (next', Inl e) \<Rightarrow> (next', Inl e)
                | (next', Inr (kept, expired)) \<Rightarrow>
                    (next',
                     if length expired = 0 then Inr Nothing
                     else let filtered = drop_expired expired endpoints in
                       if length filtered = 0 then Inr DeleteObject
                       else case marshalLifecycle (state\<lparr>Pending := kept\<rparr>) of
                              Inl e \<Rightarrow> Inl e
                            | Inr lifecycleValue \<Rightarrow>
                                Inr (UpdateObject (current\<lparr>SpecEndpoints := map Some filtered,
                                  mAnnotations := fmupd LifecycleAnnotation lifecycleValue (mAnnotations current)\<rparr>))))))"

section \<open>The pending map\<close>

text \<open>A pending map in good order: one entry per key, every item under its own key.\<close>

definition wf_pmap :: "pending_map \<Rightarrow> bool" where
  "wf_pmap m \<longleftrightarrow> distinct (map fst m) \<and> (\<forall>(k, item) \<in> set m. k = pending_key item)"

lemma wf_pmap_update: "wf_pmap m \<Longrightarrow> k = pending_key item \<Longrightarrow> wf_pmap (AList.update k item m)"
proof -
  assume m: "wf_pmap m" and k: "k = pending_key item"
  then have d: "distinct (map fst (AList.update k item m))" by (simp add: wf_pmap_def distinct_update)
  moreover have "set (AList.update k item m) \<subseteq> insert (k, item) (set m)"
    using d by (auto simp flip: map_of_eq_Some_iff simp: update_conv' split: if_splits intro: map_of_SomeD)
  ultimately show ?thesis using m k unfolding wf_pmap_def by blast
qed

lemma wf_pmap_filter: "wf_pmap m \<Longrightarrow> wf_pmap (filter P m)"
  by (auto simp: wf_pmap_def distinct_map_filter)

lemma wf_pmap_delete: "wf_pmap m \<Longrightarrow> wf_pmap (AList.delete k m)"
  unfolding AList.delete_eq by (rule wf_pmap_filter)

lemma wf_pmap_lookup: "wf_pmap m \<Longrightarrow> map_of m k = Some item \<Longrightarrow> pending_key item = k"
  by (auto simp: wf_pmap_def dest: map_of_SomeD)

lemma wf_pmap_keys: "wf_pmap m \<Longrightarrow> map pending_key (map snd m) = map fst m"
  by (auto simp: wf_pmap_def)

lemma map_of_filter_distinct:
  "distinct (map fst m) \<Longrightarrow>
     map_of (filter P m) k = (case map_of m k of None \<Rightarrow> None | Some v \<Rightarrow> (if P (k, v) then Some v else None))"
  by (induction m) (auto split: option.splits simp: map_of_eq_None_iff dest: map_of_SomeD, (force dest: map_of_SomeD)?)

lemma load_pending_Inr:
  assumes "wf_pmap m"
  shows "load_pending ct m items = Inr m' \<Longrightarrow>
     wf_pmap m' \<and> pending_key ` set items \<subseteq> set ct \<and>
     (distinct (map pending_key items) \<longrightarrow> map_of m' = map_of m ++ map_of (map (\<lambda>i. (pending_key i, i)) items))"
  using assms
proof (induction items arbitrary: m)
  case (Cons i items)
  have "pending_key i \<in> set ct" using Cons.prems by (auto split: if_splits)
  moreover have "load_pending ct (AList.update (pending_key i) i m) items = Inr m'" using Cons.prems calculation by simp
  note Cons.IH [OF this wf_pmap_update [OF Cons.prems(2) refl]]
  moreover have "map_of (map (\<lambda>i. (pending_key i, i)) items) (pending_key i) = None" if "pending_key i \<notin> pending_key ` set items"
    using that by (force simp: map_of_eq_None_iff)
  ultimately show ?case by (auto simp: update_conv' map_add_def fun_eq_iff split: option.splits)
qed simp

lemma load_pending_Inl: "load_pending ct m items = Inl e \<Longrightarrow> IsInvalidState e \<and> \<not> pending_key ` set items \<subseteq> set ct"
  by (induction items arbitrary: m) (auto split: if_splits)

definition retired_item :: "int \<Rightarrow> int \<Rightarrow> targetKey \<Rightarrow> pendingTarget" where
  "retired_item now delay key =
     \<lparr>pDNSName = fst key, pRecordType = fst (snd key), pTarget = snd (snd key), pDeadline = FormatRFC3339 (now + delay)\<rparr>"

lemma retired_item_key [simp]: "pending_key (retired_item now delay key) = key"
  by (simp add: pending_key_def retired_item_def)

lemma retire_step_wf: "wf_pmap m \<Longrightarrow> wf_pmap (retire_step now delay ds m k)"
  by (auto simp: retire_step_def wf_pmap_delete wf_pmap_update split: option.split simp flip: retired_item_def)

lemma retire_step_lookup:
  "map_of (retire_step now delay ds m k) k' =
     (if k' = k then (if k \<in> set ds then None else case map_of m k of Some i \<Rightarrow> Some i | None \<Rightarrow> Some (retired_item now delay k))
      else map_of m k')"
  by (auto simp: retire_step_def delete_conv' update_conv' retired_item_def split: option.split)

lemma retire_fold:
  assumes "wf_pmap m" "distinct ks"
  shows "wf_pmap (foldl (retire_step now delay ds) m ks) \<and>
     map_of (foldl (retire_step now delay ds) m ks) k =
       (if k \<in> set ks
        then (if k \<in> set ds then None else case map_of m k of Some i \<Rightarrow> Some i | None \<Rightarrow> Some (retired_item now delay k))
        else map_of m k)"
  using assms
proof (induction ks arbitrary: m)
  case (Cons k' ks)
  then show ?case
    using Cons.IH [of "retire_step now delay ds m k'"] by (auto simp: retire_step_wf retire_step_lookup)
qed simp

lemma delete_fold:
  "wf_pmap m \<Longrightarrow> wf_pmap (foldl (\<lambda>m k. AList.delete k m) m ks) \<and>
     map_of (foldl (\<lambda>m k. AList.delete k m) m ks) k = (if k \<in> set ks then None else map_of m k)"
proof (induction ks arbitrary: m)
  case (Cons k' ks)
  then show ?case using Cons.IH [of "AList.delete k' m"] by (auto simp: wf_pmap_delete delete_conv')
qed simp

lemma next_pending_props:
  assumes "wf_pmap m"
  shows "wf_pmap (next_pending now delay ds cs m)"
    and "map_of (next_pending now delay ds cs m) k =
       (case (if k \<in> set ds then None
              else case map_of m k of
                     Some i \<Rightarrow> Some i
                   | None \<Rightarrow> (if k \<in> set cs then Some (retired_item now delay k) else None)) of
          None \<Rightarrow> None
        | Some i \<Rightarrow> (if deadline i > now then Some i else None))"
proof -
  let ?r = "foldl (retire_step now delay ds) m (remdups cs)"
  let ?d = "foldl (\<lambda>m k. AList.delete k m) ?r (remdups ds)"
  have r: "wf_pmap ?r" and rk: "map_of ?r k = (if k \<in> set cs
        then (if k \<in> set ds then None else case map_of m k of Some i \<Rightarrow> Some i | None \<Rightarrow> Some (retired_item now delay k))
        else map_of m k)" for k
    using retire_fold [OF assms, of "remdups cs" now delay ds] by simp_all
  have d: "wf_pmap ?d" and dk: "map_of ?d k = (if k \<in> set ds then None else map_of ?r k)"
    using delete_fold [OF r, of "remdups ds" k] by simp_all
  have eq: "next_pending now delay ds cs m = filter (\<lambda>(key, item). deadline item > now) ?d"
    by (simp add: next_pending_def)
  show "wf_pmap (next_pending now delay ds cs m)" unfolding eq by (rule wf_pmap_filter [OF d])
  have "distinct (map fst ?d)" using d by (simp add: wf_pmap_def)
  then show "map_of (next_pending now delay ds cs m) k =
       (case (if k \<in> set ds then None
              else case map_of m k of
                     Some i \<Rightarrow> Some i
                   | None \<Rightarrow> (if k \<in> set cs then Some (retired_item now delay k) else None)) of
          None \<Rightarrow> None
        | Some i \<Rightarrow> (if deadline i > now then Some i else None))"
    unfolding eq map_of_filter_distinct [OF \<open>distinct (map fst ?d)\<close>] dk rk by (auto split: option.splits)
qed

section \<open>The abstract view: every published target is active or waits for a deadline\<close>

text \<open>\<open>Some None\<close> is an active target, \<open>Some (Some d)\<close> one that waits for the instant \<open>d\<close>.\<close>

type_synonym status = "targetKey \<rightharpoonup> int option"

definition obj_pending :: "DNSEndpoint \<Rightarrow> pendingTarget list" where
  "obj_pending obj =
     (case parseLifecycle (get_str (mAnnotations obj) LifecycleAnnotation) of Inl _ \<Rightarrow> [] | Inr st \<Rightarrow> Pending st)"

definition obj_delay :: "DNSEndpoint \<Rightarrow> int option" where
  "obj_delay obj = stored_delay (get_str (mAnnotations obj) StoredDelayAnnotation)"

definition obj_targets :: "DNSEndpoint \<Rightarrow> targetKey set" where
  "obj_targets obj = spec_targets (SpecEndpoints obj)"

definition pending_lookup :: "pendingTarget list \<Rightarrow> targetKey \<rightharpoonup> pendingTarget" where
  "pending_lookup ps = map_of (map (\<lambda>p. (pending_key p, p)) ps)"

definition obj_status :: "DNSEndpoint \<Rightarrow> status" where
  "obj_status obj k =
     (if k \<in> obj_targets obj then Some (map_option deadline (pending_lookup (obj_pending obj) k)) else None)"

definition status_of :: "DNSEndpoint option \<Rightarrow> status" where
  "status_of current = (case current of None \<Rightarrow> Map.empty | Some obj \<Rightarrow> obj_status obj)"

text \<open>The specification of a reconciliation at \<open>now\<close> and of the passing of deadlines.\<close>

definition sync_status :: "int \<Rightarrow> int \<Rightarrow> targetKey set \<Rightarrow> status \<Rightarrow> status" where
  "sync_status now delay desired A k =
     (if k \<in> desired then Some None
      else case A k of
             None \<Rightarrow> None
           | Some None \<Rightarrow> (if delay > 0 then Some (Some (now + delay)) else None)
           | Some (Some d) \<Rightarrow> (if d > now then Some (Some d) else None))"

definition expire_status :: "int \<Rightarrow> status \<Rightarrow> status" where
  "expire_status now A k =
     (case A k of Some (Some d) \<Rightarrow> (if d > now then Some (Some d) else None) | x \<Rightarrow> x)"

text \<open>What the code may rely on: instants between 1970 and 2262, non-empty names without NUL bytes.\<close>

definition valid_time :: "int \<Rightarrow> bool" where
  "valid_time now \<longleftrightarrow> 0 \<le> now \<and> now < 2 ^ 63"

definition wf_key :: "targetKey \<Rightarrow> bool" where
  "wf_key k \<longleftrightarrow> fst k \<noteq> '''' \<and> fst (snd k) \<noteq> '''' \<and> snd (snd k) \<noteq> ''''"

definition wf_endpoints :: "endpoint option list \<Rightarrow> bool" where
  "wf_endpoints es \<longleftrightarrow> (\<forall>e. Some e \<in> set es \<longrightarrow> nul_free (eDNSName e)) \<and> (\<forall>k \<in> spec_targets es. wf_key k)"

definition valid_object :: "DNSEndpoint \<Rightarrow> bool" where
  "valid_object obj \<longleftrightarrow>
     (\<exists>st. parseLifecycle (get_str (mAnnotations obj) LifecycleAnnotation) = Inr st) \<and>
     obj_delay obj \<noteq> None \<and>
     pending_key ` set (obj_pending obj) \<subseteq> obj_targets obj \<and> wf_endpoints (SpecEndpoints obj)"

definition valid_publication :: "Publication \<Rightarrow> bool" where
  "valid_publication pub \<longleftrightarrow>
     0 \<le> DeletionDelay pub \<and> DeletionDelay pub \<le> max_duration \<and>
     (\<forall>r \<in> set (Records pub). nul_free (record_dns_name r)) \<and>
     (\<forall>k \<in> desired_targets (Records pub). wf_key k)"

definition current_delay :: "Publication \<Rightarrow> DNSEndpoint option \<Rightarrow> int" where
  "current_delay pub current = (case current of None \<Rightarrow> DeletionDelay pub | Some obj \<Rightarrow> the (obj_delay obj))"

lemma stored_delay_bounds: "stored_delay v = Some d \<Longrightarrow> 0 \<le> d \<and> d \<le> max_duration"
  by (auto simp: stored_delay_def ParseDuration_def Let_def max_duration_def split: if_splits option.splits)

lemma valid_object_pending: "valid_object obj \<Longrightarrow> wf_pendings (obj_pending obj)"
proof -
  assume "valid_object obj"
  then obtain st where "parseLifecycle (get_str (mAnnotations obj) LifecycleAnnotation) = Inr st"
    by (auto simp: valid_object_def)
  then show ?thesis using parseLifecycle_wf by (simp add: obj_pending_def wf_lifecycle_def)
qed

lemma pending_lookup_mem:
  "wf_pendings ps \<Longrightarrow> pending_lookup ps k = Some p \<longleftrightarrow> p \<in> set ps \<and> pending_key p = k"
  by (auto simp: pending_lookup_def wf_pendings_def map_of_eq_Some_iff comp_def)

lemma deadline_retired: "valid_time now \<Longrightarrow> 0 \<le> delay \<Longrightarrow> delay \<le> max_duration \<Longrightarrow>
    deadline (retired_item now delay k) = now + delay \<and> canonical_deadline (pDeadline (retired_item now delay k))"
proof -
  assume "valid_time now" "0 \<le> delay" "delay \<le> max_duration"
  then have "four_digit_year (now + delay)" by (intro four_digit_year_bound) (simp_all add: valid_time_def max_duration_def)
  then show ?thesis
    by (auto simp: canonical_deadline_def retired_item_def canonical_deadline_Format intro: deadline_Format)
qed

text \<open>The pending map that a build computes from a valid object.\<close>

lemma build_pending:
  fixes ds :: "targetKey list"
  assumes "valid_time now" "valid_object obj" "obj_delay obj = Some delay"
    and cs: "set cs = obj_targets obj" and "load_pending cs [] (obj_pending obj) = Inr m"
  defines "p \<equiv> next_pending now delay ds cs m"
  shows "wf_pmap p" "wf_pendings (map snd p)"
    and "map_option deadline (map_of p k) =
       (if k \<in> set ds then None
        else case obj_status obj k of
               None \<Rightarrow> None
             | Some None \<Rightarrow> (if delay > 0 then Some (now + delay) else None)
             | Some (Some d) \<Rightarrow> (if d > now then Some d else None))"
proof -
  have delay: "0 \<le> delay" "delay \<le> max_duration"
    using assms(3) stored_delay_bounds by (auto simp: obj_delay_def)
  note ps = valid_object_pending [OF assms(2)]
  have m: "wf_pmap m" "map_of m = pending_lookup (obj_pending obj)"
    using load_pending_Inr [OF _ assms(5)] ps by (auto simp: wf_pmap_def wf_pendings_def pending_lookup_def)
  note np = next_pending_props [OF m(1), where now = now and delay = delay and ds = ds and cs = cs, folded p_def]
  show "wf_pmap p" by (rule np)
  have sub: "pending_key ` set (obj_pending obj) \<subseteq> obj_targets obj" using assms(2) by (simp add: valid_object_def)
  have wf: "wf_pending i" if i: "map_of p k = Some i" for k i
  proof (cases "map_of m k")
    case None
    with i have "i = retired_item now delay k" "k \<in> obj_targets obj" by (auto simp: np(2) cs split: if_splits)
    moreover from this have "wf_key k" using assms(2) by (auto simp: valid_object_def wf_endpoints_def obj_targets_def)
    ultimately show ?thesis using deadline_retired [OF assms(1) delay, of k]
      by (simp add: wf_pending_def wf_key_def retired_item_def)
  next
    case (Some j)
    with i have "j = i" by (auto simp: np(2) split: if_splits)
    with Some show ?thesis using ps pending_lookup_mem [OF ps] by (auto simp: m(2) wf_pendings_def)
  qed
  have d: "distinct (map fst p)" using np(1) by (simp add: wf_pmap_def)
  have "map pending_key (map snd p) = map fst p" using np(1) by (auto simp: wf_pmap_def)
  moreover have "wf_pending i" if "i \<in> set (map snd p)" for i
  proof -
    from that obtain k where "(k, i) \<in> set p" by auto
    then show ?thesis using wf map_of_is_SomeI [OF d] by blast
  qed
  ultimately show "wf_pendings (map snd p)" using d unfolding wf_pendings_def by metis
  show "map_option deadline (map_of p k) =
       (if k \<in> set ds then None
        else case obj_status obj k of
               None \<Rightarrow> None
             | Some None \<Rightarrow> (if delay > 0 then Some (now + delay) else None)
             | Some (Some d) \<Rightarrow> (if d > now then Some d else None))"
  proof -
    have "k \<in> obj_targets obj" if "pending_lookup (obj_pending obj) k = Some i" for i
      using that sub pending_lookup_mem [OF ps] by auto
    then show ?thesis
      using deadline_retired [OF assms(1) delay, of k]
      by (auto simp: np(2) m(2) cs obj_status_def split: option.split)
  qed
qed

section \<open>A build refines the specification\<close>

lemma stored_delay_String: "0 \<le> d \<Longrightarrow> d \<le> max_duration \<Longrightarrow> stored_delay (Duration_String d) = Some d"
proof -
  assume d: "0 \<le> d" "d \<le> max_duration"
  have "ParseDuration '''' = None" by (simp add: ParseDuration_def)
  moreover have "ParseDuration (Duration_String d) = Some d" using d by (intro duration.dec_enc) simp
  ultimately have "Duration_String d \<noteq> ''''" by (metis option.distinct(1))
  then show ?thesis using d by (simp add: stored_delay_def duration.dec_enc)
qed

lemmas annotation_keys = SourceKindAnnotation_def SourceNamespaceAnnotation_def SourceNameAnnotation_def
  SourceUIDAnnotation_def StoredDelayAnnotation_def LifecycleAnnotation_def

lemma build_annotations_lookup:
  "get_str (build_annotations identity pub has lc a) LifecycleAnnotation = lc"
  "get_str (build_annotations identity pub has lc a) StoredDelayAnnotation =
     (if has then Duration_String (DeletionDelay pub) else get_str a StoredDelayAnnotation)"
  by (simp_all add: build_annotations_def Let_def) (simp_all add: annotation_keys)

lemma nul_free_targets:
  "\<forall>e. Some e \<in> set es \<longrightarrow> nul_free (eDNSName e) \<Longrightarrow> k \<in> spec_targets es \<Longrightarrow> nul_free (fst k)"
  by (auto simp: spec_targets_def set_endpointTargets set_map_filter_id)

lemma pending_entryI:
  assumes "wf_pmap p" "\<And>k i. map_of p k = Some i \<Longrightarrow> nul_free (fst k)" "x \<in> set p"
  shows "pending_entry x"
proof -
  obtain k i where x: "x = (k, i)" by fastforce
  then have "map_of p k = Some i" using assms(1,3) by (simp add: wf_pmap_def map_of_is_SomeI)
  then show ?thesis using assms wf_pmap_lookup [OF assms(1)] x by (simp add: pending_entry_def)
qed

lemma pending_lookup_pmap:
  assumes "wf_pmap p" "wf_pendings (map snd p)"
  shows "pending_lookup (sortPending (map snd p)) = map_of p"
proof (rule ext)
  fix k
  have s: "wf_pendings (sortPending (map snd p))" using assms(2) by simp
  have "i \<in> snd ` set p \<and> pending_key i = k \<longleftrightarrow> (k, i) \<in> set p" for i
    using assms(1) by (force simp: wf_pmap_def)
  then have "pending_lookup (sortPending (map snd p)) k = Some i \<longleftrightarrow> map_of p k = Some i" for i
    using assms(1) pending_lookup_mem [OF s, of k i] by (simp add: wf_pmap_def map_of_eq_Some_iff)
  then show "pending_lookup (sortPending (map snd p)) k = map_of p k" by (metis option.exhaust)
qed

lemma wf_endpointsI:
  assumes "\<forall>e \<in> set es. eTargets e \<noteq> []" "\<And>k. k \<in> set (endpointTargets es) \<Longrightarrow> wf_key k \<and> nul_free (fst k)"
  shows "wf_endpoints (map Some es)"
proof -
  have "nul_free (eDNSName e)" if e: "e \<in> set es" for e
  proof -
    obtain x where "x \<in> set (eTargets e)" using assms(1) e by (cases "eTargets e") auto
    then have "(eDNSName e, eRecordType e, x) \<in> set (endpointTargets es)" unfolding set_endpointTargets using e by blast
    then show ?thesis using assms(2) by fastforce
  qed
  then show ?thesis using assms(2) by (auto simp: wf_endpoints_def)
qed

text \<open>The common end of a build, from the pending map on.\<close>

definition finish_build ::
  "Identity \<Rightarrow> string \<Rightarrow> Publication \<Rightarrow> DNSEndpoint option \<Rightarrow> pending_map \<Rightarrow> DNSEndpoint option result" where
  "finish_build identity provider publication current pending =
     (let desiredRecords = normalizeRecords (Records publication);
          currentRecords = (case current of None \<Rightarrow> [] | Some obj \<Rightarrow> normalizeEndpoints (SpecEndpoints obj));
          combined = combineRecords desiredRecords currentRecords pending
      in if length combined = 0 then Inr None
         else case marshalLifecycle \<lparr>Version = lifecycleVersion, Pending = map snd pending\<rparr> of
                Inl e \<Rightarrow> Inl e
              | Inr lifecycleValue \<Rightarrow>
                  (let base = (case current of None \<Rightarrow> fresh_object identity provider | Some obj \<Rightarrow> obj)
                   in Inr (Some (base
                      \<lparr>SpecEndpoints := map Some combined,
                       mLabels := build_labels identity provider (mLabels base),
                       mAnnotations := build_annotations identity publication (length desiredRecords \<noteq> 0)
                         lifecycleValue (mAnnotations base),
                       OwnerReferences := withoutSourceOwner (OwnerReferences base) identity\<rparr>))))"

lemma build_finish:
  "build now identity provider publication current =
     (case build_state publication current of
        Inl e \<Rightarrow> Inl e
      | Inr (statePending, storedDelay) \<Rightarrow>
          (let currentTargets = endpointTargets (case current of None \<Rightarrow> [] | Some obj \<Rightarrow> normalizeEndpoints (SpecEndpoints obj))
           in case load_pending currentTargets [] statePending of
                Inl e \<Rightarrow> Inl e
              | Inr loaded \<Rightarrow>
                  finish_build identity provider publication current
                    (next_pending now storedDelay (recordTargets (normalizeRecords (Records publication))) currentTargets loaded)))"
  by (simp add: build_def finish_build_def Let_def cong: option.case_cong sum.case_cong)

definition current_ok :: "DNSEndpoint option \<Rightarrow> bool" where
  "current_ok current \<longleftrightarrow> (case current of None \<Rightarrow> True | Some obj \<Rightarrow> valid_object obj)"

definition current_targets :: "DNSEndpoint option \<Rightarrow> targetKey set" where
  "current_targets current = (case current of None \<Rightarrow> {} | Some obj \<Rightarrow> obj_targets obj)"

lemma current_keys: "current_ok current \<Longrightarrow> k \<in> current_targets current \<Longrightarrow> wf_key k \<and> nul_free (fst k)"
  by (auto simp: current_targets_def current_ok_def valid_object_def wf_endpoints_def obj_targets_def
      intro: nul_free_targets split: option.splits)

lemma desired_keys: "valid_publication pub \<Longrightarrow> k \<in> desired_targets (Records pub) \<Longrightarrow> wf_key k \<and> nul_free (fst k)"
  by (auto simp: valid_publication_def desired_targets_def record_targets_def)

lemma finish_build_props:
  assumes pub: "valid_publication pub" and cur: "current_ok current"
    and p: "wf_pmap p" "wf_pendings (map snd p)"
    and dom: "\<And>k i. map_of p k = Some i \<Longrightarrow> k \<in> current_targets current \<and> k \<notin> desired_targets (Records pub)"
  obtains r where "finish_build identity provider pub current p = Inr r" "current_ok r"
    "current_targets r = desired_targets (Records pub) \<union> dom (map_of p)"
    "\<And>obj. r = Some obj \<Longrightarrow> pending_lookup (obj_pending obj) = map_of p"
    "\<And>obj. r = Some obj \<Longrightarrow> obj_delay obj = Some (if normalizeRecords (Records pub) = [] then current_delay pub current else DeletionDelay pub)"
proof -
  let ?d = "normalizeRecords (Records pub)"
  let ?c = "case current of None \<Rightarrow> [] | Some obj \<Rightarrow> normalizeEndpoints (SpecEndpoints obj)"
  let ?comb = "combineRecords ?d ?c p"
  let ?base = "case current of None \<Rightarrow> fresh_object identity provider | Some obj \<Rightarrow> obj"
  have nf: "\<forall>r \<in> set (Records pub). nul_free (record_dns_name r)" using pub by (simp add: valid_publication_def)
  have cnf: "\<forall>e \<in> set ?c. nul_free (eDNSName e)"
    using cur by (auto simp: current_ok_def valid_object_def wf_endpoints_def set_normalizeEndpoints split: option.splits)
  have entries: "\<forall>x \<in> set p. pending_entry x" using pending_entryI [OF p(1)] dom current_keys [OF cur] by blast
  note comb = combineRecords_props [OF normalizeRecords_props(2,1) [OF nf] cnf entries]
  have targets: "set (endpointTargets ?comb) = desired_targets (Records pub) \<union> dom (map_of p)"
    unfolding comb(1) normalizeRecords_targets [OF nf] by (simp add: dom_map_of_conv_image_fst)
  have keys: "wf_key k \<and> nul_free (fst k)" if "k \<in> desired_targets (Records pub) \<union> dom (map_of p)" for k
    using that dom current_keys [OF cur] desired_keys [OF pub] unfolding dom_def by blast
  show thesis
  proof (cases "?comb = []")
    case True
    then have "desired_targets (Records pub) \<union> dom (map_of p) = {}" using targets by simp
    with True show ?thesis by (intro that [of None]) (simp_all add: finish_build_def current_ok_def current_targets_def)
  next
    case False
    obtain lc where lc: "marshalLifecycle \<lparr>Version = lifecycleVersion, Pending = map snd p\<rparr> = Inr lc"
      "parseLifecycle lc = Inr \<lparr>Version = lifecycleVersion, Pending = sortPending (map snd p)\<rparr>"
      using parse_marshal [of "\<lparr>Version = lifecycleVersion, Pending = map snd p\<rparr>"] p(2) by auto
    let ?obj = "?base\<lparr>SpecEndpoints := map Some ?comb, mLabels := build_labels identity provider (mLabels ?base),
         mAnnotations := build_annotations identity pub (length ?d \<noteq> 0) lc (mAnnotations ?base),
         OwnerReferences := withoutSourceOwner (OwnerReferences ?base) identity\<rparr>"
    have fin: "finish_build identity provider pub current p = Inr (Some ?obj)"
      using False lc(1) by (simp add: finish_build_def Let_def)
    have pend: "obj_pending ?obj = sortPending (map snd p)"
      by (simp add: obj_pending_def build_annotations_lookup lc)
    have look: "pending_lookup (obj_pending ?obj) = map_of p"
      unfolding pend by (rule pending_lookup_pmap [OF p])
    have tg: "obj_targets ?obj = desired_targets (Records pub) \<union> dom (map_of p)"
      by (simp add: obj_targets_def targets)
    have empty_d: "current \<noteq> None" if "?d = []"
    proof
      assume "current = None"
      then have "map_of p k = None" for k using dom [of k] by (cases "map_of p k") (auto simp: current_targets_def)
      then have "dom (map_of p) = {}" unfolding dom_def by simp
      moreover have "desired_targets (Records pub) = {}" using that normalizeRecords_targets [OF nf] by simp
      ultimately have "set (endpointTargets ?comb) = {}" using targets by simp
      then show False using comb(3) False by (cases ?comb) (auto simp: endpointTargets_def)
    qed
    have delay: "obj_delay ?obj = Some (if ?d = [] then current_delay pub current else DeletionDelay pub)"
      using pub empty_d cur
      by (auto simp: obj_delay_def build_annotations_lookup valid_publication_def stored_delay_String current_delay_def
          current_ok_def valid_object_def)
    have "pending_key ` set (obj_pending ?obj) \<subseteq> obj_targets ?obj"
      unfolding pend tg using p(1) by (auto simp: wf_pmap_def dom_map_of_conv_image_fst image_iff) fastforce
    moreover have "wf_endpoints (SpecEndpoints ?obj)"
      using keys targets comb(3) by (auto intro: wf_endpointsI)
    moreover have "\<exists>st. parseLifecycle (get_str (mAnnotations ?obj) LifecycleAnnotation) = Inr st"
      by (simp add: build_annotations_lookup lc)
    ultimately have "valid_object ?obj" unfolding valid_object_def using delay by simp
    with fin look tg delay show ?thesis
      by (intro that [of "Some ?obj"]) (simp_all add: current_ok_def current_targets_def)
  qed
qed

lemma build_state_ok:
  "current_ok current \<Longrightarrow>
     build_state pub current = Inr (case current of None \<Rightarrow> [] | Some obj \<Rightarrow> obj_pending obj, current_delay pub current)"
  by (auto simp: current_ok_def build_state_def current_delay_def valid_object_def obj_delay_def obj_pending_def
      split: option.splits)

lemma load_pending_ok:
  "pending_key ` set items \<subseteq> set ct \<Longrightarrow> \<exists>m. load_pending ct [] items = Inr m"
  using load_pending_Inl [of ct "[]" items] by (cases "load_pending ct [] items") auto

text \<open>The pending map of a build, with or without a current object, is the specification's.\<close>

lemma build_next_pending:
  assumes "valid_time now" "valid_publication pub" "current_ok current"
  defines "cs \<equiv> endpointTargets (case current of None \<Rightarrow> [] | Some obj \<Rightarrow> normalizeEndpoints (SpecEndpoints obj))"
    and "ds \<equiv> recordTargets (normalizeRecords (Records pub))"
  obtains m p where "load_pending cs [] (case current of None \<Rightarrow> [] | Some obj \<Rightarrow> obj_pending obj) = Inr m"
    "p = next_pending now (current_delay pub current) ds cs m" "wf_pmap p" "wf_pendings (map snd p)"
    "\<And>k. map_option deadline (map_of p k) =
       (if k \<in> desired_targets (Records pub) then None
        else case status_of current k of
               None \<Rightarrow> None
             | Some None \<Rightarrow> (if current_delay pub current > 0 then Some (now + current_delay pub current) else None)
             | Some (Some d) \<Rightarrow> (if d > now then Some d else None))"
proof -
  have ds: "set ds = desired_targets (Records pub)"
    unfolding ds_def using assms(2) by (intro normalizeRecords_targets) (simp add: valid_publication_def)
  show thesis
  proof (cases current)
    case None
    let ?p = "next_pending now (current_delay pub current) ds cs []"
    have "cs = []" by (simp add: cs_def None)
    then have "map_of ?p k = None" for k by (simp add: next_pending_props(2) wf_pmap_def)
    then have "?p = []" by (metis ext list.exhaust map_of.simps(1) map_of_eq_empty_iff)
    then show ?thesis
      by (intro that [of "[]" ?p]) (simp_all add: None wf_pmap_def wf_pendings_def status_of_def)
  next
    case (Some obj)
    then have obj: "valid_object obj" and cs: "set cs = obj_targets obj"
      using assms(3) by (simp_all add: current_ok_def cs_def obj_targets_def)
    obtain delay where delay: "obj_delay obj = Some delay" using obj by (auto simp: valid_object_def)
    obtain m where m: "load_pending cs [] (obj_pending obj) = Inr m"
      using load_pending_ok obj cs by (metis valid_object_def)
    note bp = build_pending [OF assms(1) obj delay cs m, of ds]
    have eq: "current_delay pub (Some obj) = delay" "status_of (Some obj) = obj_status obj"
      by (simp_all add: Some current_delay_def status_of_def delay)
    show ?thesis
      by (rule that [of m]) (use bp m in \<open>simp_all only: eq option.case Some ds\<close>)
  qed
qed

text \<open>A build is \<open>finish_build\<close> on a pending map whose deadlines are the specification's.\<close>

lemma build_split:
  assumes "valid_time now" "valid_publication pub" "current_ok current"
  obtains p r where "build now identity provider pub current = Inr r" "finish_build identity provider pub current p = Inr r"
    "wf_pmap p" "wf_pendings (map snd p)"
    "\<And>k i. map_of p k = Some i \<Longrightarrow> k \<in> current_targets current \<and> k \<notin> desired_targets (Records pub)"
    "\<And>k. map_option deadline (map_of p k) =
       (if k \<in> desired_targets (Records pub) then None
        else case status_of current k of
               None \<Rightarrow> None
             | Some None \<Rightarrow> (if current_delay pub current > 0 then Some (now + current_delay pub current) else None)
             | Some (Some d) \<Rightarrow> (if d > now then Some d else None))"
proof -
  obtain m p where mp: "load_pending (endpointTargets (case current of None \<Rightarrow> [] | Some obj \<Rightarrow> normalizeEndpoints (SpecEndpoints obj)))
        [] (case current of None \<Rightarrow> [] | Some obj \<Rightarrow> obj_pending obj) = Inr m"
    "p = next_pending now (current_delay pub current) (recordTargets (normalizeRecords (Records pub)))
        (endpointTargets (case current of None \<Rightarrow> [] | Some obj \<Rightarrow> normalizeEndpoints (SpecEndpoints obj))) m"
    and p: "wf_pmap p" "wf_pendings (map snd p)"
    and pk: "\<And>k. map_option deadline (map_of p k) =
       (if k \<in> desired_targets (Records pub) then None
        else case status_of current k of
               None \<Rightarrow> None
             | Some None \<Rightarrow> (if current_delay pub current > 0 then Some (now + current_delay pub current) else None)
             | Some (Some d) \<Rightarrow> (if d > now then Some d else None))"
    by (rule build_next_pending [OF assms]) (rule that)
  have dom: "k \<in> current_targets current \<and> k \<notin> desired_targets (Records pub)" if "map_of p k = Some i" for k i
    using pk [of k] that
    by (auto simp: status_of_def obj_status_def current_targets_def split: if_splits option.splits)
  obtain r where r: "finish_build identity provider pub current p = Inr r"
    by (rule finish_build_props [OF assms(2,3) p, of identity provider]) (use dom in auto)
  have b: "build now identity provider pub current = Inr r"
    unfolding build_finish build_state_ok [OF assms(3)] using mp r by (simp add: Let_def)
  show thesis by (rule that [OF b r p dom pk])
qed

lemma build_refines:
  assumes "valid_time now" "valid_publication pub" "current_ok current"
  obtains r where "build now identity provider pub current = Inr r" "current_ok r"
    "status_of r = sync_status now (current_delay pub current) (desired_targets (Records pub)) (status_of current)"
    "\<And>obj. r = Some obj \<Longrightarrow> obj_delay obj = Some (if normalizeRecords (Records pub) = [] then current_delay pub current else DeletionDelay pub)"
proof -
  obtain p r where b: "build now identity provider pub current = Inr r" and fin: "finish_build identity provider pub current p = Inr r"
    and p: "wf_pmap p" "wf_pendings (map snd p)"
    and dom: "\<And>k i. map_of p k = Some i \<Longrightarrow> k \<in> current_targets current \<and> k \<notin> desired_targets (Records pub)"
    and pk: "\<And>k. map_option deadline (map_of p k) =
       (if k \<in> desired_targets (Records pub) then None
        else case status_of current k of
               None \<Rightarrow> None
             | Some None \<Rightarrow> (if current_delay pub current > 0 then Some (now + current_delay pub current) else None)
             | Some (Some d) \<Rightarrow> (if d > now then Some d else None))"
    by (rule build_split [OF assms, of identity provider]) (rule that)
  obtain r' where r': "finish_build identity provider pub current p = Inr r'" "current_ok r'"
    "current_targets r' = desired_targets (Records pub) \<union> dom (map_of p)"
    "\<And>obj. r' = Some obj \<Longrightarrow> pending_lookup (obj_pending obj) = map_of p"
    "\<And>obj. r' = Some obj \<Longrightarrow> obj_delay obj = Some (if normalizeRecords (Records pub) = [] then current_delay pub current else DeletionDelay pub)"
    by (rule finish_build_props [OF assms(2,3) p, of identity provider]) (use dom in auto)
  have "r' = r" using fin r'(1) by simp
  note r = r'(2-5) [unfolded this]
  have st: "status_of r k = (if k \<in> desired_targets (Records pub) \<union> dom (map_of p) then Some (map_option deadline (map_of p k)) else None)" for k
    using r(2,3) by (auto simp: status_of_def obj_status_def current_targets_def split: option.splits)
  have "status_of r k = sync_status now (current_delay pub current) (desired_targets (Records pub)) (status_of current) k" for k
    using pk [of k] unfolding st sync_status_def
    by (cases "map_of p k") (auto simp: dom_def split: option.splits if_splits)
  with b r(1,4) show thesis by (intro that [of r]) auto
qed

section \<open>Building again changes nothing\<close>

lemma build_annotations_fmlookup:
  "fmlookup (build_annotations identity pub has lc a) k =
     (if k = LifecycleAnnotation then Some lc
      else if has \<and> k = StoredDelayAnnotation then Some (Duration_String (DeletionDelay pub))
      else if iUID identity \<noteq> '''' \<and> k = SourceUIDAnnotation then Some (iUID identity)
      else if k = SourceNameAnnotation then Some (iName identity)
      else if k = SourceNamespaceAnnotation then Some (iNamespace identity)
      else if k = SourceKindAnnotation then Some (iKind identity)
      else if has
      then (case fmlookup (MetadataAnnotations pub) k of
              Some v \<Rightarrow> Some v
            | None \<Rightarrow> (if HasPrefix k externalDNSPrefix then None else fmlookup a k))
      else fmlookup a k)"
  by (simp add: build_annotations_def Let_def fmlookup_fmadd_case del: fmlookup_add split: option.split)

lemma build_annotations_again:
  "build_annotations identity pub has lc (build_annotations identity pub has lc a) = build_annotations identity pub has lc a"
  by (rule fmap_ext) (simp add: build_annotations_fmlookup split: option.split)

lemma build_labels_again: "build_labels identity provider (build_labels identity provider m) = build_labels identity provider m"
  by (rule fmap_ext) (simp add: build_labels_def)

lemma marshal_pmap_eq:
  assumes "wf_pmap p" "wf_pmap p'" "map_of p' = map_of p"
  shows "marshalLifecycle \<lparr>Version = lifecycleVersion, Pending = map snd p'\<rparr> = marshalLifecycle \<lparr>Version = lifecycleVersion, Pending = map snd p\<rparr>"
    and "fst ` set p' = fst ` set p"
proof -
  have "x \<in> set p' \<longleftrightarrow> x \<in> set p" for x
    using assms map_of_eq_Some_iff [of p "fst x" "snd x"] map_of_eq_Some_iff [of p' "fst x" "snd x"] by (simp add: wf_pmap_def)
  then have eq: "set p' = set p" by blast
  then show "fst ` set p' = fst ` set p" by simp
  have keys: "distinct (map pending_key (map snd q))" if "wf_pmap q" for q
    unfolding wf_pmap_keys [OF that] using that by (simp add: wf_pmap_def)
  have inj: "inj_on pending_key (set (map snd p))" using keys [OF assms(1)] unfolding distinct_map by blast
  have "distinct (map snd p)" "distinct (map snd p')"
    using keys assms(1,2) unfolding distinct_map [of pending_key] by blast+
  then have "sortPending (map snd p') = sortPending (map snd p)"
    unfolding sortPending_def using inj eq by (intro sort_key_unique) simp_all
  then show "marshalLifecycle \<lparr>Version = lifecycleVersion, Pending = map snd p'\<rparr> = marshalLifecycle \<lparr>Version = lifecycleVersion, Pending = map snd p\<rparr>"
    by (simp add: marshalLifecycle_def)
qed

lemma finish_build_again:
  assumes pub: "valid_publication pub" and cur: "current_ok current" and p: "wf_pmap p" "wf_pmap p'" "map_of p' = map_of p"
    and dom: "\<And>k i. map_of p k = Some i \<Longrightarrow> k \<in> current_targets current \<and> k \<notin> desired_targets (Records pub)"
    and fin: "finish_build identity provider pub current p = Inr (Some obj)"
  shows "finish_build identity provider pub (Some obj) p' = Inr (Some obj)"
proof -
  let ?d = "normalizeRecords (Records pub)"
  let ?c = "case current of None \<Rightarrow> [] | Some obj \<Rightarrow> normalizeEndpoints (SpecEndpoints obj)"
  let ?C = "combineRecords ?d ?c p"
  let ?base = "case current of None \<Rightarrow> fresh_object identity provider | Some obj \<Rightarrow> obj"
  have nf: "\<forall>r \<in> set (Records pub). nul_free (record_dns_name r)" using pub by (simp add: valid_publication_def)
  have cnf: "\<forall>e \<in> set ?c. nul_free (eDNSName e)"
    using cur by (auto simp: current_ok_def valid_object_def wf_endpoints_def set_normalizeEndpoints split: option.splits)
  have entries: "\<forall>x \<in> set p. pending_entry x" "\<forall>x \<in> set p'. pending_entry x"
    using pending_entryI [OF p(1)] pending_entryI [OF p(2)] dom current_keys [OF cur] unfolding p(3) by blast+
  obtain lc where ne: "?C \<noteq> []" and lc: "marshalLifecycle \<lparr>Version = lifecycleVersion, Pending = map snd p\<rparr> = Inr lc"
    and obj: "obj = ?base\<lparr>SpecEndpoints := map Some ?C, mLabels := build_labels identity provider (mLabels ?base),
         mAnnotations := build_annotations identity pub (?d \<noteq> []) lc (mAnnotations ?base),
         OwnerReferences := withoutSourceOwner (OwnerReferences ?base) identity\<rparr>"
    using fin by (auto simp: finish_build_def Let_def split: if_splits sum.splits)
  have spec: "normalizeEndpoints (SpecEndpoints obj) = ?C"
    by (simp add: obj) (simp add: combineRecords_def Let_def)
  have C: "combineRecords ?d ?C p' = ?C"
    using combineRecords_again [OF normalizeRecords_props(2,1) [OF nf] cnf entries marshal_pmap_eq(2) [OF p]] .
  have same: "map Some ?C = SpecEndpoints obj" "build_labels identity provider (mLabels obj) = mLabels obj"
    "build_annotations identity pub (?d \<noteq> []) lc (mAnnotations obj) = mAnnotations obj"
    "withoutSourceOwner (OwnerReferences obj) identity = OwnerReferences obj"
    by (simp_all add: obj build_annotations_again build_labels_again withoutSourceOwner_def)
  have "finish_build identity provider pub (Some obj) p' =
      Inr (Some (obj\<lparr>SpecEndpoints := map Some ?C, mLabels := build_labels identity provider (mLabels obj),
         mAnnotations := build_annotations identity pub (?d \<noteq> []) lc (mAnnotations obj),
         OwnerReferences := withoutSourceOwner (OwnerReferences obj) identity\<rparr>))"
    using ne lc by (simp add: finish_build_def marshal_pmap_eq(1) [OF p] spec C Let_def)
  then show ?thesis unfolding same by simp
qed

lemma build_again:
  assumes now: "valid_time now" and pub: "valid_publication pub" and cur: "current_ok current"
    and b: "build now identity provider pub current = Inr (Some obj)"
    and later: "\<forall>i \<in> set (obj_pending obj). deadline i > now'"
  shows "build now' identity provider pub (Some obj) = Inr (Some obj)"
proof -
  obtain p where fin: "finish_build identity provider pub current p = Inr (Some obj)" and p: "wf_pmap p" "wf_pendings (map snd p)"
    and dom: "\<And>k i. map_of p k = Some i \<Longrightarrow> k \<in> current_targets current \<and> k \<notin> desired_targets (Records pub)"
  proof (rule build_split [OF now pub cur, of identity provider])
    fix p r assume *: "build now identity provider pub current = Inr r" "finish_build identity provider pub current p = Inr r"
      "wf_pmap p" "wf_pendings (map snd p)"
      "\<And>k i. map_of p k = Some i \<Longrightarrow> k \<in> current_targets current \<and> k \<notin> desired_targets (Records pub)"
    show thesis by (rule that [OF _ *(3,4,5)]) (use * b in simp_all)
  qed
  obtain obj_ok: "valid_object obj" and tg: "obj_targets obj = desired_targets (Records pub) \<union> dom (map_of p)"
    and look: "pending_lookup (obj_pending obj) = map_of p"
    by (rule finish_build_props [OF pub cur p, of identity provider])
      (use dom fin in \<open>auto simp: current_ok_def current_targets_def\<close>)
  let ?ct = "endpointTargets (normalizeEndpoints (SpecEndpoints obj))" and ?dt = "recordTargets (normalizeRecords (Records pub))"
  obtain m where m: "load_pending ?ct [] (obj_pending obj) = Inr m"
    using load_pending_ok [of "obj_pending obj" ?ct] obj_ok by (auto simp: valid_object_def obj_targets_def)
  have mk: "wf_pmap m" "map_of m = map_of p"
    using load_pending_Inr [OF _ m] valid_object_pending [OF obj_ok] look
    by (auto simp: wf_pmap_def wf_pendings_def pending_lookup_def)
  let ?p = "next_pending now' (current_delay pub (Some obj)) ?dt ?ct m"
  have dt: "set ?dt = desired_targets (Records pub)"
    using pub by (intro normalizeRecords_targets) (simp add: valid_publication_def)
  have keep: "deadline i > now'" if "map_of p k = Some i" for k i
    using that later pending_lookup_mem [OF valid_object_pending [OF obj_ok]] look by metis
  have "map_of ?p k = map_of p k" for k
    unfolding next_pending_props(2) [OF mk(1)] mk(2) dt normalizeEndpoints_targets obj_targets_def [symmetric] tg
    using dom [of k] keep [of k] by (cases "map_of p k") (auto simp: dom_def)
  then have "map_of ?p = map_of p" by blast
  from finish_build_again [OF pub cur p(1) next_pending_props(1) [OF mk(1)] this dom fin]
  show ?thesis
    using build_state_ok [of "Some obj" pub] obj_ok m by (simp add: build_finish current_ok_def Let_def)
qed

section \<open>Expiry refines the specification\<close>

definition shorter :: "int \<Rightarrow> int \<Rightarrow> int" where
  "shorter next remaining = (if next = 0 \<or> remaining < next then remaining else next)"

definition remaining_times :: "int \<Rightarrow> pendingTarget list \<Rightarrow> int list" where
  "remaining_times now items = map (\<lambda>i. time_Sub (deadline i) now) (filter (\<lambda>i. deadline i > now) items)"

lemma expire_loop_ok:
  "pending_key ` set items \<subseteq> set ct \<Longrightarrow>
     expire_loop now ct items (next, kept, expired) =
       (foldl shorter next (remaining_times now items),
        Inr (kept @ filter (\<lambda>i. deadline i > now) items, expired @ map pending_key (filter (\<lambda>i. deadline i \<le> now) items)))"
  by (induction items arbitrary: "next" kept expired) (auto simp: shorter_def remaining_times_def)

lemma expire_loop_absent:
  "\<not> pending_key ` set items \<subseteq> set ct \<Longrightarrow> \<exists>e. snd (expire_loop now ct items st) = Inl e \<and> IsInvalidState e"
proof (induction items arbitrary: st)
  case (Cons i items)
  obtain n k x where st: "st = (n, k, x)" by (metis surj_pair)
  show ?case
  proof (cases "pending_key i \<in> set ct")
    case True
    then have "\<not> pending_key ` set items \<subseteq> set ct" using Cons.prems by simp
    from Cons.IH [OF this] True show ?thesis by (simp add: st Let_def)
  qed (simp add: st)
qed simp

lemma shorter_fold:
  "0 \<le> n \<Longrightarrow> \<forall>r \<in> set rs. 0 < r \<Longrightarrow>
     foldl shorter n rs = (if n = 0 then (if rs = [] then 0 else Min (set rs)) else Min (insert n (set rs)))"
proof (induction rs arbitrary: n)
  case (Cons r rs)
  have "Min (insert x (insert y (set rs))) = Min (insert (min x y) (set rs))" for x y :: int
    by (cases rs) (simp_all add: min.assoc)
  with Cons show ?case by (cases "rs = []") (auto simp: shorter_def min_def)
qed simp

lemma drop_expired_targets: "set (endpointTargets (drop_expired ex es)) = set (endpointTargets es) - set ex"
proof -
  have "(n, t, x) \<in> set (endpointTargets (drop_expired ex es)) \<longleftrightarrow> (n, t, x) \<in> set (endpointTargets es) \<and> (n, t, x) \<notin> set ex"
    for n t x
    unfolding set_endpointTargets drop_expired_def by (force simp: filter_empty_conv)
  then show ?thesis by auto
qed

lemma drop_expired_nonempty: "\<forall>e \<in> set (drop_expired ex es). eTargets e \<noteq> []"
  by (auto simp: drop_expired_def)

lemmas drop_expired_props = drop_expired_targets drop_expired_nonempty

definition after_action :: "advance_action \<Rightarrow> DNSEndpoint \<Rightarrow> DNSEndpoint option" where
  "after_action a obj = (case a of Nothing \<Rightarrow> Some obj | DeleteObject \<Rightarrow> None | UpdateObject obj' \<Rightarrow> Some obj')"

lemma pending_lookup_filter:
  "wf_pendings ps \<Longrightarrow>
     pending_lookup (filter P ps) k = (case pending_lookup ps k of None \<Rightarrow> None | Some p \<Rightarrow> (if P p then Some p else None))"
proof -
  have "map (\<lambda>p. (pending_key p, p)) (filter P ps) = filter (\<lambda>(k, p). P p) (map (\<lambda>p. (pending_key p, p)) ps)"
    by (induction ps) auto
  then show "wf_pendings ps \<Longrightarrow> ?thesis"
    by (simp add: pending_lookup_def wf_pendings_def map_of_filter_distinct comp_def split: option.split)
qed

lemma wf_pendings_filter: "wf_pendings ps \<Longrightarrow> wf_pendings (filter P ps)"
  by (auto simp: wf_pendings_def distinct_map_filter)

lemma expire_status_eq:
  assumes "wf_pendings (obj_pending obj)"
  shows "expire_status now (obj_status obj) k =
    (if k \<in> obj_targets obj - pending_key ` {i \<in> set (obj_pending obj). deadline i \<le> now}
     then Some (map_option deadline (pending_lookup (filter (\<lambda>i. deadline i > now) (obj_pending obj)) k)) else None)"
proof (cases "pending_lookup (obj_pending obj) k")
  case None
  then have "k \<notin> pending_key ` set (obj_pending obj)"
    using pending_lookup_mem [OF assms, of k] by auto
  with None show ?thesis by (auto simp: expire_status_def obj_status_def pending_lookup_filter [OF assms])
next
  case (Some i)
  then have i: "i \<in> set (obj_pending obj)" "pending_key i = k" using pending_lookup_mem [OF assms] by auto
  have "k \<in> pending_key ` {i \<in> set (obj_pending obj). deadline i \<le> now} \<longleftrightarrow> deadline i \<le> now"
    using i assms by (auto simp: wf_pendings_def distinct_map inj_on_def)
  with Some show ?thesis by (auto simp: expire_status_def obj_status_def pending_lookup_filter [OF assms])
qed

lemma advance_update:
  assumes obj: "valid_object obj" and ne: "filtered \<noteq> []"
    and filtered: "filtered = drop_expired (map pending_key (filter (\<lambda>i. deadline i \<le> now) (obj_pending obj)))
      (normalizeEndpoints (SpecEndpoints obj))"
    and lc: "marshalLifecycle (st\<lparr>Pending := filter (\<lambda>i. deadline i > now) (obj_pending obj)\<rparr>) = Inr lc"
  defines "obj' \<equiv> obj\<lparr>SpecEndpoints := map Some filtered, mAnnotations := fmupd LifecycleAnnotation lc (mAnnotations obj)\<rparr>"
  shows "valid_object obj' \<and> obj_status obj' = expire_status now (obj_status obj) \<and> obj_delay obj' = obj_delay obj"
proof -
  let ?kept = "filter (\<lambda>i. deadline i > now) (obj_pending obj)"
  let ?ex = "pending_key ` {i \<in> set (obj_pending obj). deadline i \<le> now}"
  note ps = valid_object_pending [OF obj]
  have "parseLifecycle lc = Inr (st\<lparr>Version := lifecycleVersion, Pending := sortPending ?kept\<rparr>)"
    using parse_marshal [of "st\<lparr>Pending := ?kept\<rparr>"] lc wf_pendings_filter [OF ps] by auto
  then have parse: "\<exists>st. parseLifecycle (get_str (mAnnotations obj') LifecycleAnnotation) = Inr st"
    and pend: "obj_pending obj' = sortPending ?kept"
    by (simp_all add: obj'_def obj_pending_def)
  have look: "pending_lookup (obj_pending obj') = pending_lookup ?kept"
  proof
    fix k
    have "pending_lookup (sortPending ?kept) k = Some i \<longleftrightarrow> pending_lookup ?kept k = Some i" for i
      using pending_lookup_mem [of "sortPending ?kept"] pending_lookup_mem [of ?kept] wf_pendings_filter [OF ps] by simp
    then show "pending_lookup (obj_pending obj') k = pending_lookup ?kept k" unfolding pend by (metis option.exhaust)
  qed
  have tg: "set (endpointTargets filtered) = obj_targets obj - ?ex" "obj_targets obj' = obj_targets obj - ?ex"
    by (simp_all add: obj'_def obj_targets_def filtered drop_expired_props)
  have delay: "obj_delay obj' = obj_delay obj"
    by (simp add: obj'_def obj_delay_def annotation_keys)
  have "pending_key ` set (obj_pending obj') \<subseteq> obj_targets obj'"
    using obj ps unfolding pend tg(2) by (auto simp: valid_object_def wf_pendings_def distinct_map inj_on_def)
  moreover have "wf_endpoints (SpecEndpoints obj')"
    using wf_endpointsI [of filtered] drop_expired_props(2) tg(1) current_keys [of "Some obj"] obj
    by (auto simp: obj'_def filtered current_ok_def current_targets_def)
  ultimately have "valid_object obj'" using parse delay obj unfolding valid_object_def by simp
  moreover have "obj_status obj' k = expire_status now (obj_status obj) k" for k
    unfolding expire_status_eq [OF ps] obj_status_def [of obj'] look tg(2) ..
  ultimately show ?thesis using delay by auto
qed

lemma advance_refines:
  assumes obj: "valid_object obj"
  obtains a where "advance_object now next obj = (foldl shorter next (remaining_times now (obj_pending obj)), Inr a)"
    "current_ok (after_action a obj)" "status_of (after_action a obj) = expire_status now (obj_status obj)"
    "a = Nothing \<longleftrightarrow> expire_status now (obj_status obj) = obj_status obj"
    "a = DeleteObject \<longleftrightarrow> expire_status now (obj_status obj) \<noteq> obj_status obj \<and> expire_status now (obj_status obj) = Map.empty"
proof -
  let ?ex = "map pending_key (filter (\<lambda>i. deadline i \<le> now) (obj_pending obj))"
  let ?f = "drop_expired ?ex (normalizeEndpoints (SpecEndpoints obj))"
  note ps = valid_object_pending [OF obj]
  obtain st d where st: "parseLifecycle (get_str (mAnnotations obj) LifecycleAnnotation) = Inr st" "Pending st = obj_pending obj"
    and d: "stored_delay (get_str (mAnnotations obj) StoredDelayAnnotation) = Some d"
    using obj by (auto simp: valid_object_def obj_pending_def obj_delay_def)
  have sub: "pending_key ` set (obj_pending obj) \<subseteq> set (endpointTargets (normalizeEndpoints (SpecEndpoints obj)))"
    using obj by (simp add: valid_object_def obj_targets_def)
  obtain lc where lc: "marshalLifecycle (st\<lparr>Pending := filter (\<lambda>i. deadline i > now) (obj_pending obj)\<rparr>) = Inr lc"
    by (auto simp: marshalLifecycle_def)
  define a where "a = (if ?ex = [] then Nothing else if ?f = [] then DeleteObject
    else UpdateObject (obj\<lparr>SpecEndpoints := map Some ?f, mAnnotations := fmupd LifecycleAnnotation lc (mAnnotations obj)\<rparr>))"
  have adv: "advance_object now next obj = (foldl shorter next (remaining_times now (obj_pending obj)), Inr a)"
    using d st(1) lc by (simp add: advance_object_def Let_def st(2) expire_loop_ok [OF sub] a_def)
  have ex: "set ?ex = pending_key ` {i \<in> set (obj_pending obj). deadline i \<le> now}" by auto
  have tg: "set (endpointTargets ?f) = obj_targets obj - set ?ex" by (simp add: drop_expired_props obj_targets_def)
  have same: "expire_status now (obj_status obj) = obj_status obj" if "?ex = []"
    using that by (auto simp: fun_eq_iff expire_status_eq [OF ps] obj_status_def filter_id_conv filter_empty_conv not_le
        intro!: arg_cong [where f = "map_option deadline"] arg_cong [where f = "\<lambda>xs. pending_lookup xs _"])
  have changed: "expire_status now (obj_status obj) \<noteq> obj_status obj" if ne: "?ex \<noteq> []"
  proof -
    obtain k where "k \<in> set ?ex" using ne by (metis list.set_intros(1) neq_Nil_conv)
    then have "expire_status now (obj_status obj) k = None" "obj_status obj k \<noteq> None"
      using obj by (auto simp: expire_status_eq [OF ps] obj_status_def valid_object_def)
    then show ?thesis by metis
  qed
  have empty: "expire_status now (obj_status obj) = Map.empty" if "?f = []"
    using tg that by (auto simp: fun_eq_iff expire_status_eq [OF ps] ex)
  have left: "expire_status now (obj_status obj) \<noteq> Map.empty" if f: "?f \<noteq> []"
  proof -
    obtain e x where "e \<in> set ?f" "x \<in> set (eTargets e)"
      using f drop_expired_nonempty by (metis list.set_intros(1) neq_Nil_conv)
    then have "(eDNSName e, eRecordType e, x) \<in> obj_targets obj - set ?ex" unfolding tg [symmetric] set_endpointTargets by blast
    then have "expire_status now (obj_status obj) (eDNSName e, eRecordType e, x) \<noteq> None"
      unfolding expire_status_eq [OF ps] ex by simp
    then show ?thesis by metis
  qed
  show thesis
  proof (rule that [OF adv])
    show "a = DeleteObject \<longleftrightarrow> expire_status now (obj_status obj) \<noteq> obj_status obj \<and> expire_status now (obj_status obj) = Map.empty"
      using same changed empty left by (auto simp: a_def)
    show "a = Nothing \<longleftrightarrow> expire_status now (obj_status obj) = obj_status obj" using same changed by (auto simp: a_def)
    show "current_ok (after_action a obj)" "status_of (after_action a obj) = expire_status now (obj_status obj)"
      using same empty advance_update [OF obj _ refl lc] obj
      by (auto simp: a_def after_action_def current_ok_def status_of_def)
  qed
qed

section \<open>Properties\<close>

text \<open>C8: a reconciliation implements its specification.  For every valid publication and current
  object \<^verbatim>\<open>build\<close> succeeds; the new object is valid again; its targets are exactly the desired ones,
  active, together with the retired ones whose deadline has not passed; a target that stops being desired
  gets the deadline \<open>now\<close> plus the delay stored with it, an existing deadline never moves; and nothing is
  left (\<open>None\<close>) exactly when no target remains.\<close>

theorem build_correct:
  assumes "valid_time now" "valid_publication pub" "current_ok current"
  shows "\<exists>r. build now identity provider pub current = Inr r \<and> current_ok r \<and>
    status_of r = sync_status now (current_delay pub current) (desired_targets (Records pub)) (status_of current) \<and>
    (\<forall>obj. r = Some obj \<longrightarrow>
       obj_delay obj = Some (if normalizeRecords (Records pub) = [] then current_delay pub current else DeletionDelay pub))"
  by (rule build_refines [OF assms, of identity provider]) blast

definition sample_now :: int where
  "sample_now = 1767225600000000000"

definition sample_record :: Record where
  "sample_record = \<lparr>rDNSName = ''App.example.com.'', rRecordType = RecordTypeA, rTargets = [''192.0.2.1''], rTTL = 300,
     rProviderSpecific = []\<rparr>"

definition sample_publication :: Publication where
  "sample_publication = \<lparr>ProviderName = ''lan'', Records = [sample_record], MetadataAnnotations = fmempty,
     DeletionDelay = 60000000000\<rparr>"

lemma sample_valid_time: "valid_time sample_now"
  by (simp add: valid_time_def sample_now_def)

lemma sample_dns_name: "record_dns_name sample_record = ''app.example.com''"
  by code_simp

lemma sample_desired: "desired_targets (Records sample_publication) = {(''app.example.com'', ''A'', ''192.0.2.1'')}"
  by (simp add: desired_targets_def sample_publication_def record_targets_def sample_dns_name)
    (simp add: sample_record_def RecordTypeA_def)

lemma sample_valid_publication: "valid_publication sample_publication"
  unfolding valid_publication_def sample_desired
  by (simp add: wf_key_def sample_publication_def max_duration_def sample_dns_name nul_free_def)

lemma current_ok_None [simp]: "current_ok None"
  by (simp add: current_ok_def)

theorem build_correct_witness:
  "\<exists>obj. build sample_now sample_identity ''lan'' sample_publication None = Inr (Some obj) \<and>
         obj_status obj = [(''app.example.com'', ''A'', ''192.0.2.1'') \<mapsto> None]"
proof -
  obtain r where b: "build sample_now sample_identity ''lan'' sample_publication None = Inr r"
    and st: "status_of r = sync_status sample_now (current_delay sample_publication None)
      (desired_targets (Records sample_publication)) (status_of None)"
    using build_correct [OF sample_valid_time sample_valid_publication current_ok_None, of sample_identity "''lan''"] by blast
  have eq: "status_of r = [(''app.example.com'', ''A'', ''192.0.2.1'') \<mapsto> None]"
    unfolding st sample_desired by (rule ext) (simp add: sync_status_def status_of_def)
  then have "status_of r (''app.example.com'', ''A'', ''192.0.2.1'') = Some None" by simp
  then obtain obj where "r = Some obj" by (cases r) (simp_all add: status_of_def)
  with b eq show ?thesis by (simp add: status_of_def)
qed

text \<open>What the writer can read of an object.\<close>

definition readable_object :: "DNSEndpoint \<Rightarrow> bool" where
  "readable_object obj \<longleftrightarrow>
     (\<exists>st. parseLifecycle (get_str (mAnnotations obj) LifecycleAnnotation) = Inr st) \<and> obj_delay obj \<noteq> None \<and>
     pending_key ` set (obj_pending obj) \<subseteq> obj_targets obj"

lemma finish_build_total: "finish_build identity provider pub current p \<noteq> Inl e"
  by (auto simp: finish_build_def marshalLifecycle_def Let_def)

lemma build_state_cases:
  obtains (corrupt) e where "build_state pub (Some obj) = Inl e" "IsInvalidState e" "\<not> readable_object obj"
  | (readable) d st where "build_state pub (Some obj) = Inr (obj_pending obj, d)" "obj_delay obj = Some d"
      "parseLifecycle (get_str (mAnnotations obj) LifecycleAnnotation) = Inr st"
proof (cases "parseLifecycle (get_str (mAnnotations obj) LifecycleAnnotation)")
  case (Inl e)
  then show thesis by (intro corrupt [of "mark_invalidState e"]) (simp_all add: build_state_def readable_object_def)
next
  case (Inr st)
  then show thesis
    by (cases "obj_delay obj")
      (auto intro: corrupt readable simp: build_state_def readable_object_def obj_delay_def obj_pending_def)
qed

text \<open>C14: a build fails closed and only on corrupt state: it returns an error exactly when the current
  object's lifecycle annotation or stored delay is missing or malformed, or a pending target is absent
  from the spec, and the error is always the deterministic invalid-state error.\<close>

theorem build_fails_closed:
  "case build now identity provider pub current of
     Inl e \<Rightarrow> IsInvalidState e \<and> (\<exists>obj. current = Some obj \<and> \<not> readable_object obj)
   | Inr _ \<Rightarrow> (case current of None \<Rightarrow> True | Some obj \<Rightarrow> readable_object obj)"
proof (cases current)
  case None
  then show ?thesis
    using finish_build_total [of identity provider pub None] by (auto simp: build_finish build_state_def Let_def split: sum.split)
next
  case (Some obj)
  let ?ct = "endpointTargets (normalizeEndpoints (SpecEndpoints obj))"
  show ?thesis
  proof (cases rule: build_state_cases [of pub obj])
    case corrupt
    then show ?thesis by (simp add: build_finish Some)
  next
    case (readable d st)
    show ?thesis
    proof (cases "load_pending ?ct [] (obj_pending obj)")
      case (Inl e)
      with load_pending_Inl [OF Inl] readable show ?thesis
        by (simp add: build_finish Some readable_object_def obj_targets_def)
    next
      case (Inr m)
      with load_pending_Inr [OF _ Inr] readable finish_build_total [of identity provider pub current] show ?thesis
        by (auto simp: build_finish Some Let_def readable_object_def obj_targets_def wf_pmap_def split: sum.split)
    qed
  qed
qed

text \<open>C13: reconciliation settles.  Once a build has produced an object, building again from it with the
  same publication, at any instant before the next deadline, yields exactly the same object, which
  \<^verbatim>\<open>equivalent\<close> recognises, so the writer issues no further update.\<close>

theorem build_stable:
  assumes "valid_time now" "valid_publication pub" "current_ok current"
    and "build now identity provider pub current = Inr (Some obj)"
    and "\<forall>i \<in> set (obj_pending obj). deadline i > now'"
  shows "build now' identity provider pub (Some obj) = Inr (Some obj) \<and> equivalent obj obj"
  using build_again [OF assms] by (simp add: equivalent_def)

lemma sample_build:
  obtains obj where "build sample_now sample_identity ''lan'' sample_publication None = Inr (Some obj)" "valid_object obj"
    "obj_status obj = [(''app.example.com'', ''A'', ''192.0.2.1'') \<mapsto> None]" "obj_delay obj = Some 60000000000"
proof -
  obtain r where b: "build sample_now sample_identity ''lan'' sample_publication None = Inr r" and ok: "current_ok r"
    and st: "status_of r = sync_status sample_now (current_delay sample_publication None)
      (desired_targets (Records sample_publication)) (status_of None)"
    and d: "\<And>obj. r = Some obj \<Longrightarrow> obj_delay obj =
      Some (if normalizeRecords (Records sample_publication) = [] then current_delay sample_publication None
            else DeletionDelay sample_publication)"
    by (rule build_refines [OF sample_valid_time sample_valid_publication current_ok_None, of sample_identity "''lan''"]) (rule that)
  have eq: "status_of r = [(''app.example.com'', ''A'', ''192.0.2.1'') \<mapsto> None]"
    unfolding st sample_desired by (rule ext) (simp add: sync_status_def status_of_def)
  then have "status_of r (''app.example.com'', ''A'', ''192.0.2.1'') = Some None" by simp
  then obtain obj where "r = Some obj" by (cases r) (simp_all add: status_of_def)
  with b ok eq d [of obj] show thesis
    by (intro that [of obj]) (simp_all add: status_of_def current_ok_def current_delay_def sample_publication_def)
qed

lemma obj_pending_status:
  "valid_object obj \<Longrightarrow> i \<in> set (obj_pending obj) \<Longrightarrow> obj_status obj (pending_key i) = Some (Some (deadline i))"
  using pending_lookup_mem [OF valid_object_pending, of obj "pending_key i" i]
  by (auto simp: obj_status_def valid_object_def)

theorem build_stable_witness:
  "\<exists>obj. build sample_now sample_identity ''lan'' sample_publication None = Inr (Some obj) \<and>
         build (sample_now + 1) sample_identity ''lan'' sample_publication (Some obj) = Inr (Some obj)"
proof -
  obtain obj where obj: "build sample_now sample_identity ''lan'' sample_publication None = Inr (Some obj)" "valid_object obj"
    and st: "obj_status obj = [(''app.example.com'', ''A'', ''192.0.2.1'') \<mapsto> None]" by (rule sample_build)
  have "\<forall>i \<in> set (obj_pending obj). deadline i > sample_now + 1"
    using obj_pending_status [OF obj(2)] st by (fastforce split: if_splits)
  from build_stable [OF sample_valid_time sample_valid_publication current_ok_None obj(1) this] obj(1)
  show ?thesis by blast
qed

text \<open>C12: \<^verbatim>\<open>Advance\<close> expires exactly what is due.  On a valid object it succeeds; the pending targets whose
  deadline has passed disappear and nothing else changes; nothing is written when none is due, the object
  is deleted when no target is left; and the returned wait is the shortest remaining time, 0 when no
  pending target remains.\<close>

theorem advance_correct:
  assumes "valid_object obj"
  shows "\<exists>a. advance_object now 0 obj =
      ((let rest = remaining_times now (obj_pending obj) in if rest = [] then 0 else Min (set rest)), Inr a) \<and>
    current_ok (after_action a obj) \<and> status_of (after_action a obj) = expire_status now (obj_status obj) \<and>
    (a = Nothing \<longleftrightarrow> expire_status now (obj_status obj) = obj_status obj) \<and>
    (a = DeleteObject \<longleftrightarrow> expire_status now (obj_status obj) \<noteq> obj_status obj \<and> expire_status now (obj_status obj) = Map.empty)"
proof -
  have "0 < time_Sub (deadline i) now" if "deadline i > now" for i
    using that time_Sub_pos [of "deadline i" now] by linarith
  then have "\<forall>r \<in> set (remaining_times now (obj_pending obj)). 0 < r" by (auto simp: remaining_times_def)
  note fold = shorter_fold [OF order.refl this]
  show ?thesis
    by (rule advance_refines [OF assms, of now 0]) (use fold in \<open>simp only: Let_def simp_thms if_True, blast\<close>)
qed

text \<open>A retired object: the sample target stopped being desired.\<close>

lemma sample_retired:
  obtains obj where "valid_object obj"
    "obj_status obj = [(''app.example.com'', ''A'', ''192.0.2.1'') \<mapsto> Some (sample_now + 60000000000)]"
proof -
  obtain obj where obj: "valid_object obj" "obj_status obj = [(''app.example.com'', ''A'', ''192.0.2.1'') \<mapsto> None]"
    "obj_delay obj = Some 60000000000" by (rule sample_build)
  have pub: "valid_publication zero_Publication"
    by (simp add: valid_publication_def zero_Publication_def desired_targets_def max_duration_def)
  have ok: "current_ok (Some obj)" using obj by (simp add: current_ok_def)
  obtain r where ok: "current_ok r" and st: "status_of r = sync_status sample_now (current_delay zero_Publication (Some obj))
      (desired_targets (Records zero_Publication)) (status_of (Some obj))"
    by (rule build_refines [OF sample_valid_time pub ok]) (rule that)
  have eq: "status_of r = [(''app.example.com'', ''A'', ''192.0.2.1'') \<mapsto> Some (sample_now + 60000000000)]"
    unfolding st by (rule ext)
      (simp add: sync_status_def status_of_def obj current_delay_def zero_Publication_def desired_targets_def)
  then have "status_of r (''app.example.com'', ''A'', ''192.0.2.1'') \<noteq> None" by simp
  then obtain obj' where "r = Some obj'" by (cases r) (simp_all add: status_of_def)
  with ok eq show thesis by (intro that [of obj']) (simp_all add: status_of_def current_ok_def)
qed

theorem advance_correct_witness:
  "\<exists>obj. advance_object (sample_now + 60000000000) 0 obj = (0, Inr DeleteObject)"
proof -
  obtain obj where obj: "valid_object obj"
    and st: "obj_status obj = [(''app.example.com'', ''A'', ''192.0.2.1'') \<mapsto> Some (sample_now + 60000000000)]"
    by (rule sample_retired)
  have due: "deadline i = sample_now + 60000000000" if "i \<in> set (obj_pending obj)" for i
    using obj_pending_status [OF obj that] st by (auto split: if_splits)
  then have rest: "remaining_times (sample_now + 60000000000) (obj_pending obj) = []" by (simp add: remaining_times_def)
  have gone: "expire_status (sample_now + 60000000000) (obj_status obj) = Map.empty"
    by (rule ext) (simp add: st expire_status_def)
  have "obj_status obj \<noteq> Map.empty" unfolding st by (metis fun_upd_same option.distinct(1))
  with advance_correct [OF obj, of "sample_now + 60000000000"] show ?thesis
    unfolding rest gone by auto
qed

lemma finish_build_object:
  assumes "finish_build identity provider pub current p = Inr (Some obj)"
  shows "\<exists>base lc. base = (case current of None \<Rightarrow> fresh_object identity provider | Some obj \<Rightarrow> obj) \<and>
    SpecEndpoints obj = map Some (combineRecords (normalizeRecords (Records pub))
      (case current of None \<Rightarrow> [] | Some obj \<Rightarrow> normalizeEndpoints (SpecEndpoints obj)) p) \<and>
    mName obj = mName base \<and> mNamespace obj = mNamespace base \<and> ResourceVersion obj = ResourceVersion base \<and>
    mLabels obj = build_labels identity provider (mLabels base) \<and>
    mAnnotations obj = build_annotations identity pub (normalizeRecords (Records pub) \<noteq> []) lc (mAnnotations base) \<and>
    OwnerReferences obj = withoutSourceOwner (OwnerReferences base) identity"
  using assms by (auto simp: finish_build_def Let_def split: if_splits sum.splits)

lemma build_object_facts:
  assumes "valid_time now" "valid_publication pub" "current_ok current"
    and "build now identity provider pub current = Inr (Some obj)"
  shows "\<exists>es. SpecEndpoints obj = map Some es \<and> distinct (map record_id es) \<and> (\<forall>e \<in> set es. eTargets e \<noteq> []) \<and>
      (\<forall>e \<in> set es. \<forall>d \<in> set (normalizeRecords (Records pub)). record_id e = record_id d \<longrightarrow> meta e = meta d)"
    and "fmlookup (mLabels obj) ManagedByLabel = Some ManagedByValue \<and> fmlookup (mLabels obj) ProviderLabel = Some provider \<and>
      fmlookup (mLabels obj) SourceKeyLabel = Some (SourceKey identity)"
    and "\<forall>old k. current = Some old \<longrightarrow> \<not> HasPrefix k AnnotationPrefix \<longrightarrow> \<not> HasPrefix k externalDNSPrefix \<longrightarrow>
      fmlookup (MetadataAnnotations pub) k = None \<longrightarrow> fmlookup (mAnnotations obj) k = fmlookup (mAnnotations old) k"
    and "\<forall>r \<in> set (OwnerReferences obj). \<not> (oAPIVersion r = iAPIVersion identity \<and> oKind r = iKind identity \<and> oName r = iName identity)"
proof -
  obtain p where fin: "finish_build identity provider pub current p = Inr (Some obj)" and p: "wf_pmap p"
    and dom: "\<And>k i. map_of p k = Some i \<Longrightarrow> k \<in> current_targets current"
  proof (rule build_split [OF assms(1-3), of identity provider])
    fix p r assume *: "build now identity provider pub current = Inr r" "finish_build identity provider pub current p = Inr r"
      "wf_pmap p" "\<And>k i. map_of p k = Some i \<Longrightarrow> k \<in> current_targets current \<and> k \<notin> desired_targets (Records pub)"
    show thesis by (rule that [OF _ *(3)]) (use * assms(4) in auto)
  qed
  let ?d = "normalizeRecords (Records pub)"
  let ?c = "case current of None \<Rightarrow> [] | Some obj \<Rightarrow> normalizeEndpoints (SpecEndpoints obj)"
  from finish_build_object [OF fin] obtain base lc where base: "base = (case current of None \<Rightarrow> fresh_object identity provider | Some obj \<Rightarrow> obj)"
    and obj: "SpecEndpoints obj = map Some (combineRecords ?d ?c p)" "mLabels obj = build_labels identity provider (mLabels base)"
      "mAnnotations obj = build_annotations identity pub (?d \<noteq> []) lc (mAnnotations base)"
      "OwnerReferences obj = withoutSourceOwner (OwnerReferences base) identity" by blast
  have nf: "\<forall>r \<in> set (Records pub). nul_free (record_dns_name r)" using assms(2) by (simp add: valid_publication_def)
  have cnf: "\<forall>e \<in> set ?c. nul_free (eDNSName e)"
    using assms(3) by (auto simp: current_ok_def valid_object_def wf_endpoints_def set_normalizeEndpoints split: option.splits)
  have entries: "\<forall>x \<in> set p. pending_entry x" using pending_entryI [OF p] dom current_keys [OF assms(3)] by blast
  note comb = combineRecords_props [OF normalizeRecords_props(2,1) [OF nf] cnf entries]
  have norm: "normalize_endpoint d = d" if "d \<in> set ?d" for d
    using that by (auto simp: normalizeRecords_def set_normalizeEndpoints)
  show "\<exists>es. SpecEndpoints obj = map Some es \<and> distinct (map record_id es) \<and> (\<forall>e \<in> set es. eTargets e \<noteq> []) \<and>
      (\<forall>e \<in> set es. \<forall>d \<in> set ?d. record_id e = record_id d \<longrightarrow> meta e = meta d)"
    using obj(1) comb(2-4) norm by (intro exI [of _ "combineRecords ?d ?c p"]) simp
  show "fmlookup (mLabels obj) ManagedByLabel = Some ManagedByValue \<and> fmlookup (mLabels obj) ProviderLabel = Some provider \<and>
      fmlookup (mLabels obj) SourceKeyLabel = Some (SourceKey identity)"
    unfolding obj(2) build_labels_def by (simp add: ManagedByLabel_def ProviderLabel_def SourceKeyLabel_def AnnotationPrefix_def)
  have own: "HasPrefix k AnnotationPrefix"
    if "k \<in> {LifecycleAnnotation, StoredDelayAnnotation, SourceUIDAnnotation, SourceNameAnnotation, SourceNamespaceAnnotation, SourceKindAnnotation}" for k
    using that by (auto simp: annotation_keys HasPrefix_def)
  then show "\<forall>old k. current = Some old \<longrightarrow> \<not> HasPrefix k AnnotationPrefix \<longrightarrow> \<not> HasPrefix k externalDNSPrefix \<longrightarrow>
      fmlookup (MetadataAnnotations pub) k = None \<longrightarrow> fmlookup (mAnnotations obj) k = fmlookup (mAnnotations old) k"
    unfolding obj(3) build_annotations_fmlookup base by auto
  show "\<forall>r \<in> set (OwnerReferences obj). \<not> (oAPIVersion r = iAPIVersion identity \<and> oKind r = iKind identity \<and> oName r = iName identity)"
    unfolding obj(4) withoutSourceOwner_def by simp
qed

text \<open>C16: the object a build produces.  It has one record per name and type and no empty record; a desired
  record carries the TTL and the provider properties of the publication; the ownership labels name labdns,
  the provider and the source; annotations of other tools survive; the source is no owner reference, so
  deleting the source does not garbage-collect records that still wait for their deadline.\<close>

theorem build_metadata:
  assumes "valid_time now" "valid_publication pub" "current_ok current"
    and "build now identity provider pub current = Inr (Some obj)"
  shows "(\<exists>es. SpecEndpoints obj = map Some es \<and> distinct (map record_id es) \<and> (\<forall>e \<in> set es. eTargets e \<noteq> []) \<and>
      (\<forall>e \<in> set es. \<forall>d \<in> set (normalizeRecords (Records pub)). record_id e = record_id d \<longrightarrow> meta e = meta d)) \<and>
    (fmlookup (mLabels obj) ManagedByLabel = Some ManagedByValue \<and> fmlookup (mLabels obj) ProviderLabel = Some provider \<and>
      fmlookup (mLabels obj) SourceKeyLabel = Some (SourceKey identity)) \<and>
    (\<forall>old k. current = Some old \<longrightarrow> \<not> HasPrefix k AnnotationPrefix \<longrightarrow> \<not> HasPrefix k externalDNSPrefix \<longrightarrow>
      fmlookup (MetadataAnnotations pub) k = None \<longrightarrow> fmlookup (mAnnotations obj) k = fmlookup (mAnnotations old) k) \<and>
    (\<forall>r \<in> set (OwnerReferences obj). \<not> (oAPIVersion r = iAPIVersion identity \<and> oKind r = iKind identity \<and> oName r = iName identity))"
  by (intro conjI build_object_facts [OF assms])

theorem build_metadata_witness:
  "\<exists>obj. build sample_now sample_identity ''lan'' sample_publication None = Inr (Some obj) \<and>
         fmlookup (mLabels obj) ProviderLabel = Some ''lan'' \<and>
         fmlookup (mLabels obj) SourceKeyLabel = Some (SourceKey sample_identity)"
proof -
  obtain obj where obj: "build sample_now sample_identity ''lan'' sample_publication None = Inr (Some obj)" by (rule sample_build)
  from build_metadata [OF sample_valid_time sample_valid_publication current_ok_None obj] obj show ?thesis by blast
qed

end
