(* ===== verification/Writer.thy ===== *)
theory Writer
  imports Build Kube_Types
begin

text \<open>
  The half of \<^verbatim>\<open>internal/dnsendpoint/writer.go\<close> that talks to the Kubernetes API: \<open>Apply\<close>,
  \<open>applyOne\<close> and \<open>Advance\<close>.  The client is a record of functions on a world \<open>'w\<close>, and
  \<^verbatim>\<open>retry.RetryOnConflict\<close> is a function parameter; neither is under \<^verbatim>\<open>src/\<close>.  What they are documented
  to do is stated by \<open>api_doc\<close> and \<open>retry_doc\<close>.  \<open>apply_attempt\<close> and \<open>advance_attempt\<close> are the
  closures passed to the retry loop; \<open>Advance\<close> shares its variable \<open>next\<close> between the attempts, so it
  is part of the state they run on.

  The writer reaches the API only through compare-and-set requests on one object, so its effect on an
  object is a sequence of \<open>step\<close>s: reconciliations, expiries and the passing of time.  \<open>run_retains\<close>
  is the guarantee the deletion delay exists for.
\<close>

section \<open>The client\<close>

record 'w kube =
  list_endpoints :: "string \<Rightarrow> (string \<times> string) list \<Rightarrow> 'w \<Rightarrow> DNSEndpoint list result \<times> 'w"
  get_endpoint :: "object_key \<Rightarrow> 'w \<Rightarrow> DNSEndpoint result \<times> 'w"
  create_endpoint :: "DNSEndpoint option \<Rightarrow> 'w \<Rightarrow> goerr option \<times> 'w"
  update_endpoint :: "DNSEndpoint \<Rightarrow> 'w \<Rightarrow> goerr option \<times> 'w"
  delete_endpoint :: "DNSEndpoint \<Rightarrow> string \<Rightarrow> 'w \<Rightarrow> goerr option \<times> 'w"
  clock_now :: "'w \<Rightarrow> int"

type_synonym 's retrier = "('s \<Rightarrow> goerr option \<times> 's) \<Rightarrow> 's \<Rightarrow> goerr option \<times> 's"

section \<open>Apply\<close>

definition object_context :: "DNSEndpoint \<Rightarrow> string" where
  "object_context obj = Sprintf ''DNSEndpoint %s/%s'' [FStr (mNamespace obj), FStr (mName obj)]"

text \<open>The checks on one listed object, in order, before anything is written.\<close>

definition check_existing :: "Identity \<Rightarrow> DNSEndpoint \<Rightarrow> goerr option" where
  "check_existing identity obj =
     (case parseLifecycle (get_str (mAnnotations obj) LifecycleAnnotation) of
        Inl e \<Rightarrow> Some (mark_invalidState (WrapErr (object_context obj @ '': '') e))
      | Inr state \<Rightarrow>
          (let currentTargets = endpointTargets (normalizeEndpoints (SpecEndpoints obj)) in
           case find (\<lambda>item. pending_key item \<notin> set currentTargets) (Pending state) of
             Some item \<Rightarrow>
               Some (mark_invalidState (ErrMsg (object_context obj @
                 Sprintf '' lifecycle pending target %q/%s/%s is absent from spec''
                   [FStr (pDNSName item), FStr (pRecordType item), FStr (pTarget item)])))
           | None \<Rightarrow>
               (let value = get_str (mAnnotations obj) StoredDelayAnnotation in
                if stored_delay value = None
                then Some (mark_invalidState (ErrMsg (object_context obj @
                       Sprintf '' has missing or invalid stored deletion delay %q'' [FStr value])))
                else let provider = get_str (mLabels obj) ProviderLabel in
                  if provider = '''' \<or> mName obj \<noteq> ObjectName identity provider
                  then Some (mark_invalidState (ErrMsg (object_context obj @ '' has inconsistent provider identity metadata'')))
                  else None)))"

fun index_existing :: "Identity \<Rightarrow> (string \<times> DNSEndpoint) list \<Rightarrow> DNSEndpoint list \<Rightarrow> (string \<times> DNSEndpoint) list result" where
  "index_existing identity byProvider [] = Inr byProvider"
| "index_existing identity byProvider (obj # objs) =
     (case check_existing identity obj of
        Some e \<Rightarrow> Inl e
      | None \<Rightarrow>
          (let provider = get_str (mLabels obj) ProviderLabel in
           if map_of byProvider provider \<noteq> None
           then Inl (mark_invalidState (ErrMsg (Sprintf ''multiple generated DNSEndpoints found for provider %q'' [FStr provider])))
           else index_existing identity (AList.update provider obj byProvider) objs))"

fun index_desired :: "(string \<times> Publication) list \<Rightarrow> Publication list \<Rightarrow> (string \<times> Publication) list result" where
  "index_desired desired [] = Inr desired"
| "index_desired desired (pub # pubs) =
     (if map_of desired (ProviderName pub) \<noteq> None
      then Inl (ErrMsg (Sprintf ''duplicate publication for provider %q'' [FStr (ProviderName pub)]))
      else if ProviderName pub = '''' \<or> DeletionDelay pub < 0
      then Inl (ErrMsg (Sprintf ''invalid publication for provider %q'' [FStr (ProviderName pub)]))
      else index_desired (AList.update (ProviderName pub) pub desired) pubs)"

definition owned_by :: "Identity \<Rightarrow> string \<Rightarrow> DNSEndpoint \<Rightarrow> bool" where
  "owned_by identity provider obj \<longleftrightarrow>
     get_str (mLabels obj) ManagedByLabel = ManagedByValue \<and> get_str (mLabels obj) SourceKeyLabel = SourceKey identity \<and>
     get_str (mLabels obj) ProviderLabel = provider"

definition new_conflict :: "string \<Rightarrow> goerr \<Rightarrow> goerr" where
  "new_conflict name e =
     StatusErr Conflict (Sprintf ''Operation cannot be fulfilled on dnsendpoints.externaldns.k8s.io %q: %s'' [FStr name, FStr (Error e)])"

definition apply_attempt ::
  "'w kube \<Rightarrow> Identity \<Rightarrow> string \<Rightarrow> Publication \<Rightarrow> bool \<Rightarrow> 'w \<Rightarrow> goerr option \<times> 'w" where
  "apply_attempt K identity provider publication selected w =
     (let name = ObjectName identity provider;
          (got, w1) = get_endpoint K (iNamespace identity, name) w
      in case got of
           Inl e \<Rightarrow>
             (if IsNotFound e
              then (if \<not> selected \<or> length (Records publication) = 0 then (None, w1)
                    else case build (clock_now K w1) identity provider publication None of
                           Inl buildErr \<Rightarrow> (Some buildErr, w1)
                         | Inr created \<Rightarrow>
                             (case create_endpoint K created w1 of
                                (Some ce, w2) \<Rightarrow> (Some (if IsAlreadyExists ce then new_conflict name ce else ce), w2)
                              | (None, w2) \<Rightarrow> (None, w2)))
              else (Some e, w1))
         | Inr current \<Rightarrow>
             (if \<not> owned_by identity provider current
              then (Some (mark_invalidState (ErrMsg (Sprintf ''refusing to overwrite DNSEndpoint %s/%s with incompatible ownership metadata''
                     [FStr (iNamespace identity), FStr name]))), w1)
              else case build (clock_now K w1) identity provider publication (Some current) of
                     Inl buildErr \<Rightarrow> (Some buildErr, w1)
                   | Inr None \<Rightarrow> delete_endpoint K current (ResourceVersion current) w1
                   | Inr (Some updated) \<Rightarrow>
                       (if equivalent current updated then (None, w1)
                        else update_endpoint K (updated\<lparr>ResourceVersion := ResourceVersion current\<rparr>) w1)))"

definition applyOne ::
  "'w kube \<Rightarrow> 'w retrier \<Rightarrow> Identity \<Rightarrow> string \<Rightarrow> Publication \<Rightarrow> bool \<Rightarrow> 'w \<Rightarrow> goerr option \<times> 'w" where
  "applyOne K retry identity provider publication selected w =
     retry (apply_attempt K identity provider publication selected) w"

fun apply_providers ::
  "'w kube \<Rightarrow> 'w retrier \<Rightarrow> Identity \<Rightarrow> (string \<times> Publication) list \<Rightarrow> string list \<Rightarrow> 'w \<Rightarrow> goerr option \<times> 'w" where
  "apply_providers K retry identity desired [] w = (None, w)"
| "apply_providers K retry identity desired (provider # providers) w =
     (let (publication, selected) =
            (case map_of desired provider of Some pub \<Rightarrow> (pub, True) | None \<Rightarrow> (zero_Publication, False))
      in case applyOne K retry identity provider publication selected w of
           (Some e, w') \<Rightarrow> (Some e, w')
         | (None, w') \<Rightarrow> apply_providers K retry identity desired providers w')"

definition all_providers :: "(string \<times> Publication) list \<Rightarrow> (string \<times> DNSEndpoint) list \<Rightarrow> string list" where
  "all_providers desired byProvider =
     sort (map fst desired @ filter (\<lambda>provider. provider \<notin> set (map fst desired)) (map fst byProvider))"

definition Apply :: "'w kube \<Rightarrow> 'w retrier \<Rightarrow> Identity \<Rightarrow> Publication list \<Rightarrow> 'w \<Rightarrow> goerr option \<times> 'w" where
  "Apply K retry identity publications w =
     (case list_endpoints K (iNamespace identity)
             [(ManagedByLabel, ManagedByValue), (SourceKeyLabel, SourceKey identity)] w of
        (Inl e, w1) \<Rightarrow> (Some (WrapErr ''list generated DNSEndpoints: '' e), w1)
      | (Inr items, w1) \<Rightarrow>
          (case index_existing identity [] items of
             Inl e \<Rightarrow> (Some e, w1)
           | Inr byProvider \<Rightarrow>
               (case index_desired [] publications of
                  Inl e \<Rightarrow> (Some e, w1)
                | Inr desired \<Rightarrow> apply_providers K retry identity desired (all_providers desired byProvider) w1)))"

section \<open>Advance\<close>

definition advance_attempt :: "'w kube \<Rightarrow> object_key \<Rightarrow> 'w \<times> int \<Rightarrow> goerr option \<times> 'w \<times> int" where
  "advance_attempt K key st =
     (let (w, next) = st; (got, w1) = get_endpoint K key w
      in case got of
           Inl e \<Rightarrow> (if IsNotFound e then (None, w1, next) else (Some e, w1, next))
         | Inr current \<Rightarrow>
             (if get_str (mLabels current) ManagedByLabel \<noteq> ManagedByValue then (None, w1, next)
              else case advance_object (clock_now K w1) next current of
                     (next', Inl e) \<Rightarrow> (Some e, w1, next')
                   | (next', Inr Nothing) \<Rightarrow> (None, w1, next')
                   | (next', Inr DeleteObject) \<Rightarrow>
                       (let (err, w2) = delete_endpoint K current (ResourceVersion current) w1 in (err, w2, next'))
                   | (next', Inr (UpdateObject obj)) \<Rightarrow> (let (err, w2) = update_endpoint K obj w1 in (err, w2, next'))))"

definition Advance :: "'w kube \<Rightarrow> ('w \<times> int) retrier \<Rightarrow> object_key \<Rightarrow> 'w \<Rightarrow> (int \<times> goerr option) \<times> 'w" where
  "Advance K retry key w = (let (err, w', next) = retry (advance_attempt K key) (w, 0) in ((next, err), w'))"

section \<open>One object over time\<close>

type_synonym writer_state = "int \<times> DNSEndpoint option"

datatype event = Sync Identity string Publication | Expire | Tick int

text \<open>A reconciliation writes what it built, or nothing when that is equivalent; an expiry does what
  \<^verbatim>\<open>Advance\<close> decides; time passes.\<close>

inductive step :: "writer_state \<Rightarrow> event \<Rightarrow> writer_state \<Rightarrow> bool" where
  sync: "valid_publication pub \<Longrightarrow> build now identity provider pub cur = Inr r \<Longrightarrow>
    step (now, cur) (Sync identity provider pub) (now, r)"
| skip: "valid_publication pub \<Longrightarrow> build now identity provider pub (Some obj) = Inr (Some r) \<Longrightarrow> equivalent obj r \<Longrightarrow>
    step (now, Some obj) (Sync identity provider pub) (now, Some obj)"
| expire: "advance_object now n obj = (n', Inr a) \<Longrightarrow> step (now, Some obj) Expire (now, after_action a obj)"
| tick: "now \<le> now' \<Longrightarrow> valid_time now' \<Longrightarrow> step (now, cur) (Tick now') (now', cur)"

inductive run :: "writer_state \<Rightarrow> event list \<Rightarrow> writer_state \<Rightarrow> bool" where
  stop: "run s [] s"
| more: "step s e s' \<Longrightarrow> run s' es s'' \<Longrightarrow> run s (e # es) s''"

inductive_cases SyncE: "step (now, cur) (Sync identity provider pub) s'"
inductive_cases ExpireE: "step (now, cur) Expire s'"
inductive_cases TickE: "step (now, cur) (Tick t) s'"
inductive_cases run_NilE: "run s [] s'"
inductive_cases run_ConsE: "run s (e # es) s''"

definition state_ok :: "writer_state \<Rightarrow> bool" where
  "state_ok s \<longleftrightarrow> valid_time (fst s) \<and> current_ok (snd s)"

definition state_status :: "writer_state \<Rightarrow> status" where
  "state_status s = status_of (snd s)"

lemma equivalent_status:
  assumes "equivalent obj r"
  shows "obj_status obj = obj_status r" "obj_delay obj = obj_delay r" "obj_targets obj = obj_targets r"
proof -
  have t: "obj_targets obj = obj_targets r"
    using assms normalizeEndpoints_targets by (metis equivalent_def obj_targets_def)
  then show "obj_status obj = obj_status r" "obj_delay obj = obj_delay r" "obj_targets obj = obj_targets r"
    using assms by (auto simp: equivalent_def obj_status_def obj_delay_def obj_pending_def fun_eq_iff)
qed

lemma sync_step:
  assumes "step s (Sync identity provider pub) s'" "state_ok s"
  shows "state_ok s' \<and> fst s' = fst s \<and>
    state_status s' = sync_status (fst s) (current_delay pub (snd s)) (desired_targets (Records pub)) (state_status s)"
proof -
  obtain now cur where s: "s = (now, cur)" by fastforce
  have ok: "valid_time now" "current_ok cur" using assms(2) by (simp_all add: s state_ok_def)
  have result: "current_ok r \<and> status_of r = sync_status now (current_delay pub cur) (desired_targets (Records pub)) (status_of cur)"
    if "valid_publication pub" "build now identity provider pub cur = Inr r" for r
    by (rule build_refines [OF ok(1) that(1) ok(2), of identity provider]) (use that(2) in simp)
  from assms(1) consider (built) r where "s' = (now, r)" "valid_publication pub" "build now identity provider pub cur = Inr r" |
    (same) obj r where "s' = (now, Some obj)" "cur = Some obj" "valid_publication pub"
      "build now identity provider pub (Some obj) = Inr (Some r)" "equivalent obj r"
    unfolding s by (rule SyncE) blast+
  then show ?thesis
  proof cases
    case built
    with result ok show ?thesis by (simp add: state_ok_def state_status_def s)
  next
    case same
    with result [of "Some r"] ok show ?thesis
      by (simp add: state_ok_def state_status_def s status_of_def equivalent_status(1))
  qed
qed

lemma expire_step:
  assumes "step s Expire s'" "state_ok s"
  shows "state_ok s' \<and> fst s' = fst s \<and> state_status s' = expire_status (fst s) (state_status s)"
proof -
  obtain now cur where s: "s = (now, cur)" by fastforce
  from assms(1) obtain obj n n' a where e: "cur = Some obj" "s' = (now, after_action a obj)" "advance_object now n obj = (n', Inr a)"
    unfolding s by (auto elim!: ExpireE)
  have "valid_object obj" using assms(2) e by (simp add: state_ok_def current_ok_def s)
  then show ?thesis
    by (rule advance_refines [of obj now n]) (use e assms(2) in \<open>simp add: state_ok_def state_status_def status_of_def s\<close>)
qed

lemma tick_step:
  "step s (Tick t) s' \<Longrightarrow> state_ok s \<Longrightarrow> state_ok s' \<and> fst s' = t \<and> fst s \<le> t \<and> state_status s' = state_status s"
  by (cases s) (auto elim!: TickE simp: state_ok_def state_status_def)

lemmas step_facts = sync_step expire_step tick_step

lemma step_ok: "step s e s' \<Longrightarrow> state_ok s \<Longrightarrow> state_ok s' \<and> fst s \<le> fst s'"
  using sync_step expire_step tick_step by (cases e) (metis order.refl)+

lemma run_ok: "run s es s' \<Longrightarrow> state_ok s \<Longrightarrow> state_ok s' \<and> fst s \<le> fst s'"
  by (induction rule: run.induct) (use step_ok in \<open>force+\<close>)

text \<open>Which events want a target.\<close>

fun wants :: "targetKey \<Rightarrow> event \<Rightarrow> bool" where
  "wants k (Sync identity provider pub) \<longleftrightarrow> k \<in> desired_targets (Records pub)"
| "wants k e \<longleftrightarrow> False"

lemma step_keeps_deadline:
  assumes "step s e s'" "state_ok s" "\<not> wants k e" "state_status s k = Some (Some d)" "fst s < d"
  shows "state_status s' k = Some (Some d)"
proof (cases e)
  case (Sync i p pub)
  then show ?thesis using sync_step [of s i p pub s'] assms by (simp add: sync_status_def)
next
  case Expire
  then show ?thesis using expire_step [of s s'] assms by (simp add: expire_status_def)
next
  case (Tick t)
  then show ?thesis using tick_step [of s t s'] assms by simp
qed

lemma run_keeps_deadline:
  "run s es s' \<Longrightarrow> state_ok s \<Longrightarrow> \<forall>e \<in> set es. \<not> wants k e \<Longrightarrow> state_status s k = Some (Some d) \<Longrightarrow> fst s' < d \<Longrightarrow>
     state_status s' k = Some (Some d)"
proof (induction rule: run.induct)
  case (more s e s' es s'')
  have ok: "state_ok s'" "fst s \<le> fst s'" "fst s' \<le> fst s''"
    using step_ok [OF more.hyps(1) more.prems(1)] run_ok [OF more.hyps(2)] by auto
  have "state_status s' k = Some (Some d)"
    by (rule step_keeps_deadline [OF more.hyps(1) more.prems(1)]) (use more.prems ok in auto)
  with more ok show ?case by simp
qed simp

section \<open>Attempts are steps\<close>

text \<open>
  The documented behaviour of the client, seen through \<open>view\<close>, the objects the API server holds: reads
  do not write; a write that reports an error has not happened; creation needs an absent object, update
  and deletion need the resource version they name to be current, and change no other object.  The
  resource version, generation, remaining metadata and status of a written object are the server's to choose.
\<close>

definition same_content :: "DNSEndpoint \<Rightarrow> DNSEndpoint \<Rightarrow> bool" where
  "same_content a b \<longleftrightarrow>
     mName a = mName b \<and> mNamespace a = mNamespace b \<and> mLabels a = mLabels b \<and> mAnnotations a = mAnnotations b \<and>
     OwnerReferences a = OwnerReferences b \<and> SpecEndpoints a = SpecEndpoints b"

definition obj_key :: "DNSEndpoint \<Rightarrow> object_key" where
  "obj_key obj = (mNamespace obj, mName obj)"

type_synonym 'w world_view = "'w \<Rightarrow> object_key \<Rightarrow> DNSEndpoint option"

definition get_ok :: "'w world_view \<Rightarrow> object_key \<Rightarrow> 'w \<Rightarrow> DNSEndpoint result \<times> 'w \<Rightarrow> bool" where
  "get_ok view key w answer \<longleftrightarrow>
     view (snd answer) = view w \<and>
     (case fst answer of
        Inl e \<Rightarrow> IsNotFound e \<longrightarrow> view w key = None
      | Inr obj \<Rightarrow> view w key = Some obj \<and> obj_key obj = key)"

definition create_ok :: "'w world_view \<Rightarrow> DNSEndpoint \<Rightarrow> 'w \<Rightarrow> goerr option \<times> 'w \<Rightarrow> bool" where
  "create_ok view obj w answer \<longleftrightarrow>
     (case fst answer of
        Some _ \<Rightarrow> view (snd answer) = view w
      | None \<Rightarrow> view w (obj_key obj) = None \<and>
          (\<exists>stored. same_content stored obj \<and> view (snd answer) = (view w)(obj_key obj \<mapsto> stored)))"

definition update_ok :: "'w world_view \<Rightarrow> DNSEndpoint \<Rightarrow> 'w \<Rightarrow> goerr option \<times> 'w \<Rightarrow> bool" where
  "update_ok view obj w answer \<longleftrightarrow>
     (case fst answer of
        Some _ \<Rightarrow> view (snd answer) = view w
      | None \<Rightarrow>
          (\<exists>old stored. view w (obj_key obj) = Some old \<and> ResourceVersion old = ResourceVersion obj \<and>
             same_content stored obj \<and> view (snd answer) = (view w)(obj_key obj \<mapsto> stored)))"

definition delete_ok :: "'w world_view \<Rightarrow> DNSEndpoint \<Rightarrow> string \<Rightarrow> 'w \<Rightarrow> goerr option \<times> 'w \<Rightarrow> bool" where
  "delete_ok view obj rv w answer \<longleftrightarrow>
     (case fst answer of
        Some _ \<Rightarrow> view (snd answer) = view w
      | None \<Rightarrow>
          (\<exists>old. view w (obj_key obj) = Some old \<and> ResourceVersion old = rv \<and>
             view (snd answer) = (view w)(obj_key obj := None)))"

definition api_doc :: "'w kube \<Rightarrow> 'w world_view \<Rightarrow> bool" where
  "api_doc K view \<longleftrightarrow>
     (\<forall>key w. get_ok view key w (get_endpoint K key w)) \<and>
     (\<forall>obj w. create_ok view obj w (create_endpoint K (Some obj) w)) \<and>
     (\<forall>obj w. update_ok view obj w (update_endpoint K obj w)) \<and>
     (\<forall>obj rv w. delete_ok view obj rv w (delete_endpoint K obj rv w))"

lemma api_get:
  assumes "api_doc K view" "get_endpoint K key w = (got, w')"
  shows "view w' = view w" "got = Inr obj \<Longrightarrow> view w key = Some obj \<and> obj_key obj = key"
    "got = Inl e \<Longrightarrow> IsNotFound e \<Longrightarrow> view w key = None"
proof -
  have "get_ok view key w (got, w')" using assms unfolding api_doc_def by metis
  then show "view w' = view w" "got = Inr obj \<Longrightarrow> view w key = Some obj \<and> obj_key obj = key"
    "got = Inl e \<Longrightarrow> IsNotFound e \<Longrightarrow> view w key = None"
    by (auto simp: get_ok_def)
qed

lemma api_create:
  assumes "api_doc K view" "create_endpoint K (Some obj) w = (err, w')"
  shows "err = Some e \<Longrightarrow> view w' = view w"
    "err = None \<Longrightarrow> view w (obj_key obj) = None \<and> (\<exists>stored. same_content stored obj \<and> view w' = (view w)(obj_key obj \<mapsto> stored))"
proof -
  have "create_ok view obj w (err, w')" using assms unfolding api_doc_def by metis
  then show "err = Some e \<Longrightarrow> view w' = view w"
    "err = None \<Longrightarrow> view w (obj_key obj) = None \<and> (\<exists>stored. same_content stored obj \<and> view w' = (view w)(obj_key obj \<mapsto> stored))"
    by (auto simp: create_ok_def)
qed

lemma api_update:
  assumes "api_doc K view" "update_endpoint K obj w = (err, w')"
  shows "err = Some e \<Longrightarrow> view w' = view w"
    "err = None \<Longrightarrow> \<exists>stored. same_content stored obj \<and> view w' = (view w)(obj_key obj \<mapsto> stored)"
proof -
  have "update_ok view obj w (err, w')" using assms unfolding api_doc_def by metis
  then show "err = Some e \<Longrightarrow> view w' = view w"
    "err = None \<Longrightarrow> \<exists>stored. same_content stored obj \<and> view w' = (view w)(obj_key obj \<mapsto> stored)"
    by (auto simp: update_ok_def)
qed

lemma api_delete:
  assumes "api_doc K view" "delete_endpoint K obj rv w = (err, w')"
  shows "err = Some e \<Longrightarrow> view w' = view w" "err = None \<Longrightarrow> view w' = (view w)(obj_key obj := None)"
proof -
  have "delete_ok view obj rv w (err, w')" using assms unfolding api_doc_def by metis
  then show "err = Some e \<Longrightarrow> view w' = view w" "err = None \<Longrightarrow> view w' = (view w)(obj_key obj := None)"
    by (auto simp: delete_ok_def)
qed

lemma build_keeps_name:
  assumes "build now identity provider pub current = Inr (Some obj)"
  shows "obj_key obj = (case current of None \<Rightarrow> (iNamespace identity, ObjectName identity provider) | Some old \<Rightarrow> obj_key old)"
proof -
  obtain p where "finish_build identity provider pub current p = Inr (Some obj)"
    using assms by (auto simp: build_finish Let_def split: sum.splits prod.splits)
  from finish_build_object [OF this] show ?thesis
    by (auto simp: obj_key_def fresh_object_def split: option.splits)
qed

text \<open>What one attempt may do to the object it names.\<close>

inductive attempt :: "Identity \<Rightarrow> string \<Rightarrow> Publication \<Rightarrow> DNSEndpoint option \<Rightarrow> DNSEndpoint option \<Rightarrow> bool"
  for identity provider pub where
  untouched: "attempt identity provider pub cur cur"
| created: "build now identity provider pub None = Inr (Some obj) \<Longrightarrow> same_content obj' obj \<Longrightarrow>
    attempt identity provider pub None (Some obj')"
| updated: "owned_by identity provider cur \<Longrightarrow> build now identity provider pub (Some cur) = Inr (Some obj) \<Longrightarrow>
    \<not> equivalent cur obj \<Longrightarrow> same_content obj' obj \<Longrightarrow> attempt identity provider pub (Some cur) (Some obj')"
| deleted: "owned_by identity provider cur \<Longrightarrow> build now identity provider pub (Some cur) = Inr None \<Longrightarrow>
    attempt identity provider pub (Some cur) None"

lemma same_content_rv: "same_content a (b\<lparr>ResourceVersion := rv\<rparr>) \<longleftrightarrow> same_content a b"
  by (simp add: same_content_def)

lemma obj_key_rv [simp]: "obj_key (obj\<lparr>ResourceVersion := rv\<rparr>) = obj_key obj"
  by (simp add: obj_key_def)

lemma create_step:
  assumes "api_doc K view" "create_endpoint K (Some obj) w = (err, w')"
    and "build now identity provider pub None = Inr (Some obj)" "view w (iNamespace identity, ObjectName identity provider) = None"
  shows "\<exists>cur'. attempt identity provider pub None cur' \<and>
    view w' = (view w)((iNamespace identity, ObjectName identity provider) := cur') \<and> (err = None \<longrightarrow> cur' \<noteq> None)"
proof (cases err)
  case None
  then show ?thesis
    using api_create(2) [OF assms(1,2)] build_keeps_name [OF assms(3)] attempt.created [OF assms(3)] by fastforce
next
  case (Some e)
  then show ?thesis using api_create(1) [OF assms(1,2) Some] assms(4) attempt.untouched by (metis fun_upd_triv option.distinct(1))
qed

lemma update_step:
  assumes "api_doc K view" "update_endpoint K (obj\<lparr>ResourceVersion := rv\<rparr>) w = (err, w')" "view w (obj_key cur) = Some cur"
    and "owned_by identity provider cur" "build now identity provider pub (Some cur) = Inr (Some obj)" "\<not> equivalent cur obj"
  shows "\<exists>cur'. attempt identity provider pub (Some cur) cur' \<and> view w' = (view w)(obj_key cur := cur')"
proof (cases err)
  case None
  then obtain stored where "same_content stored obj" "view w' = (view w)(obj_key cur \<mapsto> stored)"
    using api_update(2) [OF assms(1,2) None] build_keeps_name [OF assms(5)] by (auto simp: same_content_rv)
  then show ?thesis using attempt.updated [OF assms(4-6)] by blast
next
  case (Some e)
  then show ?thesis using api_update(1) [OF assms(1,2) Some] assms(3) attempt.untouched by (metis fun_upd_triv)
qed

lemma delete_step:
  assumes "api_doc K view" "delete_endpoint K cur rv w = (err, w')" "view w (obj_key cur) = Some cur"
    and "owned_by identity provider cur" "build now identity provider pub (Some cur) = Inr None"
  shows "\<exists>cur'. attempt identity provider pub (Some cur) cur' \<and> view w' = (view w)(obj_key cur := cur')"
proof (cases err)
  case None
  then show ?thesis using api_delete(2) [OF assms(1,2)] attempt.deleted [OF assms(4,5)] by blast
next
  case (Some e)
  then show ?thesis using api_delete(1) [OF assms(1,2) Some] assms(3) attempt.untouched by (metis fun_upd_triv)
qed

lemma build_created:
  assumes "valid_time now" "valid_publication pub" "desired_targets (Records pub) \<noteq> {}"
  shows "\<exists>obj. build now identity provider pub None = Inr (Some obj)"
proof -
  obtain r where r: "build now identity provider pub None = Inr r"
    "status_of r = sync_status now (current_delay pub None) (desired_targets (Records pub)) (status_of None)"
    by (rule build_refines [OF assms(1,2) current_ok_None, of identity provider]) (rule that)
  obtain k where "k \<in> desired_targets (Records pub)" using assms(3) by blast
  then have "status_of r k \<noteq> None" unfolding r(2) by (simp add: sync_status_def)
  then show ?thesis using r(1) by (cases r) (auto simp: status_of_def)
qed

text \<open>A publication of the resolver: no record without a target.\<close>

definition full_publication :: "Publication \<Rightarrow> bool" where
  "full_publication pub \<longleftrightarrow> valid_publication pub \<and> (\<forall>r \<in> set (Records pub). rTargets r \<noteq> [])"

lemma full_publication_desired: "full_publication pub \<Longrightarrow> Records pub \<noteq> [] \<Longrightarrow> desired_targets (Records pub) \<noteq> {}"
  by (cases "Records pub") (auto simp: full_publication_def desired_targets_def record_targets_def)

lemma apply_attempt_step:
  assumes api: "api_doc K view" and pub: "full_publication pub" and time: "\<And>w. valid_time (clock_now K w)"
    and run: "apply_attempt K identity provider pub selected w = (err, w')"
  shows "\<exists>cur'. attempt identity provider pub (view w (iNamespace identity, ObjectName identity provider)) cur' \<and>
    view w' = (view w)((iNamespace identity, ObjectName identity provider) := cur')"
proof -
  let ?key = "(iNamespace identity, ObjectName identity provider)"
  obtain got w1 where got: "get_endpoint K ?key w = (got, w1)" by fastforce
  note get = api_get [OF api got]
  have same: ?thesis if "w' = w1"
    using that get(1) attempt.untouched by (metis fun_upd_triv)
  show ?thesis
  proof (cases got)
    case (Inl e)
    show ?thesis
    proof (cases "IsNotFound e \<and> selected \<and> Records pub \<noteq> []")
      case True
      then obtain obj where b: "build (clock_now K w1) identity provider pub None = Inr (Some obj)"
        using build_created [OF time _ full_publication_desired [OF pub], of w1 identity provider] pub by (auto simp: full_publication_def)
      have none: "view w1 ?key = None" using get(1) get(3) [OF Inl] True by simp
      have "\<exists>err. create_endpoint K (Some obj) w1 = (err, w')"
        using run got Inl True b by (auto simp: apply_attempt_def Let_def split: prod.splits option.splits)
      with create_step [OF api _ b none] none get(1) show ?thesis by metis
    next
      case False
      then have "w' = w1" using run got Inl by (auto simp: apply_attempt_def Let_def split: if_splits)
      then show ?thesis by (rule same)
    qed
  next
    case (Inr cur)
    note cur = get(2) [OF Inr]
    have v: "view w1 (obj_key cur) = Some cur" "obj_key cur = ?key" using cur get(1) by simp_all
    consider (same) "w' = w1" |
      (delete) "owned_by identity provider cur" "build (clock_now K w1) identity provider pub (Some cur) = Inr None"
        "delete_endpoint K cur (ResourceVersion cur) w1 = (err, w')" |
      (update) obj where "owned_by identity provider cur" "build (clock_now K w1) identity provider pub (Some cur) = Inr (Some obj)"
        "\<not> equivalent cur obj" "update_endpoint K (obj\<lparr>ResourceVersion := ResourceVersion cur\<rparr>) w1 = (err, w')"
      using run got Inr by (auto simp: apply_attempt_def Let_def split: if_splits sum.splits option.splits)
    then show ?thesis
    proof cases
      case same then show ?thesis by (rule \<open>w' = w1 \<Longrightarrow> _\<close>)
    next
      case delete
      from delete_step [OF api delete(3) v(1) delete(1,2)] show ?thesis using v get(1) cur by metis
    next
      case update
      from update_step [OF api update(4) v(1) update(1-3)] show ?thesis using v get(1) cur by metis
    qed
  qed
qed

section \<open>Retries\<close>

text \<open>\<^verbatim>\<open>RetryOnConflict\<close> runs its function until it returns something other than a conflict, or gives up
  with the last conflict; between two runs others may act (\<open>env\<close>).\<close>

inductive retried :: "('s \<Rightarrow> 's \<Rightarrow> bool) \<Rightarrow> ('s \<Rightarrow> goerr option \<times> 's) \<Rightarrow> 's \<Rightarrow> goerr option \<times> 's \<Rightarrow> bool"
  for env f where
  last: "retried env f s (f s)"
| again: "f s = (Some e, s1) \<Longrightarrow> IsConflict e \<Longrightarrow> env s1 s2 \<Longrightarrow> retried env f s2 out \<Longrightarrow> retried env f s out"

definition retry_doc :: "('s \<Rightarrow> 's \<Rightarrow> bool) \<Rightarrow> 's retrier \<Rightarrow> bool" where
  "retry_doc env retry \<longleftrightarrow> (\<forall>f s. retried env f s (retry f s))"

lemma retried_trans:
  assumes "retried env f s out" "\<And>s. R s (snd (f s))" "\<And>s s'. env s s' \<Longrightarrow> R s s'" "\<And>a b c. R a b \<Longrightarrow> R b c \<Longrightarrow> R a c"
  shows "R s (snd out)"
  using assms(1)
proof (induction rule: retried.induct)
  case (last s)
  show ?case by (rule assms(2))
next
  case (again s e s1 s2 out)
  have "R s s1" using assms(2) [of s] again.hyps(1) by simp
  with again show ?case using assms(3,4) by blast
qed

text \<open>A failed attempt leaves no trace.\<close>

lemma apply_attempt_error:
  assumes api: "api_doc K view" and pub: "full_publication pub" and time: "\<And>w. valid_time (clock_now K w)"
    and run: "apply_attempt K identity provider pub selected w = (Some e, w')"
  shows "view w' = view w"
proof -
  obtain got w1 where got: "get_endpoint K (iNamespace identity, ObjectName identity provider) w = (got, w1)" by fastforce
  have "view w' = view w1"
  proof (cases got)
    case (Inl ge)
    show ?thesis
    proof (cases "IsNotFound ge \<and> selected \<and> Records pub \<noteq> []")
      case True
      then obtain obj where b: "build (clock_now K w1) identity provider pub None = Inr (Some obj)"
        using build_created [OF time _ full_publication_desired [OF pub], of w1 identity provider] pub
        by (auto simp: full_publication_def)
      then obtain ce where "create_endpoint K (Some obj) w1 = (Some ce, w')"
        using run got Inl True by (auto simp: apply_attempt_def Let_def split: prod.splits option.splits)
      then show ?thesis using api_create(1) [OF api] by blast
    next
      case False
      then show ?thesis using run got Inl by (auto simp: apply_attempt_def Let_def split: if_splits)
    qed
  next
    case (Inr cur)
    then show ?thesis
      using run got api_delete(1) [OF api] api_update(1) [OF api]
      by (auto simp: apply_attempt_def Let_def split: if_splits sum.splits option.splits)
  qed
  then show ?thesis using api_get(1) [OF api got] by simp
qed

lemma same_content_facts:
  assumes "same_content a b"
  shows "obj_status a = obj_status b" "obj_delay a = obj_delay b" "valid_object a = valid_object b" "mLabels a = mLabels b"
proof -
  have f: "mAnnotations a = mAnnotations b" "SpecEndpoints a = SpecEndpoints b" "mLabels a = mLabels b"
    using assms by (simp_all add: same_content_def)
  then show "obj_status a = obj_status b" "obj_delay a = obj_delay b" "valid_object a = valid_object b" "mLabels a = mLabels b"
    by (simp_all add: fun_eq_iff obj_status_def obj_delay_def obj_pending_def obj_targets_def valid_object_def)
qed

lemma sync_status_empty: "sync_status now delay {} Map.empty = Map.empty"
  by (rule ext) (simp add: sync_status_def)

lemma apply_attempt_success:
  assumes api: "api_doc K view" and pub: "full_publication pub" and time: "\<And>w. valid_time (clock_now K w)"
    and sel: "selected \<or> Records pub = []" and ok: "current_ok (view w key)"
    and key: "key = (iNamespace identity, ObjectName identity provider)"
    and run: "apply_attempt K identity provider pub selected w = (None, w')"
  shows "\<exists>now. current_ok (view w' key) \<and>
    status_of (view w' key) = sync_status now (current_delay pub (view w key)) (desired_targets (Records pub)) (status_of (view w key)) \<and>
    (\<forall>k. k \<noteq> key \<longrightarrow> view w' k = view w k)"
proof -
  obtain got w1 where got: "get_endpoint K key w = (got, w1)" by fastforce
  note get = api_get [OF api got]
  have valid: "valid_publication pub" using pub by (simp add: full_publication_def)
  have built: "current_ok r \<and> status_of r =
      sync_status (clock_now K w1) (current_delay pub (view w key)) (desired_targets (Records pub)) (status_of (view w key))"
    if "build (clock_now K w1) identity provider pub (view w key) = Inr r" for r
    by (rule build_refines [OF time valid ok, of w1 identity provider]) (use that in simp)
  show ?thesis
  proof (cases got)
    case (Inl e)
    then have nf: "IsNotFound e" using run got key by (auto simp: apply_attempt_def Let_def split: if_splits)
    then have none: "view w key = None" using get(3) Inl by blast
    show ?thesis
    proof (cases "Records pub = []")
      case True
      then have "w' = w1" using run got Inl nf key by (auto simp: apply_attempt_def Let_def)
      then show ?thesis using get(1) none True ok
        by (simp add: status_of_def sync_status_empty desired_targets_def)
    next
      case False
      then obtain obj where b: "build (clock_now K w1) identity provider pub None = Inr (Some obj)"
        using build_created [OF time valid full_publication_desired [OF pub], of w1 identity provider] by blast
      then have c: "create_endpoint K (Some obj) w1 = (None, w')"
        using run got Inl nf key False sel by (auto simp: apply_attempt_def Let_def split: prod.splits option.splits)
      then obtain stored where "same_content stored obj" "view w' = (view w1)(key \<mapsto> stored)"
        using api_create(2) [OF api c] build_keeps_name [OF b] key by auto
      then show ?thesis using built [of "Some obj"] b none get(1)
        by (auto simp: status_of_def current_ok_def same_content_facts)
    qed
  next
    case (Inr cur)
    note cur = get(2) [OF Inr]
    obtain r where b: "build (clock_now K w1) identity provider pub (Some cur) = Inr r"
      using run got Inr key by (auto simp: apply_attempt_def Let_def split: if_splits sum.splits)
    note r = built [unfolded conjunct1 [OF cur], OF b]
    show ?thesis
    proof (cases r)
      case None
      then have "delete_endpoint K cur (ResourceVersion cur) w1 = (None, w')"
        using run got Inr key b by (auto simp: apply_attempt_def Let_def split: if_splits)
      from api_delete(2) [OF api this] show ?thesis using r None cur get(1) by auto
    next
      case (Some obj)
      have u: "(if equivalent cur obj then (None, w1) else update_endpoint K (obj\<lparr>ResourceVersion := ResourceVersion cur\<rparr>) w1) = (None, w')"
        using run got Inr key b Some by (simp add: apply_attempt_def split: if_splits)
      show ?thesis
      proof (cases "equivalent cur obj")
        case True
        have v: "view w' = view w" using True u get(1) by simp
        have "status_of (view w key) = status_of r"
          unfolding Some conjunct1 [OF cur] status_of_def option.case by (rule equivalent_status(1) [OF True])
        then show ?thesis using r ok cur unfolding v by metis
      next
        case False
        then have upd: "update_endpoint K (obj\<lparr>ResourceVersion := ResourceVersion cur\<rparr>) w1 = (None, w')" using u by simp
        from api_update(2) [OF api upd] obtain stored where "same_content stored obj" "view w' = (view w1)(key \<mapsto> stored)"
          using build_keeps_name [OF b [unfolded Some]] cur by (auto simp: same_content_rv)
        then show ?thesis using r Some cur get(1) by (auto simp: status_of_def current_ok_def same_content_facts)
      qed
    qed
  qed
qed

section \<open>Apply as a whole\<close>

text \<open>An environment that leaves the objects alone between retries.\<close>

definition quiet :: "'w world_view \<Rightarrow> 'w \<Rightarrow> 'w \<Rightarrow> bool" where
  "quiet view w w' \<longleftrightarrow> view w' = view w"

definition reads_only :: "'w kube \<Rightarrow> 'w world_view \<Rightarrow> bool" where
  "reads_only K view \<longleftrightarrow> (\<forall>ns ls w. view (snd (list_endpoints K ns ls w)) = view w)"

definition writer_env :: "'w kube \<Rightarrow> 'w world_view \<Rightarrow> 'w retrier \<Rightarrow> bool" where
  "writer_env K view retry \<longleftrightarrow>
     api_doc K view \<and> reads_only K view \<and> retry_doc (quiet view) retry \<and> (\<forall>w. valid_time (clock_now K w))"

abbreviation name_of :: "Identity \<Rightarrow> string \<Rightarrow> object_key" where
  "name_of identity provider \<equiv> (iNamespace identity, ObjectName identity provider)"

definition reconciled :: "Identity \<Rightarrow> string \<Rightarrow> Publication \<Rightarrow> (object_key \<Rightarrow> DNSEndpoint option) \<Rightarrow>
    (object_key \<Rightarrow> DNSEndpoint option) \<Rightarrow> bool" where
  "reconciled identity provider pub before after \<longleftrightarrow>
     (\<exists>now. current_ok (after (name_of identity provider)) \<and>
        status_of (after (name_of identity provider)) =
          sync_status now (current_delay pub (before (name_of identity provider))) (desired_targets (Records pub))
            (status_of (before (name_of identity provider))))"

lemma retried_success:
  assumes "retried (quiet view) f s out" "\<And>s e s'. f s = (Some e, s') \<Longrightarrow> view s' = view s" "out = (None, w')"
  shows "\<exists>s0. view s0 = view s \<and> f s0 = (None, w')"
  using assms(1,3)
proof (induction rule: retried.induct)
  case (last s)
  then show ?case by blast
next
  case (again s e s1 s2 out)
  then have "view s2 = view s" using assms(2) by (simp add: quiet_def)
  with again show ?case by auto
qed

lemma applyOne_success:
  assumes env: "writer_env K view retry" and pub: "full_publication pub" and sel: "selected \<or> Records pub = []"
    and ok: "current_ok (view w (name_of identity provider))"
    and run: "applyOne K retry identity provider pub selected w = (None, w')"
  shows "reconciled identity provider pub (view w) (view w') \<and> (\<forall>k. k \<noteq> name_of identity provider \<longrightarrow> view w' k = view w k)"
proof -
  let ?f = "apply_attempt K identity provider pub selected"
  have api: "api_doc K view" and time: "\<And>w. valid_time (clock_now K w)" and r: "retried (quiet view) ?f w (retry ?f w)"
    using env by (simp_all add: writer_env_def retry_doc_def)
  have quiet_fail: "view s' = view s" if "?f s = (Some e, s')" for s e s'
    by (rule apply_attempt_error [OF api pub time that])
  have "\<exists>w0. view w0 = view w \<and> ?f w0 = (None, w')"
    by (rule retried_success [OF r]) (use quiet_fail run in \<open>simp_all add: applyOne_def\<close>)
  then obtain w0 where w0: "view w0 = view w" "?f w0 = (None, w')" by blast
  have "current_ok (view w0 (name_of identity provider))" using ok w0 by simp
  from apply_attempt_success [OF api pub time sel this refl w0(2)] show ?thesis
    unfolding w0(1) reconciled_def by metis
qed

definition pub_for :: "(string \<times> Publication) list \<Rightarrow> string \<Rightarrow> Publication" where
  "pub_for desired provider = (case map_of desired provider of Some pub \<Rightarrow> pub | None \<Rightarrow> zero_Publication)"

lemma full_zero: "full_publication zero_Publication"
  by (simp add: full_publication_def valid_publication_def zero_Publication_def desired_targets_def max_duration_def)

lemma apply_providers_success:
  assumes env: "writer_env K view retry" and pubs: "\<forall>(p, pub) \<in> set desired. full_publication pub"
    and "distinct (map (ObjectName identity) providers)" "\<forall>provider. current_ok (view w (name_of identity provider))"
    and "apply_providers K retry identity desired providers w = (None, w')"
  shows "(\<forall>provider \<in> set providers. reconciled identity provider (pub_for desired provider) (view w) (view w')) \<and>
    (\<forall>k. k \<notin> name_of identity ` set providers \<longrightarrow> view w' k = view w k) \<and>
    (\<forall>provider. current_ok (view w' (name_of identity provider)))"
  using assms(3-5)
proof (induction providers arbitrary: w)
  case (Cons provider providers)
  define sel where "sel = (map_of desired provider \<noteq> None)"
  let ?pub = "pub_for desired provider" and ?key = "name_of identity provider"
  have pub: "full_publication ?pub" "sel \<or> Records ?pub = []"
    using pubs full_zero by (auto simp: pub_for_def sel_def zero_Publication_def dest!: map_of_SomeD split: option.splits)
  obtain w1 where one: "applyOne K retry identity provider ?pub sel w = (None, w1)"
    and rest: "apply_providers K retry identity desired providers w1 = (None, w')"
    using Cons.prems(3) by (cases "map_of desired provider") (auto simp: pub_for_def sel_def split: prod.splits option.splits)
  note first = applyOne_success [OF env pub Cons.prems(2) [rule_format] one]
  have ok1: "\<forall>provider. current_ok (view w1 (name_of identity provider))"
    using first Cons.prems(2) by (metis reconciled_def)
  have fresh: "?key \<notin> name_of identity ` set providers" using Cons.prems(1) by auto
  have ih: "\<forall>p \<in> set providers. reconciled identity p (pub_for desired p) (view w1) (view w')"
    "\<forall>k. k \<notin> name_of identity ` set providers \<longrightarrow> view w' k = view w1 k"
    "\<forall>p. current_ok (view w' (name_of identity p))"
    using Cons.IH [OF _ ok1 rest] Cons.prems(1) by simp_all
  have "view w' ?key = view w1 ?key" using ih(2) fresh by blast
  then have "reconciled identity provider ?pub (view w) (view w')" using first by (simp add: reconciled_def)
  moreover have "reconciled identity p (pub_for desired p) (view w) (view w')" if "p \<in> set providers" for p
  proof -
    have "name_of identity p \<noteq> ?key" using fresh that by (metis imageI)
    then have "view w1 (name_of identity p) = view w (name_of identity p)" using first by blast
    then show ?thesis using bspec [OF ih(1) that] unfolding reconciled_def by simp
  qed
  ultimately show ?case using first ih(2,3) by auto
qed simp

lemma update_fresh: "map_of d k = None \<Longrightarrow> AList.update k v d = d @ [(k, v)]"
  by (induction d) (auto split: if_splits)

lemma index_desired_props:
  "index_desired d pubs = Inr d' \<Longrightarrow> distinct (map fst d) \<Longrightarrow>
     d' = d @ map (\<lambda>pub. (ProviderName pub, pub)) pubs \<and> distinct (map fst d')"
proof (induction pubs arbitrary: d)
  case (Cons pub pubs)
  have new: "map_of d (ProviderName pub) = None" and rest: "index_desired (AList.update (ProviderName pub) pub d) pubs = Inr d'"
    using Cons.prems(1) by (auto split: if_splits)
  have "distinct (map fst (AList.update (ProviderName pub) pub d))" using Cons.prems(2) by (rule distinct_update)
  note ih = Cons.IH [OF rest this]
  show ?case by (intro conjI conjunct2 [OF ih]) (use ih new in \<open>simp add: update_fresh\<close>)
qed simp

abbreviation provider_of :: "DNSEndpoint \<Rightarrow> string" where
  "provider_of obj \<equiv> get_str (mLabels obj) ProviderLabel"

lemma index_existing_props:
  "index_existing identity d objs = Inr d' \<Longrightarrow> distinct (map fst d) \<Longrightarrow>
     d' = d @ map (\<lambda>obj. (provider_of obj, obj)) objs \<and> distinct (map fst d') \<and> (\<forall>obj \<in> set objs. check_existing identity obj = None)"
proof (induction objs arbitrary: d)
  case (Cons obj objs)
  have new: "map_of d (provider_of obj) = None" "check_existing identity obj = None"
    and rest: "index_existing identity (AList.update (provider_of obj) obj d) objs = Inr d'"
    using Cons.prems(1) by (auto simp: Let_def split: if_splits option.splits)
  have "distinct (map fst (AList.update (provider_of obj) obj d))" using Cons.prems(2) by (rule distinct_update)
  note ih = Cons.IH [OF rest this]
  show ?case by (intro conjI conjunct1 [OF conjunct2 [OF ih]]) (use ih new in \<open>simp_all add: update_fresh\<close>)
qed simp

lemma index_existing_Inl:
  "index_existing identity d objs = Inl e \<Longrightarrow> IsInvalidState e"
proof (induction objs arbitrary: d)
  case (Cons obj objs)
  have "IsInvalidState e'" if "check_existing identity obj = Some e'" for e'
    using that by (auto simp: check_existing_def Let_def split: sum.splits option.splits if_splits)
  with Cons show ?case by (auto simp: Let_def split: option.splits if_splits)
qed simp

lemma all_providers_props:
  assumes "distinct (map fst d)" "distinct (map fst b)"
  shows "distinct (all_providers d b)" "set (all_providers d b) = fst ` set d \<union> fst ` set b"
  using assms by (auto simp: all_providers_def)

lemma check_existing_None:
  assumes "check_existing identity obj = None"
  shows "readable_object obj \<and> mName obj = ObjectName identity (provider_of obj)"
proof -
  obtain st where st: "parseLifecycle (get_str (mAnnotations obj) LifecycleAnnotation) = Inr st"
    using assms by (auto simp: check_existing_def split: sum.splits)
  then have "find (\<lambda>item. pending_key item \<notin> set (endpointTargets (normalizeEndpoints (SpecEndpoints obj)))) (Pending st) = None"
    and d: "obj_delay obj \<noteq> None" "mName obj = ObjectName identity (provider_of obj)"
    using assms by (auto simp: check_existing_def Let_def obj_delay_def split: option.splits if_splits)
  then have "pending_key ` set (Pending st) \<subseteq> obj_targets obj" by (auto simp: find_None_iff obj_targets_def)
  with st d show ?thesis by (simp add: readable_object_def obj_pending_def)
qed

lemma Apply_published:
  assumes env: "writer_env K view retry" and pubs: "\<forall>pub \<in> set pubs. full_publication pub"
    and before: "\<forall>provider. current_ok (view w (name_of identity provider))"
    and listed: "list_endpoints K (iNamespace identity) [(ManagedByLabel, ManagedByValue), (SourceKeyLabel, SourceKey identity)] w = (Inr items, w1)"
    and inj: "inj_on (ObjectName identity) (ProviderName ` set pubs \<union> provider_of ` set items)"
    and run: "Apply K retry identity pubs w = (None, w')"
  shows "(\<forall>pub \<in> set pubs. reconciled identity (ProviderName pub) pub (view w) (view w')) \<and>
    (\<forall>obj \<in> set items. provider_of obj \<notin> ProviderName ` set pubs \<longrightarrow>
       reconciled identity (provider_of obj) zero_Publication (view w) (view w')) \<and>
    (\<forall>k. k \<notin> name_of identity ` (ProviderName ` set pubs \<union> provider_of ` set items) \<longrightarrow> view w' k = view w k)"
proof -
  obtain b d where b: "index_existing identity [] items = Inr b" and d: "index_desired [] pubs = Inr d"
    and loop: "apply_providers K retry identity d (all_providers d b) w1 = (None, w')"
    using run listed by (auto simp: Apply_def split: sum.splits)
  have b': "map fst b = map provider_of items" "distinct (map fst b)" using index_existing_props [OF b] by (auto simp: comp_def)
  have d': "d = map (\<lambda>pub. (ProviderName pub, pub)) pubs" "distinct (map fst d)" using index_desired_props [OF d] by (auto simp: comp_def)
  have w1: "view w1 = view w" using env listed by (auto simp: writer_env_def reads_only_def) (metis snd_conv)
  note ps = all_providers_props [OF d'(2) b'(2)]
  have set_ps: "set (all_providers d b) = ProviderName ` set pubs \<union> provider_of ` set items"
    unfolding ps(2) set_map [symmetric] b'(1) by (simp add: d'(1) comp_def)
  have names: "distinct (map (ObjectName identity) (all_providers d b))" using ps(1) inj set_ps by (simp add: distinct_map)
  have full: "\<forall>(p, pub) \<in> set d. full_publication pub" using pubs d'(1) by auto
  from apply_providers_success [OF env full names _ loop] before
  have all: "\<forall>provider \<in> set (all_providers d b). reconciled identity provider (pub_for d provider) (view w) (view w')"
    and other: "\<forall>k. k \<notin> name_of identity ` set (all_providers d b) \<longrightarrow> view w' k = view w k"
    unfolding w1 by blast+
  have "pub_for d (ProviderName pub) = pub" if "pub \<in> set pubs" for pub
  proof -
    have "(ProviderName pub, pub) \<in> set d" using that by (simp add: d'(1))
    then show ?thesis using map_of_is_SomeI [OF d'(2)] by (simp add: pub_for_def)
  qed
  moreover have "pub_for d p = zero_Publication" if "p \<notin> ProviderName ` set pubs" for p
  proof -
    have "map_of d p = None" using that by (auto simp: d'(1) map_of_eq_None_iff)
    then show ?thesis by (simp add: pub_for_def)
  qed
  ultimately show ?thesis using all other unfolding set_ps by (metis (no_types, lifting) UnI1 UnI2 imageI)
qed

section \<open>Properties\<close>

text \<open>C9: \<^verbatim>\<open>Apply\<close> reconciles every provider.  When it reports success (no one else touching the objects
  meanwhile, and no collision among the object names of the providers concerned), the object of every
  publication is the reconciliation of what was there before, the objects of providers that are no longer
  selected have been retired (reconciled with nothing desired), and every other object is untouched.\<close>

theorem Apply_correct:
  assumes env: "writer_env K view retry" and pubs: "\<forall>pub \<in> set pubs. full_publication pub"
    and before: "\<forall>provider. current_ok (view w (name_of identity provider))"
    and listed: "list_endpoints K (iNamespace identity) [(ManagedByLabel, ManagedByValue), (SourceKeyLabel, SourceKey identity)] w = (Inr items, w1)"
    and inj: "inj_on (ObjectName identity) (ProviderName ` set pubs \<union> provider_of ` set items)"
    and run: "Apply K retry identity pubs w = (None, w')"
  shows "(\<forall>pub \<in> set pubs. reconciled identity (ProviderName pub) pub (view w) (view w')) \<and>
    (\<forall>obj \<in> set items. provider_of obj \<notin> ProviderName ` set pubs \<longrightarrow>
       reconciled identity (provider_of obj) zero_Publication (view w) (view w')) \<and>
    (\<forall>k. k \<notin> name_of identity ` (ProviderName ` set pubs \<union> provider_of ` set items) \<longrightarrow> view w' k = view w k)"
  using assms by (rule Apply_published)

text \<open>An API server in memory, on which the hypotheses hold.\<close>

definition store_view :: "DNSEndpoint list \<Rightarrow> object_key \<Rightarrow> DNSEndpoint option" where
  "store_view w key = find (\<lambda>obj. obj_key obj = key) w"

definition store_kube :: "DNSEndpoint list kube" where
  "store_kube =
     \<lparr>list_endpoints = (\<lambda>ns ls w. (Inr (filter (\<lambda>obj. mNamespace obj = ns \<and> list_all (\<lambda>(k, v). get_str (mLabels obj) k = v) ls) w), w)),
      get_endpoint = (\<lambda>key w. (case store_view w key of None \<Rightarrow> Inl (StatusErr NotFound ''not found'') | Some obj \<Rightarrow> Inr obj, w)),
      create_endpoint = (\<lambda>obj w. case obj of
          None \<Rightarrow> (Some (ErrMsg ''nil object''), w)
        | Some obj \<Rightarrow>
            (if store_view w (obj_key obj) = None then (None, obj # w) else (Some (StatusErr AlreadyExists ''exists''), w))),
      update_endpoint = (\<lambda>obj w. case store_view w (obj_key obj) of
          None \<Rightarrow> (Some (StatusErr NotFound ''not found''), w)
        | Some old \<Rightarrow>
            (if ResourceVersion old = ResourceVersion obj then (None, obj # filter (\<lambda>x. obj_key x \<noteq> obj_key obj) w)
             else (Some (StatusErr Conflict ''conflict''), w))),
      delete_endpoint = (\<lambda>obj rv w. case store_view w (obj_key obj) of
          None \<Rightarrow> (Some (StatusErr NotFound ''not found''), w)
        | Some old \<Rightarrow>
            (if ResourceVersion old = rv then (None, filter (\<lambda>x. obj_key x \<noteq> obj_key obj) w)
             else (Some (StatusErr Conflict ''conflict''), w))),
      clock_now = (\<lambda>w. sample_now)\<rparr>"

definition one_try :: "'s retrier" where
  "one_try f s = f s"

lemma store_view_Cons: "store_view (obj # w) = (store_view w)(obj_key obj \<mapsto> obj)"
  by (auto simp: store_view_def)

lemma store_view_filter: "store_view (filter (\<lambda>x. obj_key x \<noteq> key) w) = (store_view w)(key := None)"
  by (induction w) (auto simp: store_view_def fun_eq_iff)

lemma store_view_key: "store_view w key = Some obj \<Longrightarrow> obj_key obj = key"
  by (auto simp: store_view_def find_Some_iff)

lemma same_content_refl [simp]: "same_content obj obj"
  by (simp add: same_content_def)

lemma store_api_doc: "api_doc store_kube store_view"
  unfolding api_doc_def
proof (intro conjI allI)
  show "get_ok store_view key w (get_endpoint store_kube key w)" for key w
    by (auto simp: get_ok_def store_kube_def store_view_key split: option.split)
  show "create_ok store_view obj w (create_endpoint store_kube (Some obj) w)" for obj w
    by (auto simp: create_ok_def store_kube_def store_view_Cons intro: exI [of _ obj])
  show "update_ok store_view obj w (update_endpoint store_kube obj w)" for obj w
    by (auto simp: update_ok_def store_kube_def store_view_Cons store_view_filter intro!: exI [of _ obj] split: option.split)
  show "delete_ok store_view obj rv w (delete_endpoint store_kube obj rv w)" for obj rv w
    by (auto simp: delete_ok_def store_kube_def store_view_filter split: option.split)
qed

lemma store_writer_env: "writer_env store_kube store_view one_try"
  using store_api_doc sample_valid_time
  by (simp add: writer_env_def reads_only_def retry_doc_def one_try_def retried.last store_kube_def)

lemma sample_full: "full_publication sample_publication"
  using sample_valid_publication by (simp add: full_publication_def) (simp add: sample_publication_def sample_record_def)

lemma sample_apply: "\<exists>obj. Apply store_kube one_try sample_identity [sample_publication] [] = (None, [obj])"
proof -
  obtain obj where "build sample_now sample_identity ''lan'' sample_publication None = Inr (Some obj)" by (rule sample_build)
  moreover have "ProviderName sample_publication = ''lan''" "DeletionDelay sample_publication = 60000000000"
    "Records sample_publication = [sample_record]" by (simp_all add: sample_publication_def)
  ultimately show ?thesis
    by (simp add: Apply_def all_providers_def applyOne_def one_try_def apply_attempt_def store_kube_def store_view_def
        IsNotFound_def)
qed

theorem Apply_correct_witness:
  "\<exists>w'. Apply store_kube one_try sample_identity [sample_publication] [] = (None, w') \<and>
        reconciled sample_identity ''lan'' sample_publication (store_view []) (store_view w')"
proof -
  obtain w' where run: "Apply store_kube one_try sample_identity [sample_publication] [] = (None, w')"
    using sample_apply by blast
  have "list_endpoints store_kube (iNamespace sample_identity)
      [(ManagedByLabel, ManagedByValue), (SourceKeyLabel, SourceKey sample_identity)] [] = (Inr [], [])"
    by (simp add: store_kube_def)
  moreover have "\<forall>provider. current_ok (store_view [] (name_of sample_identity provider))" by (simp add: store_view_def)
  ultimately have "\<forall>pub \<in> set [sample_publication]. reconciled sample_identity (ProviderName pub) pub (store_view []) (store_view w')"
    using Apply_correct [OF store_writer_env _ _ _ _ run] sample_full by (simp add: inj_on_def)
  with run show ?thesis by (simp add: sample_publication_def)
qed

text \<open>C15: one corrupt object stops everything.  When any listed object cannot be read, or is not named
  after its provider, \<^verbatim>\<open>Apply\<close> returns a deterministic invalid-state error and has issued no write: the
  world is the one that the initial list request left.\<close>

theorem Apply_fails_closed:
  assumes "list_endpoints K (iNamespace identity) [(ManagedByLabel, ManagedByValue), (SourceKeyLabel, SourceKey identity)] w = (Inr items, w1)"
    and "obj \<in> set items" "\<not> readable_object obj \<or> mName obj \<noteq> ObjectName identity (provider_of obj)"
  shows "\<exists>e. Apply K retry identity pubs w = (Some e, w1) \<and> IsInvalidState e"
proof (cases "index_existing identity [] items")
  case (Inl e)
  then show ?thesis using assms(1) index_existing_Inl [OF Inl] by (simp add: Apply_def)
next
  case (Inr b)
  then have "check_existing identity obj = None" using index_existing_props [OF Inr] assms(2) by simp
  from check_existing_None [OF this] assms(3) show ?thesis by blast
qed

definition corrupt_object :: DNSEndpoint where
  "corrupt_object = (fresh_object sample_identity ''lan'')
     \<lparr>mLabels := build_labels sample_identity ''lan'' fmempty\<rparr>"

theorem Apply_fails_closed_witness:
  "\<exists>e. Apply store_kube one_try sample_identity [sample_publication] [corrupt_object] = (Some e, [corrupt_object])"
proof -
  have "list_endpoints store_kube (iNamespace sample_identity)
      [(ManagedByLabel, ManagedByValue), (SourceKeyLabel, SourceKey sample_identity)] [corrupt_object] = (Inr [corrupt_object], [corrupt_object])"
    by (simp add: store_kube_def corrupt_object_def fresh_object_def build_labels_def ManagedByLabel_def SourceKeyLabel_def
        ProviderLabel_def AnnotationPrefix_def)
  moreover have "\<not> readable_object corrupt_object"
    by (simp add: readable_object_def corrupt_object_def fresh_object_def get_str_def parseLifecycle_def)
  ultimately show ?thesis
    using Apply_fails_closed [of store_kube sample_identity "[corrupt_object]" "[corrupt_object]" "[corrupt_object]" corrupt_object one_try "[sample_publication]"]
    by auto
qed

section \<open>Ownership\<close>

definition owns :: "Identity \<Rightarrow> DNSEndpoint \<Rightarrow> bool" where
  "owns identity obj \<longleftrightarrow> (\<exists>provider. owned_by identity provider obj)"

definition confined :: "Identity \<Rightarrow> (object_key \<Rightarrow> DNSEndpoint option) \<Rightarrow> (object_key \<Rightarrow> DNSEndpoint option) \<Rightarrow> bool" where
  "confined identity before after \<longleftrightarrow>
     (\<forall>key. after key \<noteq> before key \<longrightarrow>
        (\<exists>provider. key = name_of identity provider) \<and>
        (\<forall>old. before key = Some old \<longrightarrow> owns identity old) \<and> (\<forall>new. after key = Some new \<longrightarrow> owns identity new))"

lemma confined_refl: "confined identity a a"
  by (simp add: confined_def)

lemma confined_trans: "confined identity a b \<Longrightarrow> confined identity b c \<Longrightarrow> confined identity a c"
  unfolding confined_def by metis

lemma build_owned: "build now identity provider pub cur = Inr (Some obj) \<Longrightarrow> owned_by identity provider obj"
proof -
  assume "build now identity provider pub cur = Inr (Some obj)"
  then obtain p where "finish_build identity provider pub cur p = Inr (Some obj)"
    by (auto simp: build_finish Let_def split: sum.splits prod.splits)
  from finish_build_object [OF this] show ?thesis
    by (auto simp: owned_by_def build_labels_def ManagedByLabel_def ProviderLabel_def SourceKeyLabel_def AnnotationPrefix_def)
qed

lemma owned_by_content: "same_content a b \<Longrightarrow> owned_by identity provider a = owned_by identity provider b"
  by (simp add: owned_by_def same_content_facts(4))

lemma attempt_confined:
  "attempt identity provider pub (before (name_of identity provider)) cur' \<Longrightarrow>
     confined identity before (before(name_of identity provider := cur'))"
  by (cases "before (name_of identity provider)" rule: option.exhaust)
    (auto simp: confined_def owns_def owned_by_content elim!: attempt.cases dest!: build_owned)

lemma apply_attempt_confined:
  assumes "api_doc K view" "full_publication pub" "\<And>w. valid_time (clock_now K w)"
  shows "confined identity (view w) (view (snd (apply_attempt K identity provider pub selected w)))"
proof -
  obtain err w' where run: "apply_attempt K identity provider pub selected w = (err, w')" by fastforce
  from apply_attempt_step [OF assms run] show ?thesis using attempt_confined by (auto simp: run)
qed

lemma applyOne_confined:
  assumes env: "writer_env K view retry" and pub: "full_publication pub"
  shows "confined identity (view w) (view (snd (applyOne K retry identity provider pub selected w)))"
proof -
  let ?f = "apply_attempt K identity provider pub selected"
  have api: "api_doc K view" "\<And>w. valid_time (clock_now K w)" and r: "retried (quiet view) ?f w (retry ?f w)"
    using env by (simp_all add: writer_env_def retry_doc_def)
  show ?thesis unfolding applyOne_def
    by (rule retried_trans [OF r, where R = "\<lambda>a b. confined identity (view a) (view b)"])
      (auto intro: apply_attempt_confined [OF api(1) pub api(2)] confined_trans simp: quiet_def confined_refl)
qed

lemma apply_providers_confined:
  assumes env: "writer_env K view retry" and pubs: "\<forall>(p, pub) \<in> set desired. full_publication pub"
  shows "confined identity (view w) (view (snd (apply_providers K retry identity desired providers w)))"
proof (induction providers arbitrary: w)
  case (Cons provider providers)
  have pub: "full_publication (pub_for desired provider)"
    using pubs full_zero by (auto simp: pub_for_def dest!: map_of_SomeD split: option.splits)
  obtain sel where one: "apply_providers K retry identity desired (provider # providers) w =
      (case applyOne K retry identity provider (pub_for desired provider) sel w of
         (Some e, w') \<Rightarrow> (Some e, w') | (None, w') \<Rightarrow> apply_providers K retry identity desired providers w')"
    by (cases "map_of desired provider") (auto simp: pub_for_def)
  note first = applyOne_confined [OF env pub, of identity w provider sel]
  obtain err w1 where run: "applyOne K retry identity provider (pub_for desired provider) sel w = (err, w1)" by fastforce
  show ?case
    using first confined_trans [OF _ Cons.IH [of w1]] unfolding one by (cases err) (auto simp: run)
qed (simp add: confined_refl)

lemma Apply_confines:
  assumes "writer_env K view retry" "\<forall>pub \<in> set pubs. full_publication pub"
  shows "confined identity (view w) (view (snd (Apply K retry identity pubs w)))"
proof -
  obtain r w1 where listed: "list_endpoints K (iNamespace identity)
      [(ManagedByLabel, ManagedByValue), (SourceKeyLabel, SourceKey identity)] w = (r, w1)" by fastforce
  have w1: "view w1 = view w" using assms(1) listed by (auto simp: writer_env_def reads_only_def) (metis snd_conv)
  have "confined identity (view w1) (view (snd (apply_providers K retry identity d ps w1)))"
    if "index_desired [] pubs = Inr d" for d ps
    using index_desired_props [OF that] assms(2) by (intro apply_providers_confined [OF assms(1)]) auto
  then show ?thesis
    using confined_refl [of identity "view w"] w1 by (auto simp: Apply_def listed split: sum.splits)
qed

text \<open>C10: the writer only touches its own objects.  Whatever \<^verbatim>\<open>Apply\<close> returns, success or error, every
  object it changed, created or deleted has a name generated for this source, belonged to this source
  before (its ownership labels said so) if it existed, and belongs to it afterwards if it still exists.\<close>

theorem Apply_confined:
  assumes "writer_env K view retry" "\<forall>pub \<in> set pubs. full_publication pub"
  shows "confined identity (view w) (view (snd (Apply K retry identity pubs w)))"
  using assms by (rule Apply_confines)

theorem Apply_confined_witness:
  "\<exists>w'. Apply store_kube one_try sample_identity [sample_publication] [] = (None, w') \<and>
        confined sample_identity (store_view []) (store_view w')"
proof -
  obtain w' where run: "Apply store_kube one_try sample_identity [sample_publication] [] = (None, w')"
    using sample_apply by blast
  from Apply_confined [OF store_writer_env, of "[sample_publication]" sample_identity "[]"] run sample_full show ?thesis by simp
qed

section \<open>Retention and expiry over time\<close>

text \<open>C7: from an empty cluster every sequence of reconciliations, expiries and clock ticks reaches only
  valid objects: the lifecycle annotation parses, every pending target is in the spec, deadlines are
  canonical and the stored delay is a non-negative duration.\<close>

theorem reachable_valid:
  assumes "valid_time start" "run (start, None) events s"
  shows "state_ok s"
  using run_ok [OF assms(2)] assms(1) by (simp add: state_ok_def)

lemma sample_sync:
  obtains obj where "step (sample_now, None) (Sync sample_identity ''lan'' sample_publication) (sample_now, Some obj)" "valid_object obj"
    "obj_status obj = [(''app.example.com'', ''A'', ''192.0.2.1'') \<mapsto> None]" "obj_delay obj = Some 60000000000"
proof -
  obtain obj where "build sample_now sample_identity ''lan'' sample_publication None = Inr (Some obj)" "valid_object obj"
    "obj_status obj = [(''app.example.com'', ''A'', ''192.0.2.1'') \<mapsto> None]" "obj_delay obj = Some 60000000000"
    by (rule sample_build)
  with step.sync [OF sample_valid_publication] show thesis by (intro that [of obj]) auto
qed

theorem reachable_valid_witness:
  "\<exists>obj. run (sample_now, None) [Sync sample_identity ''lan'' sample_publication] (sample_now, Some obj) \<and>
         state_ok (sample_now, Some obj)"
proof -
  obtain obj where "step (sample_now, None) (Sync sample_identity ''lan'' sample_publication) (sample_now, Some obj)"
    by (rule sample_sync)
  then have run: "run (sample_now, None) [Sync sample_identity ''lan'' sample_publication] (sample_now, Some obj)"
    by (rule run.more [OF _ run.stop])
  with reachable_valid [OF sample_valid_time run] show ?thesis by blast
qed

text \<open>C6: the deletion delay is honoured.  When a reconciliation stops wanting an active target, the
  target stays published, with the deadline of that moment plus the delay stored with it, through every
  sequence of further reconciliations that do not want it again, expiries and clock ticks, as long as the
  clock has not reached the deadline.\<close>

theorem run_retains:
  assumes "state_ok s" "state_status s k = Some None" "step s (Sync identity provider pub) s1" "\<not> wants k (Sync identity provider pub)"
    and "run s1 events s2" "\<forall>e \<in> set events. \<not> wants k e" "fst s2 < fst s + current_delay pub (snd s)"
  shows "state_status s2 k = Some (Some (fst s + current_delay pub (snd s)))"
proof -
  have s1: "state_ok s1" "fst s1 = fst s"
    "state_status s1 k = sync_status (fst s) (current_delay pub (snd s)) (desired_targets (Records pub)) (state_status s) k"
    using sync_step [OF assms(3,1)] by simp_all
  have "fst s1 \<le> fst s2" using run_ok [OF assms(5) s1(1)] by simp
  then have "current_delay pub (snd s) > 0" using assms(7) s1(2) by simp
  then have "state_status s1 k = Some (Some (fst s + current_delay pub (snd s)))"
    using s1(3) assms(2,4) by (simp add: sync_status_def)
  from run_keeps_deadline [OF assms(5) s1(1) assms(6) this assms(7)] show ?thesis .
qed

lemma zero_valid: "valid_publication zero_Publication"
  using full_zero by (simp add: full_publication_def)

lemma zero_desired: "desired_targets (Records zero_Publication) = {}"
  by (simp add: zero_Publication_def desired_targets_def)

theorem run_retains_witness:
  "\<exists>obj s1 s2. step (sample_now, Some obj) (Sync sample_identity ''lan'' zero_Publication) s1 \<and>
     run s1 [Tick (sample_now + 59999999999)] s2 \<and>
     state_status s2 (''app.example.com'', ''A'', ''192.0.2.1'') = Some (Some (sample_now + 60000000000))"
proof -
  let ?k = "(''app.example.com'', ''A'', ''192.0.2.1'')" and ?zero = "Sync sample_identity ''lan'' zero_Publication"
  obtain obj where obj: "valid_object obj" "obj_status obj = [?k \<mapsto> None]" "obj_delay obj = Some 60000000000" by (rule sample_sync)
  then have ok: "state_ok (sample_now, Some obj)" using sample_valid_time by (simp add: state_ok_def current_ok_def)
  obtain r where b: "build sample_now sample_identity ''lan'' zero_Publication (Some obj) = Inr r"
    by (rule build_refines [OF sample_valid_time zero_valid, of "Some obj" sample_identity "''lan''"]) (use obj in \<open>auto simp: current_ok_def\<close>)
  have s1: "step (sample_now, Some obj) ?zero (sample_now, r)" by (rule step.sync [OF zero_valid b])
  have "valid_time (sample_now + 59999999999)" by (simp add: valid_time_def sample_now_def)
  then have s2: "run (sample_now, r) [Tick (sample_now + 59999999999)] (sample_now + 59999999999, r)"
    by (intro run.more [OF step.tick run.stop]) simp_all
  have "state_status (sample_now + 59999999999, r) ?k = Some (Some (fst (sample_now, Some obj) + current_delay zero_Publication (snd (sample_now, Some obj))))"
    by (rule run_retains [OF ok _ s1 _ s2]) (simp_all add: state_status_def status_of_def obj zero_desired current_delay_def)
  then have st: "state_status (sample_now + 59999999999, r) ?k = Some (Some (sample_now + 60000000000))" by (simp add: current_delay_def obj)
  show ?thesis by (intro exI conjI) (rule s1, rule s2, rule st)
qed

section \<open>The expiry schedule\<close>

text \<open>The queue of the lifecycle controller for an object that nobody else touches.  A round at \<open>now\<close> runs the
  body of \<^verbatim>\<open>Advance\<close> and returns its wait as \<^verbatim>\<open>RequeueAfter\<close>; controller-runtime runs the next round that
  much later when it is positive, and none otherwise.  \<open>lates\<close> says how late the queue is with each of them.
  The result is the instant of every round with the object it leaves; it is \<open>None\<close> when a round fails or the
  queue is not idle after \<open>lates\<close>.\<close>

fun rounds :: "int list \<Rightarrow> int \<Rightarrow> DNSEndpoint option \<Rightarrow> writer_state list option" where
  "rounds lates now None = Some [(now, None)]"
| "rounds lates now (Some obj) =
     (case advance_object now 0 obj of
        (wait, Inl e) \<Rightarrow> None
      | (wait, Inr a) \<Rightarrow>
          (if wait \<le> 0 then Some [(now, after_action a obj)]
           else case lates of
                  [] \<Rightarrow> None
                | late # lates' \<Rightarrow> map_option ((#) (now, after_action a obj)) (rounds lates' (now + wait + late) (after_action a obj))))"

text \<open>The targets that wait for an instant after \<open>now\<close>.\<close>

definition waiting :: "int \<Rightarrow> status \<Rightarrow> targetKey set" where
  "waiting now A = {k. \<exists>d. A k = Some (Some d) \<and> now < d}"

lemma expire_status_twice: "now \<le> t \<Longrightarrow> expire_status t (expire_status now A) = expire_status t A"
  by (rule ext) (auto simp: expire_status_def split: option.splits)

lemma pending_status_iff:
  assumes "valid_object obj"
  shows "obj_status obj k = Some (Some d) \<longleftrightarrow> (\<exists>i \<in> set (obj_pending obj). pending_key i = k \<and> deadline i = d)"
  using pending_lookup_mem [OF valid_object_pending [OF assms], of k] assms
  by (auto simp: obj_status_def valid_object_def)

lemma waiting_pending: "valid_object obj \<Longrightarrow> waiting now (obj_status obj) \<subseteq> pending_key ` set (obj_pending obj)"
  unfolding waiting_def by (simp only: pending_status_iff) blast

lemma finite_waiting: "valid_object obj \<Longrightarrow> finite (waiting now (obj_status obj))"
  by (rule finite_subset [OF waiting_pending]) simp_all

text \<open>One round: the wait leads exactly to the next deadline.\<close>

lemma advance_round:
  assumes obj: "valid_object obj" and range: "\<forall>k d. obj_status obj k = Some (Some d) \<longrightarrow> d - now \<le> max_duration"
  obtains a wait where "advance_object now 0 obj = (wait, Inr a)" "current_ok (after_action a obj)"
    "status_of (after_action a obj) = expire_status now (obj_status obj)"
    "wait \<le> 0 \<longrightarrow> waiting now (obj_status obj) = {}"
    "0 < wait \<longrightarrow> (\<exists>k. obj_status obj k = Some (Some (now + wait)))"
    "0 < wait \<longrightarrow> (\<forall>k d. obj_status obj k = Some (Some d) \<longrightarrow> now < d \<longrightarrow> now + wait \<le> d)"
proof -
  let ?rest = "remaining_times now (obj_pending obj)"
  have rest: "r \<in> set ?rest \<longleftrightarrow> (\<exists>k d. obj_status obj k = Some (Some d) \<and> now < d \<and> r = d - now)" for r
  proof -
    have sub: "time_Sub (deadline i) now = deadline i - now" if "i \<in> set (obj_pending obj)" "now < deadline i" for i
      using range [rule_format, OF obj_pending_status [OF obj that(1)]] that(2) by (simp add: time_Sub_def max_duration_def)
    have "r \<in> set ?rest \<longleftrightarrow> (\<exists>i \<in> set (obj_pending obj). now < deadline i \<and> r = time_Sub (deadline i) now)"
      by (auto simp: remaining_times_def)
    also have "\<dots> \<longleftrightarrow> (\<exists>i \<in> set (obj_pending obj). now < deadline i \<and> r = deadline i - now)" using sub by auto
    finally show ?thesis unfolding pending_status_iff [OF obj] by blast
  qed
  then have pos: "\<forall>r \<in> set ?rest. 0 < r" by auto
  obtain a where a: "advance_object now 0 obj = (foldl shorter 0 ?rest, Inr a)" "current_ok (after_action a obj)"
    "status_of (after_action a obj) = expire_status now (obj_status obj)" by (rule advance_refines [OF obj])
  have wait: "foldl shorter 0 ?rest = (if ?rest = [] then 0 else Min (set ?rest))" using shorter_fold [OF order.refl pos] by simp
  show thesis
  proof (cases "?rest = []")
    case True
    then have "\<not> (obj_status obj k = Some (Some d) \<and> now < d)" for k d
      using rest [of "d - now"] unfolding True by (simp only: list.set empty_iff) blast
    then have "waiting now (obj_status obj) = {}" by (simp only: waiting_def) blast
    then show thesis using True wait by (intro that [OF a]) simp_all
  next
    case False
    then have m: "Min (set ?rest) \<in> set ?rest" "\<And>r. r \<in> set ?rest \<Longrightarrow> Min (set ?rest) \<le> r" by simp_all
    show thesis
    proof (rule that [OF a])
      have more: "0 < foldl shorter 0 ?rest" using False wait m(1) pos by fastforce
      then show "foldl shorter 0 ?rest \<le> 0 \<longrightarrow> waiting now (obj_status obj) = {}" by simp
      obtain k d where "obj_status obj k = Some (Some d)" "Min (set ?rest) = d - now" using m(1) unfolding rest by blast
      then have "obj_status obj k = Some (Some (now + foldl shorter 0 ?rest))" unfolding wait using False by simp
      then show "0 < foldl shorter 0 ?rest \<longrightarrow> (\<exists>k. obj_status obj k = Some (Some (now + foldl shorter 0 ?rest)))" by blast
      have "now + foldl shorter 0 ?rest \<le> d" if "obj_status obj k = Some (Some d)" "now < d" for k d
      proof -
        have "d - now \<in> set ?rest" unfolding rest using that by blast
        from m(2) [OF this] show ?thesis unfolding wait using False by simp
      qed
      then show "0 < foldl shorter 0 ?rest \<longrightarrow>
          (\<forall>k d. obj_status obj k = Some (Some d) \<longrightarrow> now < d \<longrightarrow> now + foldl shorter 0 ?rest \<le> d)" by blast
    qed
  qed
qed

text \<open>What the rounds from \<open>now\<close> on achieve for a status: each leaves what expiry at its instant leaves; what
  is due goes at once, and every later deadline is met by a round at most \<open>slack\<close> late; nothing waits after
  the last round.\<close>

definition on_schedule :: "int \<Rightarrow> int \<Rightarrow> status \<Rightarrow> writer_state list \<Rightarrow> bool" where
  "on_schedule slack now A visited \<longleftrightarrow>
     (\<forall>(t, r) \<in> set visited. now \<le> t \<and> current_ok r \<and> status_of r = expire_status t A) \<and>
     (\<forall>k d. A k = Some (Some d) \<longrightarrow> (\<exists>(t, r) \<in> set visited. d \<le> t \<and> t \<le> (if d \<le> now then now else d + slack))) \<and>
     visited \<noteq> [] \<and> waiting (fst (last visited)) A = {}"

lemma expire_later: "expire_status now A k = Some (Some d) \<longleftrightarrow> A k = Some (Some d) \<and> now < d"
  by (auto simp: expire_status_def split: option.splits)

lemma waiting_expire: "now \<le> t \<Longrightarrow> waiting t (expire_status now A) = waiting t A"
  by (auto simp: waiting_def expire_later)

lemma on_schedule_last:
  assumes "waiting now A = {}" "current_ok r" "status_of r = expire_status now A"
  shows "on_schedule slack now A [(now, r)]"
proof -
  have "d \<le> now" if "A k = Some (Some d)" for k d using assms(1) that unfolding waiting_def by fastforce
  with assms show ?thesis by (fastforce simp: on_schedule_def)
qed

lemma on_schedule_next:
  assumes rest: "on_schedule slack t (expire_status now A) visited" and r: "current_ok r" "status_of r = expire_status now A"
    and t: "now < t" "t \<le> m + slack" and m: "\<And>k d. A k = Some (Some d) \<Longrightarrow> now < d \<Longrightarrow> m \<le> d"
  shows "on_schedule slack now A ((now, r) # visited)"
proof -
  have rounds: "t \<le> u" "current_ok r'" "status_of r' = expire_status u A" if "(u, r') \<in> set visited" for u r'
  proof -
    have *: "t \<le> u \<and> current_ok r' \<and> status_of r' = expire_status u (expire_status now A)"
      using rest that unfolding on_schedule_def by fast
    then show "t \<le> u" "current_ok r'" "status_of r' = expire_status u A" using t(1) expire_status_twice [of now u A] by simp_all
  qed
  have meets: "\<exists>(u, r') \<in> set ((now, r) # visited). d \<le> u \<and> u \<le> (if d \<le> now then now else d + slack)" if d: "A k = Some (Some d)" for k d
  proof (cases "now < d")
    case True
    with d have "expire_status now A k = Some (Some d)" by (simp add: expire_later)
    with rest obtain u r' where u: "(u, r') \<in> set visited" "d \<le> u" "u \<le> (if d \<le> t then t else d + slack)"
      unfolding on_schedule_def by blast
    with t(2) m [OF d True] have "u \<le> d + slack" by (simp split: if_splits)
    with u True show ?thesis by auto
  qed auto
  have ne: "visited \<noteq> []" "waiting (fst (last visited)) (expire_status now A) = {}"
    using rest by (simp_all add: on_schedule_def)
  then have "now \<le> fst (last visited)" using rounds(1) [of "fst (last visited)" "snd (last visited)"] t(1) by simp
  with ne have last: "waiting (fst (last visited)) A = {}" by (simp add: waiting_expire)
  have "\<forall>(u, r') \<in> set ((now, r) # visited). now \<le> u \<and> current_ok r' \<and> status_of r' = expire_status u A"
    using rounds r t(1) by fastforce
  with meets last ne(1) show ?thesis unfolding on_schedule_def by simp
qed

text \<open>Every round but the last leaves fewer deadlines to come.\<close>

lemma rounds_schedule:
  assumes "current_ok r" "\<forall>k d. status_of r k = Some (Some d) \<longrightarrow> d - now \<le> max_duration"
    and "\<forall>late \<in> set lates. 0 \<le> late \<and> late \<le> slack" "card (waiting now (status_of r)) \<le> length lates"
  shows "\<exists>visited. rounds lates now r = Some visited \<and> on_schedule slack now (status_of r) visited"
  using assms
proof (induction lates arbitrary: now r)
  case Nil
  show ?case
  proof (cases r)
    case (Some obj)
    with Nil have obj: "valid_object obj" "\<forall>k d. obj_status obj k = Some (Some d) \<longrightarrow> d - now \<le> max_duration"
      by (simp_all add: current_ok_def status_of_def)
    from Nil(4) have idle: "waiting now (obj_status obj) = {}" using finite_waiting [OF obj(1)] by (simp add: Some status_of_def)
    obtain a wait where a: "advance_object now 0 obj = (wait, Inr a)" "current_ok (after_action a obj)"
      "status_of (after_action a obj) = expire_status now (obj_status obj)" "wait \<le> 0 \<longrightarrow> waiting now (obj_status obj) = {}"
      "0 < wait \<longrightarrow> (\<exists>k. obj_status obj k = Some (Some (now + wait)))"
      "0 < wait \<longrightarrow> (\<forall>k d. obj_status obj k = Some (Some d) \<longrightarrow> now < d \<longrightarrow> now + wait \<le> d)"
      by (rule advance_round [OF obj]) blast
    have "\<not> 0 < wait" using a(5) idle unfolding waiting_def by fastforce
    with a(1) on_schedule_last [OF idle a(2,3), of slack] show ?thesis by (simp add: Some status_of_def not_less)
  qed (auto simp: status_of_def on_schedule_def waiting_def expire_status_def current_ok_def)
next
  case (Cons late lates)
  show ?case
  proof (cases r)
    case (Some obj)
    with Cons have obj: "valid_object obj" "\<forall>k d. obj_status obj k = Some (Some d) \<longrightarrow> d - now \<le> max_duration"
      by (simp_all add: current_ok_def status_of_def)
    obtain a wait where a: "advance_object now 0 obj = (wait, Inr a)" "current_ok (after_action a obj)"
      "status_of (after_action a obj) = expire_status now (obj_status obj)" "wait \<le> 0 \<longrightarrow> waiting now (obj_status obj) = {}"
      "0 < wait \<longrightarrow> (\<exists>k. obj_status obj k = Some (Some (now + wait)))"
      "0 < wait \<longrightarrow> (\<forall>k d. obj_status obj k = Some (Some d) \<longrightarrow> now < d \<longrightarrow> now + wait \<le> d)"
      by (rule advance_round [OF obj]) blast
    show ?thesis
    proof (cases "0 < wait")
      case False
      with a(4) have idle: "waiting now (obj_status obj) = {}" by simp
      from a(1) False on_schedule_last [OF idle a(2,3), of slack] show ?thesis by (simp add: Some status_of_def)
    next
      case True
      let ?t = "now + wait + late" and ?r = "after_action a obj"
      have late: "0 \<le> late" "late \<le> slack" using Cons.prems(3) by simp_all
      obtain k where k: "obj_status obj k = Some (Some (now + wait))" using a(5) True by blast
      have "waiting ?t (status_of ?r) \<subseteq> waiting now (obj_status obj) - {k}"
        using late True k by (auto simp: waiting_def a(3) expire_later)
      moreover have "k \<in> waiting now (obj_status obj)" using k True by (simp add: waiting_def)
      ultimately have "card (waiting ?t (status_of ?r)) < card (waiting now (obj_status obj))"
        using finite_waiting [OF obj(1), of now] by (intro psubset_card_mono) auto
      then have fewer: "card (waiting ?t (status_of ?r)) \<le> length lates" using Cons.prems(4) by (simp add: Some status_of_def)
      have range: "d - ?t \<le> max_duration" if "status_of ?r k = Some (Some d)" for k d
        using obj(2) [rule_format, of k d] that late True by (simp add: a(3) expire_later)
      then have range: "\<forall>k d. status_of ?r k = Some (Some d) \<longrightarrow> d - ?t \<le> max_duration" by blast
      obtain visited where "rounds lates ?t ?r = Some visited" "on_schedule slack ?t (status_of ?r) visited"
        using Cons.IH [OF a(2) range _ fewer] Cons.prems(3) by auto
      moreover have next_due: "now + wait \<le> d" if "obj_status obj k = Some (Some d)" "now < d" for k d
        using a(6) True that by blast
      moreover from calculation(2) have "on_schedule slack now (obj_status obj) ((now, ?r) # visited)"
        unfolding a(3) by (rule on_schedule_next [OF _ a(2,3), where m = "now + wait"]) (use late True in simp, use late in simp, rule next_due)
      ultimately show ?thesis using a(1) True by (simp add: Some status_of_def)
    qed
  qed (auto simp: status_of_def on_schedule_def waiting_def expire_status_def current_ok_def)
qed

text \<open>C11: retired targets are removed on time.  Take an object that nobody else touches, and a lifecycle
  controller that runs \<^verbatim>\<open>Advance\<close> on it at \<open>now\<close> and again whenever the wait it returned says so, each time at
  most \<open>slack\<close> late.  At the latest after one round for every pending target no further round is asked for.
  Every round leaves exactly the targets that are active or whose deadline is still to come.  What is due is
  removed at once, every other pending target by a round after its deadline that is late by at most \<open>slack\<close>;
  and when the queue is idle just the active targets are left.  The deadlines lie within the range of a Go
  duration, 292 years, from \<open>now\<close>.\<close>

theorem expiry_on_time:
  assumes obj: "valid_object obj" and "\<forall>k d. obj_status obj k = Some (Some d) \<longrightarrow> d - now \<le> max_duration"
    and "\<forall>late \<in> set lates. 0 \<le> late \<and> late \<le> slack" "length (obj_pending obj) \<le> length lates"
  shows "\<exists>visited. rounds lates now (Some obj) = Some visited \<and> visited \<noteq> [] \<and>
    (\<forall>(t, r) \<in> set visited. now \<le> t \<and> current_ok r \<and> status_of r = expire_status t (obj_status obj)) \<and>
    (\<forall>k d. obj_status obj k = Some (Some d) \<longrightarrow>
      (\<exists>(t, r) \<in> set visited. status_of r k = None \<and> d \<le> t \<and> t \<le> (if d \<le> now then now else d + slack))) \<and>
    (\<forall>k. state_status (last visited) k = (if obj_status obj k = Some None then Some None else None))"
proof -
  have "card (waiting now (obj_status obj)) \<le> card (pending_key ` set (obj_pending obj))"
    by (rule card_mono [OF _ waiting_pending [OF obj]]) simp
  also have "\<dots> \<le> card (set (obj_pending obj))" by (rule card_image_le) simp
  also have "\<dots> \<le> length lates" using card_length [of "obj_pending obj"] assms(4) by linarith
  finally have fewer: "card (waiting now (status_of (Some obj))) \<le> length lates" by (simp add: status_of_def)
  obtain visited where visited: "rounds lates now (Some obj) = Some visited" and "on_schedule slack now (obj_status obj) visited"
    using rounds_schedule [OF _ _ assms(3) fewer] assms(2) obj by (auto simp: current_ok_def status_of_def)
  then have all: "\<forall>(t, r) \<in> set visited. now \<le> t \<and> current_ok r \<and> status_of r = expire_status t (obj_status obj)"
    and met: "obj_status obj k = Some (Some d) \<Longrightarrow> \<exists>(t, r) \<in> set visited. d \<le> t \<and> t \<le> (if d \<le> now then now else d + slack)"
    and ne: "visited \<noteq> []" and last: "waiting (fst (last visited)) (obj_status obj) = {}" for k d
    unfolding on_schedule_def by blast+
  have gone: "\<exists>(t, r) \<in> set visited. status_of r k = None \<and> d \<le> t \<and> t \<le> (if d \<le> now then now else d + slack)"
    if d: "obj_status obj k = Some (Some d)" for k d
  proof -
    obtain t r where tr: "(t, r) \<in> set visited" "d \<le> t" "t \<le> (if d \<le> now then now else d + slack)" using met [OF d] by blast
    with all have "status_of r = expire_status t (obj_status obj)" by fast
    with d tr(2) have "status_of r k = None" by (simp add: expire_status_def)
    with tr show ?thesis by blast
  qed
  have past: "d \<le> fst (last visited)" if "obj_status obj k = Some (Some d)" for k d
    using last that unfolding waiting_def by fastforce
  have "state_status (last visited) = expire_status (fst (last visited)) (obj_status obj)"
    using all ne by (simp add: state_status_def case_prod_beta)
  then have "state_status (last visited) k = (if obj_status obj k = Some None then Some None else None)" for k
    using past [of k] by (auto simp: expire_status_def not_less split: option.split)
  with visited all gone ne show ?thesis by blast
qed

theorem expiry_on_time_witness:
  "\<exists>obj visited. obj_status obj (''app.example.com'', ''A'', ''192.0.2.1'') = Some (Some (sample_now + 60000000000)) \<and>
     length (obj_pending obj) = 1 \<and> rounds [5] sample_now (Some obj) = Some visited \<and>
     (\<exists>(t, r) \<in> set visited. sample_now + 60000000000 \<le> t \<and> t \<le> sample_now + 60000000005 \<and>
       status_of r (''app.example.com'', ''A'', ''192.0.2.1'') = None)"
proof -
  let ?k = "(''app.example.com'', ''A'', ''192.0.2.1'')"
  obtain obj where obj: "valid_object obj" "obj_status obj = [?k \<mapsto> Some (sample_now + 60000000000)]" by (rule sample_retired)
  have range: "\<forall>k d. obj_status obj k = Some (Some d) \<longrightarrow> d - sample_now \<le> max_duration"
    by (simp add: obj(2) max_duration_def)
  have keys: "pending_key ` set (obj_pending obj) = {?k}"
  proof -
    have "k \<in> pending_key ` set (obj_pending obj) \<longleftrightarrow> (\<exists>d. obj_status obj k = Some (Some d))" for k
      unfolding pending_status_iff [OF obj(1)] by blast
    moreover have "(\<exists>d. obj_status obj k = Some (Some d)) \<longleftrightarrow> k = ?k" for k by (simp add: obj(2))
    ultimately have "k \<in> pending_key ` set (obj_pending obj) \<longleftrightarrow> k \<in> {?k}" for k by (simp only: singleton_iff)
    then show ?thesis by (rule set_eqI)
  qed
  then have len: "length (obj_pending obj) = 1"
    using valid_object_pending [OF obj(1)] distinct_card [of "map pending_key (obj_pending obj)"] by (simp add: wf_pendings_def)
  obtain visited where "rounds [5] sample_now (Some obj) = Some visited"
    and "\<forall>k d. obj_status obj k = Some (Some d) \<longrightarrow> (\<exists>(t, r) \<in> set visited. status_of r k = None \<and> d \<le> t \<and>
      t \<le> (if d \<le> sample_now then sample_now else d + 5))"
    using expiry_on_time [OF obj(1) range, of "[5]" 5] len by (auto simp del: split_paired_All split_paired_Ex)
  moreover have st: "obj_status obj ?k = Some (Some (sample_now + 60000000000))" by (simp add: obj(2))
  ultimately obtain t r where "rounds [5] sample_now (Some obj) = Some visited" "(t, r) \<in> set visited" "status_of r ?k = None"
    "sample_now + 60000000000 \<le> t" "t \<le> sample_now + 60000000005" by fastforce
  with st len show ?thesis by (intro exI [of _ obj] exI [of _ visited]) blast
qed

section \<open>The output as the source controllers see it\<close>

text \<open>What a source controller relies on: \<^verbatim>\<open>source.Output\<close>, an operation on a world whose objects \<open>view\<close>
  shows.  \<open>listed\<close> are the providers an earlier run has left objects for; \<open>sound\<close> is the documented
  behaviour of the API server behind the output.\<close>

definition settled :: "Identity \<Rightarrow> string \<Rightarrow> targetKey set \<Rightarrow> (object_key \<Rightarrow> DNSEndpoint option) \<Rightarrow> (object_key \<Rightarrow> DNSEndpoint option) \<Rightarrow> bool" where
  "settled identity provider targets before after \<longleftrightarrow>
     current_ok (after (name_of identity provider)) \<and>
     (\<exists>now delay. (\<forall>obj. before (name_of identity provider) = Some obj \<longrightarrow> obj_delay obj = Some delay) \<and>
        status_of (after (name_of identity provider)) = sync_status now delay targets (status_of (before (name_of identity provider))))"

definition published_targets :: "Publication list \<Rightarrow> string \<Rightarrow> targetKey set" where
  "published_targets pubs provider = (\<Union>pub \<in> {pub \<in> set pubs. ProviderName pub = provider}. desired_targets (Records pub))"

lemma reconciled_settled:
  assumes "reconciled identity provider pub before after" "current_ok (before (name_of identity provider))"
  shows "settled identity provider (desired_targets (Records pub)) before after"
proof -
  have "obj_delay obj = Some (current_delay pub (Some obj))" if "before (name_of identity provider) = Some obj" for obj
    using assms(2) that by (auto simp: current_ok_def valid_object_def current_delay_def)
  then show ?thesis using assms(1) unfolding reconciled_def settled_def by metis
qed

locale dns_output =
  fixes apply_output :: "Identity \<Rightarrow> Publication list \<Rightarrow> 'w \<Rightarrow> goerr option \<times> 'w"
    and view :: "'w world_view" and listed :: "Identity \<Rightarrow> 'w \<Rightarrow> string set" and sound :: bool
  assumes output_confined: "sound \<Longrightarrow> \<forall>pub \<in> set pubs. full_publication pub \<Longrightarrow>
      confined identity (view w) (view (snd (apply_output identity pubs w)))"
    and output_reconciles: "sound \<Longrightarrow> \<forall>pub \<in> set pubs. full_publication pub \<Longrightarrow>
      \<forall>provider. current_ok (view w (name_of identity provider)) \<Longrightarrow>
      inj_on (ObjectName identity) (ProviderName ` set pubs \<union> listed identity w) \<Longrightarrow> apply_output identity pubs w = (None, w') \<Longrightarrow>
      (\<forall>pub \<in> set pubs. reconciled identity (ProviderName pub) pub (view w) (view w')) \<and>
      (\<forall>p \<in> listed identity w. p \<notin> ProviderName ` set pubs \<longrightarrow> reconciled identity p zero_Publication (view w) (view w')) \<and>
      (\<forall>k. k \<notin> name_of identity ` (ProviderName ` set pubs \<union> listed identity w) \<longrightarrow> view w' k = view w k)"
begin

lemma output_settles:
  assumes "sound" "\<forall>pub \<in> set pubs. full_publication pub" "\<forall>provider. current_ok (view w (name_of identity provider))"
    and "inj_on (ObjectName identity) (ProviderName ` set pubs \<union> listed identity w)" "apply_output identity pubs w = (None, w')"
    and "distinct (map ProviderName pubs)" "provider \<in> ProviderName ` set pubs \<union> listed identity w"
  shows "settled identity provider (published_targets pubs provider) (view w) (view w')"
proof (cases "provider \<in> ProviderName ` set pubs")
  case True
  then obtain pub where pub: "pub \<in> set pubs" "ProviderName pub = provider" by blast
  then have "{pub \<in> set pubs. ProviderName pub = provider} = {pub}" using assms(6) by (auto simp: distinct_map dest: inj_onD)
  then have "published_targets pubs provider = desired_targets (Records pub)" by (simp add: published_targets_def)
  with output_reconciles [OF assms(1-5)] pub assms(3) show ?thesis by (metis reconciled_settled)
next
  case False
  then have "published_targets pubs provider = desired_targets (Records zero_Publication)"
    by (auto simp: published_targets_def zero_Publication_def desired_targets_def)
  with output_reconciles [OF assms(1-5)] False assms(3,7) show ?thesis by (metis UnE reconciled_settled)
qed

end

definition listed_providers :: "'w kube \<Rightarrow> Identity \<Rightarrow> 'w \<Rightarrow> string set" where
  "listed_providers K identity w =
     (case fst (list_endpoints K (iNamespace identity) [(ManagedByLabel, ManagedByValue), (SourceKeyLabel, SourceKey identity)] w) of
        Inl _ \<Rightarrow> {} | Inr items \<Rightarrow> provider_of ` set items)"

lemma Apply_reconciles:
  assumes "writer_env K view retry" "\<forall>pub \<in> set pubs. full_publication pub" "\<forall>provider. current_ok (view w (name_of identity provider))"
    and inj: "inj_on (ObjectName identity) (ProviderName ` set pubs \<union> listed_providers K identity w)"
    and run: "Apply K retry identity pubs w = (None, w')"
  shows "(\<forall>pub \<in> set pubs. reconciled identity (ProviderName pub) pub (view w) (view w')) \<and>
      (\<forall>p \<in> listed_providers K identity w. p \<notin> ProviderName ` set pubs \<longrightarrow> reconciled identity p zero_Publication (view w) (view w')) \<and>
      (\<forall>k. k \<notin> name_of identity ` (ProviderName ` set pubs \<union> listed_providers K identity w) \<longrightarrow> view w' k = view w k)"
proof -
  obtain r w1 where listed: "list_endpoints K (iNamespace identity)
      [(ManagedByLabel, ManagedByValue), (SourceKeyLabel, SourceKey identity)] w = (r, w1)" by fastforce
  then obtain items where items: "r = Inr items" using run by (cases r) (auto simp: Apply_def)
  then have names: "listed_providers K identity w = provider_of ` set items" by (simp add: listed_providers_def listed)
  show ?thesis
    using Apply_published [OF assms(1-3) listed [unfolded items] inj [unfolded names] run] unfolding names by (simp add: Ball_image_comp)
qed

interpretation writer: dns_output "Apply K retry" view "listed_providers K" "writer_env K view retry" for K view retry
  by unfold_locales (rule Apply_confines, assumption+, rule Apply_reconciles)


end
