(* ===== verification/Source_Controller.thy ===== *)
theory Source_Controller
  imports Resolver Diagnostics Metrics Writer
begin

text \<open>
  \<^verbatim>\<open>internal/controller/source_controller.go\<close>: the reconcilers of Ingresses and of Gateway routes.  Both
  read the source, merge and parse its annotations, project it, load the selected providers, resolve the
  publications and hand them to the output; \<open>publish\<close> and \<open>reconcile_parsed\<close> are the parts the two Go
  functions share word for word, with the texts that differ as arguments.

  \<open>ctl_env\<close> is what a reconciler is configured with: the reader, the output (\<^verbatim>\<open>source.Output\<close>), the name
  check, the clock (its n-th reading) and whether there is an event recorder.  \<open>ctl\<close> is what it changes: the
  world of the output, the metrics, the diagnostics and what they have let out.  A \<open>result\<close> of Go is always
  empty here, so a run returns its error.
\<close>

section \<open>Configuration and state\<close>

record 'w ctl_env =
  envD :: name_check
  envR :: reader
  envApply :: "Identity \<Rightarrow> Publication list \<Rightarrow> 'w \<Rightarrow> goerr option \<times> 'w"
  envClock :: "nat \<Rightarrow> int"
  envRecorder :: bool

record 'w ctl =
  cOut :: 'w
  cMetrics :: "Metrics option"
  cSession :: "diagnosticSession option"
  cEmitter :: diagnosticEmitter
  cSinks :: "sink list"
  cTick :: nat

definition legacyIngressClassAnnotation :: string where
  "legacyIngressClassAnnotation = ''kubernetes.io/ingress.class''"

definition networking_v1 :: string where "networking_v1 = ''networking.k8s.io/v1''"
definition gateway_v1 :: string where "gateway_v1 = ''gateway.networking.k8s.io/v1''"

definition diagnose :: "'w ctl_env \<Rightarrow> client_object \<Rightarrow> string \<Rightarrow> string \<Rightarrow> string \<Rightarrow> 'w ctl \<Rightarrow> 'w ctl" where
  "diagnose E obj severity reason message st =
     (let ((s, e), out) =
        reportSourceDiagnostic obj (envRecorder E) (envClock E (cTick st)) (severity, reason, message) (cSession st, cEmitter st)
      in st\<lparr>cSession := s, cEmitter := e, cSinks := cSinks st @ out, cTick := cTick st + 1\<rparr>)"

definition warning :: "'w ctl_env \<Rightarrow> client_object \<Rightarrow> string \<Rightarrow> string \<Rightarrow> 'w ctl \<Rightarrow> 'w ctl" where
  "warning E obj reason message = diagnose E obj DiagnosticWarning reason message"

text \<open>The diagnostics a callee has reported through the callback, in order.\<close>

definition diagnose_all :: "'w ctl_env \<Rightarrow> client_object \<Rightarrow> diagnostic list \<Rightarrow> 'w ctl \<Rightarrow> 'w ctl" where
  "diagnose_all E obj ds st = fold (\<lambda>(severity, reason, message). diagnose E obj severity reason message) ds st"

definition set_source_metric :: "string \<Rightarrow> string \<Rightarrow> bool \<Rightarrow> 'w ctl \<Rightarrow> 'w ctl" where
  "set_source_metric kind key managed st = st\<lparr>cMetrics := SetSource kind key managed (cMetrics st)\<rparr>"

definition call_output :: "'w ctl_env \<Rightarrow> Identity \<Rightarrow> Publication list \<Rightarrow> 'w ctl \<Rightarrow> goerr option \<times> 'w ctl" where
  "call_output E identity pubs st = (let (err, w) = envApply E identity pubs (cOut st) in (err, st\<lparr>cOut := w\<rparr>))"

section \<open>Providers and options\<close>

fun load_loop :: "reader \<Rightarrow> string list \<Rightarrow> diagnostic list \<times> DNSProvider list \<Rightarrow> diagnostic list \<times> DNSProvider list result" where
  "load_loop R [] (ds, ps) = (ds, Inr ps)"
| "load_loop R (name # names) (ds, ps) =
     (case get_provider R name of
        Inl e \<Rightarrow>
          (if IsNotFound e
           then load_loop R names
             (ds @ [(DiagnosticWarning, ''DNSProviderNotFound'',
                Sprintf ''DNSProvider %q was not found; its publication is deselected'' [FStr name])], ps)
           else (ds @ [(DiagnosticWarning, ''DNSProviderReadFailed'', Sprintf ''get DNSProvider %s: %s'' [FStr name, FStr (Error e)])],
                 Inl (WrapErr (Sprintf ''get DNSProvider %s: '' [FStr name]) e)))
      | Inr provider \<Rightarrow> load_loop R names (ds, ps @ [provider]))"

definition loadProviders :: "reader \<Rightarrow> string list \<Rightarrow> diagnostic list \<times> DNSProvider list result" where
  "loadProviders R names =
     (case load_loop R names ([], []) of
        (ds, Inl e) \<Rightarrow> (ds, Inl e)
      | (ds, Inr ps) \<Rightarrow> (ds, Inr (sort_key dpName ps)))"

definition publicationOptions :: "ParsedAnnotations \<Rightarrow> PublicationOptions" where
  "publicationOptions parsed =
     \<lparr>poFamilies = Families parsed, poAnnotations = Resolved parsed, poTTL = PTTL parsed, poDeletionDelay = PDeletionDelay parsed\<rparr>"

section \<open>The shared part\<close>

definition write_output :: "'w ctl_env \<Rightarrow> client_object \<Rightarrow> Identity \<Rightarrow> Publication list \<Rightarrow> 'w ctl \<Rightarrow> goerr option \<times> 'w ctl" where
  "write_output E obj identity pubs st =
     (case call_output E identity pubs st of
        (Some e, st1) \<Rightarrow> (terminalOutputError (Some e), warning E obj ''DNSEndpointWriteFailed'' (Error e) st1)
      | (None, st1) \<Rightarrow> (None, st1))"

definition publish ::
  "'w ctl_env \<Rightarrow> client_object \<Rightarrow> Identity \<Rightarrow> (string list \<Rightarrow> diagnostic list \<times> HostProjection list result) \<Rightarrow> string \<Rightarrow>
   ParsedAnnotations \<Rightarrow> 'w ctl \<Rightarrow> goerr option \<times> 'w ctl" where
  "publish E obj identity project failReason parsed st =
     (let (ds1, projected) = project (Hostnames parsed); st1 = diagnose_all E obj ds1 st
      in case projected of
           Inl e \<Rightarrow> (terminalSourceError (Some e), warning E obj failReason (Error e) st1)
         | Inr projection \<Rightarrow>
             (let (ds2, loaded) = loadProviders (envR E) (Providers parsed); st2 = diagnose_all E obj ds2 st1
              in case loaded of
                   Inl e \<Rightarrow> (Some e, st2)
                 | Inr providers \<Rightarrow>
                     (let (ds3, resolved) = Publications (envR E) projection providers (publicationOptions parsed);
                          st3 = diagnose_all E obj ds3 st2
                      in case resolved of
                           Inl e \<Rightarrow> (terminalSourceError (Some e), warning E obj (resolutionWarningReason e) (Error e) st3)
                         | Inr publications \<Rightarrow> write_output E obj identity publications st3)))"

definition reconcile_parsed ::
  "'w ctl_env \<Rightarrow> client_object \<Rightarrow> Identity \<Rightarrow> string \<Rightarrow> string \<Rightarrow> (string list \<Rightarrow> diagnostic list \<times> HostProjection list result) \<Rightarrow> string \<Rightarrow>
   strmap result \<Rightarrow> 'w ctl \<Rightarrow> goerr option \<times> 'w ctl" where
  "reconcile_parsed E obj identity metricKey noProviders project failReason annotations st =
     (case annotations of
        Inl e \<Rightarrow> (terminalSourceError (Some e), st)
      | Inr values \<Rightarrow>
          (case ParseAnnotations (envD E) values of
             Inl e \<Rightarrow> (terminalSourceError (Some e), warning E obj ''InvalidAnnotations'' (Error e) st)
           | Inr parsed \<Rightarrow>
               (let managed = Enabled parsed \<and> length (Providers parsed) \<noteq> 0;
                    st1 = set_source_metric (iKind identity) metricKey managed st
                in if \<not> managed
                   then let st2 = (if Enabled parsed \<and> length (Providers parsed) = 0
                                   then diagnose E obj DiagnosticWarning ''NoProvidersSelected'' noProviders st1 else st1)
                     in write_output E obj identity [] st2
                   else publish E obj identity project failReason parsed st1)))"

text \<open>A source that no longer exists.\<close>

definition reconcile_deleted :: "'w ctl_env \<Rightarrow> string \<Rightarrow> SourceKind \<Rightarrow> object_key \<Rightarrow> 'w ctl \<Rightarrow> goerr option \<times> 'w ctl" where
  "reconcile_deleted E apiVersion kind key st =
     (case key of (namespace, name) \<Rightarrow>
        let st1 = st\<lparr>cEmitter := deleteSource kind namespace name (cEmitter st)\<rparr>;
            st2 = set_source_metric kind (namespace @ ''/'' @ name) False st1;
            (err, st3) = call_output E \<lparr>iAPIVersion = apiVersion, iKind = kind, iNamespace = namespace, iName = name, iUID = ''''\<rparr> [] st2
        in (terminalOutputError err, st3))"

text \<open>A session around a reconciliation: begun before it, finished after it.\<close>

definition in_session :: "'w ctl_env \<Rightarrow> client_object \<Rightarrow> ('w ctl \<Rightarrow> goerr option \<times> 'w ctl) \<Rightarrow> 'w ctl \<Rightarrow> goerr option \<times> 'w ctl" where
  "in_session E obj body st =
     (let (err, st1) = body (st\<lparr>cSession := Some (session_begin obj (envRecorder E))\<rparr>)
      in (err, st1\<lparr>cSession := None, cEmitter := session_finish (err = None) (the (cSession st1)) (cEmitter st1)\<rparr>))"

definition observed :: "'w ctl_env \<Rightarrow> string \<Rightarrow> ('w ctl \<Rightarrow> goerr option \<times> 'w ctl) \<Rightarrow> 'w ctl \<Rightarrow> goerr option \<times> 'w ctl" where
  "observed E name body st =
     (let started = envClock E (cTick st); (err, st1) = body (st\<lparr>cTick := cTick st + 1\<rparr>)
      in (err, st1\<lparr>cMetrics := Observe name (time_Sub (envClock E (cTick st1)) started) (err \<noteq> None) (cMetrics st1),
                   cTick := cTick st1 + 1\<rparr>))"

section \<open>Ingress\<close>

definition class_name :: "Ingress \<Rightarrow> string" where
  "class_name ingress =
     (case IngressClassName ingress of
        Some name \<Rightarrow> name
      | None \<Rightarrow> get_str (omAnnotations (ingMeta ingress)) legacyIngressClassAnnotation)"

definition ingressAnnotations :: "'w ctl_env \<Rightarrow> Ingress \<Rightarrow> 'w ctl \<Rightarrow> strmap result \<times> 'w ctl" where
  "ingressAnnotations E ingress st =
     (let className = class_name ingress in
      if className = '''' then (Inr (MergeAnnotations [omAnnotations (ingMeta ingress)]), st)
      else case get_ingressclass (envR E) className of
             Inl e \<Rightarrow>
               (let reason = (if IsNotFound e then ''IngressClassNotFound'' else ''IngressClassReadFailed'');
                    prefix = Sprintf ''get IngressClass %s: '' [FStr className];
                    st1 = warning E (KIngress ingress) reason (prefix @ Error e) st;
                    wrapped = WrapErr prefix e
                in (Inl (if IsNotFound e then mark_invalid wrapped else wrapped), st1))
           | Inr class \<Rightarrow> (Inr (MergeAnnotations [omAnnotations class, omAnnotations (ingMeta ingress)]), st))"

definition ingress_identity :: "Ingress \<Rightarrow> Identity" where
  "ingress_identity ingress =
     \<lparr>iAPIVersion = networking_v1, iKind = SourceKindIngress, iNamespace = omNamespace (ingMeta ingress),
      iName = omName (ingMeta ingress), iUID = omUID (ingMeta ingress)\<rparr>"

definition ingress_body :: "'w ctl_env \<Rightarrow> object_key \<Rightarrow> 'w ctl \<Rightarrow> goerr option \<times> 'w ctl" where
  "ingress_body E key st =
     (case get_ingress (envR E) key of
        Inl e \<Rightarrow> if IsNotFound e then reconcile_deleted E networking_v1 SourceKindIngress key st else (Some e, st)
      | Inr ingress \<Rightarrow>
          in_session E (KIngress ingress)
            (\<lambda>st. let (annotations, st1) = ingressAnnotations E ingress st
              in reconcile_parsed E (KIngress ingress) (ingress_identity ingress) (fst key @ ''/'' @ snd key)
                   ''Ingress is enabled but selects no DNSProviders''
                   (IngressProjection (envD E) ingress) ''InvalidSource'' annotations st1) st)"

definition ingress_Reconcile :: "'w ctl_env \<Rightarrow> object_key \<Rightarrow> 'w ctl \<Rightarrow> goerr option \<times> 'w ctl" where
  "ingress_Reconcile E key = observed E ''ingress'' (ingress_body E key)"

section \<open>Gateway routes\<close>

definition routeKind :: "SourceKind \<Rightarrow> SourceKind" where
  "routeKind kind = (if kind \<noteq> '''' then kind else SourceKindHTTPRoute)"

definition gateway_parent :: "ParentReference \<Rightarrow> bool" where
  "gateway_parent ref \<longleftrightarrow>
     \<not> (parGroup ref \<noteq> None \<and> parGroup ref \<noteq> Some gateway_group \<or> parKind ref \<noteq> None \<and> parKind ref \<noteq> Some ''Gateway'')"

definition parent_key :: "string \<Rightarrow> ParentReference \<Rightarrow> object_key" where
  "parent_key namespace ref = (case parNamespace ref of None \<Rightarrow> namespace | Some n \<Rightarrow> n, parName ref)"

text \<open>A parent that cannot be read: the warning and the error.\<close>

definition parent_failure :: "'w ctl_env \<Rightarrow> client_object \<Rightarrow> string \<Rightarrow> string \<Rightarrow> goerr \<Rightarrow> 'w ctl \<Rightarrow> goerr \<times> 'w ctl" where
  "parent_failure E route what name e st =
     (let reason = what @ (if IsNotFound e then ''NotFound'' else ''ReadFailed'');
          prefix = Sprintf ''get %s %s: '' [FStr what, FStr name]; wrapped = WrapErr prefix e
      in (if IsNotFound e then mark_invalid wrapped else wrapped, warning E route reason (prefix @ Error e) st))"

fun parent_chains :: "'w ctl_env \<Rightarrow> client_object \<Rightarrow> ParentReference list \<Rightarrow> strmap list \<Rightarrow> 'w ctl \<Rightarrow> strmap list result \<times> 'w ctl" where
  "parent_chains E route [] chs st = (Inr chs, st)"
| "parent_chains E route (ref # refs) chs st =
     (if \<not> gateway_parent ref then parent_chains E route refs chs st
      else let key = parent_key (GetNamespace route) ref in
        case get_gateway (envR E) key of
          Inl e \<Rightarrow> (let (err, st1) = parent_failure E route ''Gateway'' (fst key @ ''/'' @ snd key) e st in (Inl err, st1))
        | Inr gateway \<Rightarrow>
            (case get_gatewayclass (envR E) (GatewayClassName gateway) of
               Inl e \<Rightarrow> (let (err, st1) = parent_failure E route ''GatewayClass'' (GatewayClassName gateway) e st in (Inl err, st1))
             | Inr class \<Rightarrow>
                 parent_chains E route refs
                   (chs @ [MergeAnnotations [omAnnotations class, omAnnotations (gwMeta gateway), GetAnnotations route]]) st))"

definition ambiguous_error :: goerr where
  "ambiguous_error = mark_invalid (ErrMsg ''supported Gateway parent chains resolve to different relevant annotations'')"

definition routeAnnotations :: "'w ctl_env \<Rightarrow> client_object \<Rightarrow> 'w ctl \<Rightarrow> strmap result \<times> 'w ctl" where
  "routeAnnotations E route st =
     (case parent_chains E route (RouteParents route) [] st of
        (Inl e, st1) \<Rightarrow> (Inl e, st1)
      | (Inr [], st1) \<Rightarrow> (Inr (MergeAnnotations [GetAnnotations route]), st1)
      | (Inr (chain # chs), st1) \<Rightarrow>
          (if list_ex (\<lambda>c. c \<noteq> chain) chs then (Inl ambiguous_error, warning E route ''AmbiguousParents'' (Error ambiguous_error) st1)
           else (Inr chain, st1)))"

definition route_identity :: "SourceKind \<Rightarrow> client_object \<Rightarrow> Identity" where
  "route_identity kind route =
     \<lparr>iAPIVersion = gateway_v1, iKind = kind, iNamespace = GetNamespace route, iName = GetName route, iUID = GetUID route\<rparr>"

definition route_body :: "'w ctl_env \<Rightarrow> SourceKind \<Rightarrow> object_key \<Rightarrow> 'w ctl \<Rightarrow> goerr option \<times> 'w ctl" where
  "route_body E kind key st =
     (if RouteObject kind = None then (Some (ErrMsg (Sprintf ''unsupported Gateway route kind %q'' [FStr kind])), st)
      else case get_route (envR E) kind key of
        Inl e \<Rightarrow> if IsNotFound e then reconcile_deleted E gateway_v1 kind key st else (Some e, st)
      | Inr route \<Rightarrow>
          (if RouteKind route \<noteq> kind
           then (Some (ErrMsg (Sprintf ''route controller for %s read unexpected object kind %s'' [FStr kind, FStr (RouteKind route)])), st)
           else in_session E route
            (\<lambda>st. let (annotations, st1) = routeAnnotations E route st
              in reconcile_parsed E route (route_identity kind route) (fst key @ ''/'' @ snd key)
                   (Sprintf ''%s is enabled but selects no DNSProviders'' [FStr kind])
                   (RouteProjection (envD E) (envR E) route) ''ResolutionFailed'' annotations st1) st))"

definition route_Reconcile :: "'w ctl_env \<Rightarrow> SourceKind \<Rightarrow> object_key \<Rightarrow> 'w ctl \<Rightarrow> goerr option \<times> 'w ctl" where
  "route_Reconcile E Kind key =
     (let kind = routeKind Kind in observed E (ToLower kind) (route_body E kind key))"

end
