(* ===== verification/Admission.thy ===== *)
theory Admission
  imports Resolver
begin

text \<open>
  The validation rules of \<^verbatim>\<open>api/v1alpha1/dnsprovider_types.go\<close>: its \<^verbatim>\<open>+kubebuilder\<close> markers, which the API server
  enforces on every \<^verbatim>\<open>DNSProvider\<close> it stores.  \<open>DNSProvider_ok\<close> is what they say of a decoded object: an
  omitted number is 0, and defaults are filled in only where the enclosing object is present, so that TTL and
  deletion delay may still be absent.  The controllers do not check these rules again; \<open>admitted_publications\<close>
  shows what they owe to them.
\<close>

section \<open>The rules\<close>

text \<open>The patterns: a label is \<^verbatim>\<open>[a-z0-9](?:[a-z0-9-]{0,61}[a-z0-9])?\<close>; a name part of a qualified name is the same with
  capitals, underscores and dots.\<close>

definition is_label :: "string \<Rightarrow> bool" where
  "is_label s \<longleftrightarrow>
     s \<noteq> '''' \<and> length s \<le> 63 \<and> list_all (\<lambda>c. is_alnum c \<or> c = CHR ''-'') s \<and> is_alnum (hd s) \<and> is_alnum (last s)"

definition label_path :: "string \<Rightarrow> bool" where
  "label_path s \<longleftrightarrow> list_all is_label (Split s CHR ''.'')"

definition is_name_part :: "string \<Rightarrow> bool" where
  "is_name_part s \<longleftrightarrow>
     (let alnum = (\<lambda>c. is_alnum c \<or> is_upper c) in
      s \<noteq> '''' \<and> length s \<le> 63 \<and> list_all (\<lambda>c. alnum c \<or> c \<in> {CHR ''-'', CHR ''_'', CHR ''.''}) s \<and> alnum (hd s) \<and> alnum (last s))"

definition qualified_name :: "string \<Rightarrow> bool" where
  "qualified_name s \<longleftrightarrow>
     1 \<le> length s \<and> length s \<le> 317 \<and>
     (case Split s CHR ''/'' of
        [name] \<Rightarrow> is_name_part name
      | [path, name] \<Rightarrow> label_path path \<and> is_name_part name \<and> length path \<le> 253
      | _ \<Rightarrow> False)"

definition DNSZone_ok :: "DNSZone \<Rightarrow> bool" where
  "DNSZone_ok z \<longleftrightarrow> label_path (zoneName z) \<and> length (zoneName z) \<le> 253"

definition NodeLabelSource_ok :: "NodeLabelSource \<Rightarrow> bool" where
  "NodeLabelSource_ok l \<longleftrightarrow> qualified_name (NodeLabel l)"

definition IPSources_ok :: "IPSources \<Rightarrow> bool" where
  "IPSources_ok i \<longleftrightarrow>
     (ipv4 i \<noteq> None \<or> ipv6 i \<noteq> None) \<and>
     (case ipv4 i of None \<Rightarrow> True | Some l \<Rightarrow> NodeLabelSource_ok l) \<and> (case ipv6 i of None \<Rightarrow> True | Some l \<Rightarrow> NodeLabelSource_ok l)"

definition RecordDefaults_ok :: "RecordDefaults \<Rightarrow> bool" where
  "RecordDefaults_ok r \<longleftrightarrow>
     (defaultTTL r = 0 \<or> 1 \<le> defaultTTL r \<and> defaultTTL r \<le> 2147483647) \<and>
     (case defaultDelay r of None \<Rightarrow> True | Some d \<Rightarrow> 0 \<le> d \<and> d \<le> max_duration)"

definition ProviderSpecific_ok :: "ProviderSpecific \<Rightarrow> bool" where
  "ProviderSpecific_ok p \<longleftrightarrow>
     length (Defaults p) \<le> 64 \<and> distinct (map fst (Defaults p)) \<and> list_all (\<lambda>(name, value). name \<noteq> '''') (Defaults p) \<and>
     length (AnnotationKeys p) \<le> 64 \<and> distinct (AnnotationKeys p) \<and> list_all qualified_name (AnnotationKeys p)"

definition DNSProviderSpec_ok :: "DNSProviderSpec \<Rightarrow> bool" where
  "DNSProviderSpec_ok s \<longleftrightarrow>
     1 \<le> length (Zones s) \<and> length (Zones s) \<le> 64 \<and> distinct (map zoneName (Zones s)) \<and> list_all DNSZone_ok (Zones s) \<and>
     IPSources_ok (ipSources s) \<and> RecordDefaults_ok (recordDefaults s) \<and> ProviderSpecific_ok (providerSpecific s)"

definition DNSProvider_ok :: "DNSProvider \<Rightarrow> bool" where
  "DNSProvider_ok p \<longleftrightarrow> length (dpName p) \<le> 63 \<and> DNSProviderSpec_ok (dpSpec p)"

section \<open>Admitted zones\<close>

text \<open>An admitted zone is in the normal form in which the resolver compares it.\<close>

lemma alnum_clean: "is_alnum c \<Longrightarrow> is_ascii c \<and> \<not> is_upper c \<and> c \<noteq> CHR ''.''"
  by (auto simp: is_alnum_def is_ascii_def is_upper_def is_digit_def)

lemma set_Join: "set (Join ws [sep]) \<subseteq> (\<Union>w \<in> set ws. set w) \<union> {sep}"
  by (induction ws "[sep]" rule: Join.induct) auto

lemma last_Join: "ws \<noteq> [] \<Longrightarrow> last ws \<noteq> [] \<Longrightarrow> Join ws s \<noteq> [] \<and> last (Join ws s) = last (last ws)"
  by (induction ws s rule: Join.induct) auto

lemma label_path_clean:
  assumes "label_path z"
  shows "z \<noteq> ''''" "\<forall>c \<in> set z. is_ascii c \<and> \<not> is_upper c" "last z \<noteq> CHR ''.''"
proof -
  let ?ws = "Split z CHR ''.''"
  have ws: "list_all is_label ?ws" "?ws \<noteq> []" using assms by (simp_all add: label_path_def)
  have z: "z = Join ?ws ''.''" by simp
  have label: "is_label w" if "w \<in> set ?ws" for w using ws(1) that by (simp add: list_all_iff)
  have "is_label (last ?ws)" using label ws(2) by simp
  then have "last ?ws \<noteq> []" "is_alnum (last (last ?ws))" by (simp_all add: is_label_def)
  with last_Join [OF ws(2), of "''.''"] show "z \<noteq> ''''" "last z \<noteq> CHR ''.''" using z alnum_clean by metis+
  have dash: "is_ascii CHR ''-'' \<and> \<not> is_upper CHR ''-''" "is_ascii CHR ''.'' \<and> \<not> is_upper CHR ''.''"
    by (simp_all add: is_ascii_def is_upper_def)
  have "is_ascii c \<and> \<not> is_upper c" if "w \<in> set ?ws" "c \<in> set w" for w c
    using label [OF that(1)] that(2) alnum_clean dash(1) by (auto simp: is_label_def list_all_iff)
  moreover have "(\<exists>w \<in> set ?ws. c \<in> set w) \<or> c = CHR ''.''" if "c \<in> set z" for c
    using set_Join [of ?ws "CHR ''.''"] that unfolding z [symmetric] by blast
  ultimately show "\<forall>c \<in> set z. is_ascii c \<and> \<not> is_upper c" using dash(2) by blast
qed

lemma admitted_zone: "DNSZone_ok z \<Longrightarrow> zone_key (zoneName z) = zoneName z \<and> zoneName z \<noteq> ''''"
proof -
  assume "DNSZone_ok z"
  then have "label_path (zoneName z)" by (simp add: DNSZone_ok_def)
  note clean = label_path_clean [OF this]
  have "\<not> suffix ''.'' (zoneName z)" using clean(3) by (auto simp: suffix_def)
  then show ?thesis using clean(1) ToLower_id [OF clean(2)] by (simp add: zone_key_def)
qed

lemma admitted_delay: "DNSProvider_ok p \<Longrightarrow> wf_delay (defaultDelay (recordDefaults (dpSpec p)))"
  by (auto simp: DNSProvider_ok_def DNSProviderSpec_ok_def RecordDefaults_ok_def wf_delay_def split: option.splits)

section \<open>What admission gives the resolver\<close>

definition record_in_zone :: "DNSProvider \<Rightarrow> Record \<Rightarrow> bool" where
  "record_in_zone p r \<longleftrightarrow> list_ex (\<lambda>z. in_zone (host_key (rDNSName r)) (zoneName z)) (Zones (dpSpec p))"

definition publishable :: "DNSProvider \<Rightarrow> Publication \<Rightarrow> bool" where
  "publishable p pub \<longleftrightarrow>
     0 \<le> DeletionDelay pub \<and> DeletionDelay pub \<le> max_duration \<and>
     list_all (\<lambda>r. 1 \<le> rTTL r \<and> rTTL r \<le> 2147483647 \<and> record_in_zone p r) (Records pub)"

lemma admitted_in_zones:
  assumes "DNSProvider_ok p" "in_zones p hostname"
  shows "list_ex (\<lambda>z. in_zone (host_key hostname) (zoneName z)) (Zones (dpSpec p))"
proof -
  let ?zs = "map zoneName (Zones (dpSpec p))"
  obtain z where z: "z \<in> set (Zones (dpSpec p))" "in_zone (host_key hostname) (zone_key (zoneName z))"
    using assms(2) zone_fold [of "host_key hostname" "''''" ?zs] by (auto simp: in_zones_def matchingZone_fold Let_def)
  have "DNSZone_ok z" using assms(1) z(1) by (simp add: DNSProvider_ok_def DNSProviderSpec_ok_def list_all_iff)
  with admitted_zone z show ?thesis by (auto simp: list_ex_iff)
qed

lemma publication_ttl_bounds:
  assumes "DNSProvider_ok p" "wf_ttl override"
  shows "1 \<le> publication_ttl p override \<and> publication_ttl p override \<le> 2147483647"
  using assms by (auto simp: publication_ttl_def DNSProvider_ok_def DNSProviderSpec_ok_def RecordDefaults_ok_def wf_ttl_def Let_def split: option.splits)

lemma publication_delay_bounds:
  assumes "DNSProvider_ok p" "wf_delay override"
  shows "0 \<le> publication_delay p override \<and> publication_delay p override \<le> max_duration"
  using assms by (auto simp: publication_delay_def DNSProvider_ok_def DNSProviderSpec_ok_def RecordDefaults_ok_def wf_delay_def
      max_duration_def Let_def split: option.splits)

lemma published_publishable:
  assumes "DNSProvider_ok p" "wf_ttl (poTTL options)" "wf_delay (poDeletionDelay options)" "published R projection options p pub"
  shows "publishable p pub"
proof -
  have "1 \<le> rTTL r \<and> rTTL r \<le> 2147483647 \<and> record_in_zone p r" if "r \<in> set (Records pub)" for r
  proof -
    have "r \<in> publication_records R projection options p" using assms(4) that by (simp add: published_def)
    then have "in_zones p (rDNSName r) \<and> rTTL r = publication_ttl p (poTTL options)"
      by (auto simp: publication_records_def Let_def host_record_def)
    then show ?thesis
      using publication_ttl_bounds [OF assms(1,2)] admitted_in_zones [OF assms(1)] by (simp add: record_in_zone_def host_record_def)
  qed
  then show ?thesis
    using publication_delay_bounds [OF assms(1,3)] assms(4) by (simp add: publishable_def list_all_iff published_def)
qed

text \<open>C34: what the validation of a DNSProvider buys.  For providers that the API server admits and overrides that
  \<^verbatim>\<open>ParseAnnotations\<close> accepts, every publication has a deletion delay that is a non-negative Go duration, and each of its
  records a TTL between 1 and \<open>2\<^sup>3\<^sup>1 - 1\<close> and a name whose last labels are those of one of the provider's zones exactly as it
  is written there.\<close>

theorem admitted_publications:
  assumes "list_all DNSProvider_ok providers" "wf_ttl (poTTL options)" "wf_delay (poDeletionDelay options)"
  shows "case snd (Publications R projection providers options) of
     Inl e \<Rightarrow> resolver_error e
   | Inr pubs \<Rightarrow> list_all2 publishable (sort_key dpName providers) pubs"
proof (cases "snd (Publications R projection providers options)")
  case (Inl e)
  then show ?thesis using Publications_exact [where R = R and projection = projection and providers = providers and options = options] by simp
next
  case (Inr pubs)
  then have "list_all2 (published R projection options) (sort_key dpName providers) pubs"
    using Publications_exact [where R = R and projection = projection and providers = providers and options = options] by simp
  then have "list_all2 publishable (sort_key dpName providers) pubs"
    by (rule list.rel_mono_strong) (use assms published_publishable in \<open>auto simp: list_all_iff\<close>)
  with Inr show ?thesis by simp
qed

text \<open>A provider as the API server admits it, without any defaults of its own.\<close>

definition admitted_sample :: DNSProvider where
  "admitted_sample =
     \<lparr>dpMeta = \<lparr>omKind = ''DNSProvider'', omNamespace = '''', omName = ''www'', omUID = ''u'', omLabels = fmempty, omAnnotations = fmempty\<rparr>,
      dpSpec = \<lparr>Zones = [\<lparr>zoneName = ''lab-1.example.com''\<rparr>], ipSources = \<lparr>ipv4 = Some \<lparr>NodeLabel = ''example.com/Public_IP''\<rparr>, ipv6 = None\<rparr>,
        recordDefaults = \<lparr>defaultTTL = 0, defaultDelay = None\<rparr>, providerSpecific = \<lparr>Defaults = [], AnnotationKeys = [''proxied'']\<rparr>\<rparr>\<rparr>"

lemma admitted_sample_ok: "DNSProvider_ok admitted_sample"
  unfolding DNSProvider_ok_def DNSProviderSpec_ok_def admitted_sample_def by code_simp

definition sample_object_meta :: "string \<Rightarrow> strmap \<Rightarrow> ObjectMeta" where
  "sample_object_meta name node_labels =
     \<lparr>omKind = '''', omNamespace = '''', omName = name, omUID = ''u'', omLabels = node_labels, omAnnotations = fmempty\<rparr>"

definition no_object :: "'a result" where
  "no_object = Inl (StatusErr NotFound ''not found'')"

definition one_node_reader :: reader where
  "one_node_reader =
     \<lparr>get_ingress = (\<lambda>_. no_object), get_route = (\<lambda>_ _. no_object), get_ingressclass = (\<lambda>_. no_object), get_gateway = (\<lambda>_. no_object),
      get_gatewayclass = (\<lambda>_. no_object), get_provider = (\<lambda>_. no_object), get_service = (\<lambda>key. Inr (sample_object_meta (snd key) fmempty)),
      get_node = (\<lambda>name. Inr (sample_object_meta name (fmupd ''example.com/Public_IP'' ''192.0.2.1'' fmempty))),
      list_slices = (\<lambda>_ _. Inr [\<lparr>slMeta = sample_object_meta ''s'' fmempty, slEndpoints = [\<lparr>seReady = None, seNodeName = Some ''n''\<rparr>]\<rparr>]),
      list_grants = (\<lambda>_. Inr [])\<rparr>"

definition one_host :: HostProjection where
  "one_host = \<lparr>Hostname = ''www.lab-1.example.com'', Backends = [\<lparr>bNamespace = ''apps'', bName = ''web''\<rparr>]\<rparr>"

definition no_overrides :: PublicationOptions where
  "no_overrides = \<lparr>poFamilies = [], poAnnotations = fmempty, poTTL = None, poDeletionDelay = None\<rparr>"

definition one_publication :: Publication where
  "one_publication =
     \<lparr>ProviderName = ''www'',
      Records = [\<lparr>rDNSName = ''www.lab-1.example.com'', rRecordType = ''A'', rTargets = [''192.0.2.1''], rTTL = 300, rProviderSpecific = []\<rparr>],
      MetadataAnnotations = fmempty, DeletionDelay = 60 * second_ns\<rparr>"

lemma one_publication_run: "snd (Publications one_node_reader [one_host] [admitted_sample] no_overrides) = Inr [one_publication]"
  by code_simp

lemma admitted_publications_witness: "list_all2 publishable [admitted_sample] [one_publication]"
proof -
  have "list_all DNSProvider_ok [admitted_sample]" "wf_ttl (poTTL no_overrides)" "wf_delay (poDeletionDelay no_overrides)"
    by (simp_all add: admitted_sample_ok no_overrides_def wf_ttl_def wf_delay_def)
  from admitted_publications [OF this, of one_node_reader "[one_host]"] show ?thesis
    by (simp add: one_publication_run del: list.rel_inject)
qed

end
