(* ===== verification/Source_Correct.thy ===== *)
theory Source_Correct
  imports Source_Controller Admission
begin

text \<open>
  What the source controllers guarantee.  The diagnostics, metrics, clock and recorder of a reconciliation
  do not influence it: \<open>decide\<close> is the decision that the read objects determine, and both reconcilers are
  refinements of it.  Together with the resolver's and the writer's theorems this gives the end-to-end
  property: after a successful reconciliation the DNSEndpoints of the source carry exactly the targets that
  the cluster's objects ask for, besides retired ones waiting for their deadline.
\<close>

section \<open>The decision\<close>

text \<open>The publications of a source with the given merged annotations, or the error to return.\<close>

definition terminal :: "goerr \<Rightarrow> goerr" where
  "terminal e = (if IsInvalid e then TerminalErr e else e)"

definition decide :: "name_check \<Rightarrow> reader \<Rightarrow> (string list \<Rightarrow> diagnostic list \<times> HostProjection list result) \<Rightarrow> strmap result \<Rightarrow> Publication list result" where
  "decide D R project annotations =
     (case annotations of
        Inl e \<Rightarrow> Inl (terminal e)
      | Inr values \<Rightarrow>
          (case ParseAnnotations D values of
             Inl e \<Rightarrow> Inl (terminal e)
           | Inr parsed \<Rightarrow>
               (if \<not> (Enabled parsed \<and> Providers parsed \<noteq> []) then Inr []
                else case snd (project (Hostnames parsed)) of
                  Inl e \<Rightarrow> Inl (terminal e)
                | Inr projection \<Rightarrow>
                    (case snd (loadProviders R (Providers parsed)) of
                       Inl e \<Rightarrow> Inl e
                     | Inr providers \<Rightarrow>
                         (case snd (Publications R projection providers (publicationOptions parsed)) of
                            Inl e \<Rightarrow> Inl (terminal e)
                          | Inr pubs \<Rightarrow> Inr pubs)))))"

text \<open>Carrying a decision out: nothing is written on an error.\<close>

definition enact :: "'w ctl_env \<Rightarrow> Identity \<Rightarrow> Publication list result \<Rightarrow> 'w \<Rightarrow> goerr option \<times> 'w" where
  "enact E identity decision w =
     (case decision of
        Inl e \<Rightarrow> (Some e, w)
      | Inr pubs \<Rightarrow> (let (err, w') = envApply E identity pubs w in (terminalOutputError err, w')))"

lemma terminal_simp [simp]: "terminalSourceError (Some e) = Some (terminal e)"
  by (simp add: terminal_def)

declare terminalSourceError.simps(2) [simp del]

text \<open>What is left of a run when its diagnostics and metrics are forgotten.\<close>

definition effect :: "goerr option \<times> 'w ctl \<Rightarrow> goerr option \<times> 'w" where
  "effect out = (fst out, cOut (snd out))"

lemma effect_pair [simp]: "effect (err, st) = (err, cOut st)"
  by (simp add: effect_def)

section \<open>Reporting does not touch the output\<close>

lemma cOut_diagnose [simp]: "cOut (diagnose E obj severity reason message st) = cOut st"
  by (simp add: diagnose_def split: prod.split)

lemma cOut_warning [simp]: "cOut (warning E obj reason message st) = cOut st"
  by (simp add: warning_def)

lemma cOut_diagnose_all [simp]: "cOut (diagnose_all E obj ds st) = cOut st"
  unfolding diagnose_all_def by (induction ds arbitrary: st) auto

lemma cOut_set_source_metric [simp]: "cOut (set_source_metric kind key managed st) = cOut st"
  by (simp add: set_source_metric_def)

lemma terminalOutputError_None [simp]: "terminalOutputError err = None \<longleftrightarrow> err = None" "None = terminalOutputError err \<longleftrightarrow> err = None"
  by (cases err; auto)+

lemma effect_write_output [simp]: "effect (write_output E obj identity pubs st) = enact E identity (Inr pubs) (cOut st)"
  by (auto simp: write_output_def call_output_def enact_def split: prod.split option.split)

lemma effect_publish:
  "effect (publish E obj identity project failReason parsed st) =
   enact E identity
     (case snd (project (Hostnames parsed)) of
        Inl e \<Rightarrow> Inl (terminal e)
      | Inr projection \<Rightarrow>
          (case snd (loadProviders (envR E) (Providers parsed)) of
             Inl e \<Rightarrow> Inl e
           | Inr providers \<Rightarrow>
               (case snd (Publications (envR E) projection providers (publicationOptions parsed)) of
                  Inl e \<Rightarrow> Inl (terminal e)
                | Inr pubs \<Rightarrow> Inr pubs))) (cOut st)"
  by (auto simp: publish_def Let_def enact_def [of _ _ "Inl _"] split: prod.split sum.split)

lemma effect_reconcile_parsed:
  "effect (reconcile_parsed E obj identity metricKey noProviders project failReason annotations st) =
   enact E identity (decide (envD E) (envR E) project annotations) (cOut st)"
  by (auto simp: reconcile_parsed_def decide_def Let_def effect_publish enact_def [of _ _ "Inl _"] split: sum.split)

lemma effect_in_session:
  "effect (in_session E obj body st) = effect (body (st\<lparr>cSession := Some (session_begin obj (envRecorder E))\<rparr>))"
  by (simp add: in_session_def Let_def split: prod.split)

lemma effect_observed: "effect (observed E name body st) = effect (body (st\<lparr>cTick := cTick st + 1\<rparr>))"
  by (simp add: observed_def Let_def split: prod.split)

lemma effect_reconcile_deleted:
  "effect (reconcile_deleted E apiVersion kind key st) =
   enact E \<lparr>iAPIVersion = apiVersion, iKind = kind, iNamespace = fst key, iName = snd key, iUID = ''''\<rparr> (Inr []) (cOut st)"
  by (auto simp: reconcile_deleted_def call_output_def enact_def Let_def split: prod.split)

section \<open>Annotations of a source\<close>

definition missing_error :: "string \<Rightarrow> goerr \<Rightarrow> goerr" where
  "missing_error what e = (let wrapped = WrapErr what e in if IsNotFound e then mark_invalid wrapped else wrapped)"

definition ingress_values :: "reader \<Rightarrow> Ingress \<Rightarrow> strmap result" where
  "ingress_values R ingress =
     (let className = class_name ingress; own = omAnnotations (ingMeta ingress) in
      if className = '''' then Inr (MergeAnnotations [own])
      else case get_ingressclass R className of
             Inl e \<Rightarrow> Inl (missing_error (Sprintf ''get IngressClass %s: '' [FStr className]) e)
           | Inr class \<Rightarrow> Inr (MergeAnnotations [omAnnotations class, own]))"

definition parent_chain :: "reader \<Rightarrow> client_object \<Rightarrow> ParentReference \<Rightarrow> strmap result" where
  "parent_chain R route ref =
     (let key = parent_key (GetNamespace route) ref in
      case get_gateway R key of
        Inl e \<Rightarrow> Inl (missing_error (Sprintf ''get %s %s: '' [FStr ''Gateway'', FStr (fst key @ ''/'' @ snd key)]) e)
      | Inr gateway \<Rightarrow>
          (case get_gatewayclass R (GatewayClassName gateway) of
             Inl e \<Rightarrow> Inl (missing_error (Sprintf ''get %s %s: '' [FStr ''GatewayClass'', FStr (GatewayClassName gateway)]) e)
           | Inr class \<Rightarrow> Inr (MergeAnnotations [omAnnotations class, omAnnotations (gwMeta gateway), GetAnnotations route])))"

definition route_parents :: "client_object \<Rightarrow> ParentReference list" where
  "route_parents route = filter gateway_parent (RouteParents route)"

definition route_values :: "reader \<Rightarrow> client_object \<Rightarrow> strmap result" where
  "route_values R route =
     (case traverse (parent_chain R route) (route_parents route) of
        Inl e \<Rightarrow> Inl e
      | Inr [] \<Rightarrow> Inr (MergeAnnotations [GetAnnotations route])
      | Inr (chain # chs) \<Rightarrow> if list_all (\<lambda>c. c = chain) chs then Inr chain else Inl ambiguous_error)"

lemma ingressAnnotations_values:
  "fst (ingressAnnotations E ingress st) = ingress_values (envR E) ingress \<and> cOut (snd (ingressAnnotations E ingress st)) = cOut st"
  by (simp add: ingressAnnotations_def ingress_values_def missing_error_def Let_def split: sum.split)

lemma parent_chains_traverse:
  "fst (parent_chains E route refs chs st) =
     (case traverse (parent_chain (envR E) route) (filter gateway_parent refs) of Inl e \<Rightarrow> Inl e | Inr new \<Rightarrow> Inr (chs @ new)) \<and>
   cOut (snd (parent_chains E route refs chs st)) = cOut st"
proof (induction refs arbitrary: chs)
  case (Cons ref refs)
  show ?case
    using Cons by (simp add: parent_chain_def parent_failure_def missing_error_def Let_def split: sum.split)
qed simp

lemma routeAnnotations_values:
  "fst (routeAnnotations E route st) = route_values (envR E) route \<and> cOut (snd (routeAnnotations E route st)) = cOut st"
proof -
  obtain r st1 where run: "parent_chains E route (RouteParents route) [] st = (r, st1)" by fastforce
  have "list_ex (\<lambda>c. c \<noteq> chain) chs \<longleftrightarrow> \<not> list_all (\<lambda>c. c = chain) chs" for chain :: strmap and chs
    by (simp add: list_ex_iff list_all_iff)
  then show ?thesis
    using parent_chains_traverse [of E route "RouteParents route" "[]" st]
    by (auto simp: run routeAnnotations_def route_values_def route_parents_def split: sum.splits list.splits)
qed

section \<open>The reconcilers refine the decision\<close>

definition ingress_decision :: "name_check \<Rightarrow> reader \<Rightarrow> Ingress \<Rightarrow> Publication list result" where
  "ingress_decision D R ingress = decide D R (IngressProjection D ingress) (ingress_values R ingress)"

definition route_decision :: "name_check \<Rightarrow> reader \<Rightarrow> client_object \<Rightarrow> Publication list result" where
  "route_decision D R route = decide D R (RouteProjection D R route) (route_values R route)"

definition deleted_identity :: "string \<Rightarrow> SourceKind \<Rightarrow> object_key \<Rightarrow> Identity" where
  "deleted_identity apiVersion kind key =
     \<lparr>iAPIVersion = apiVersion, iKind = kind, iNamespace = fst key, iName = snd key, iUID = ''''\<rparr>"

lemma effect_ingress:
  "effect (ingress_Reconcile E key st) =
     (case get_ingress (envR E) key of
        Inl e \<Rightarrow> if IsNotFound e then enact E (deleted_identity networking_v1 SourceKindIngress key) (Inr []) (cOut st) else (Some e, cOut st)
      | Inr ingress \<Rightarrow> enact E (ingress_identity ingress) (ingress_decision (envD E) (envR E) ingress) (cOut st))"
proof -
  have "effect (let (annotations, st1) = ingressAnnotations E ingress s in
      reconcile_parsed E (KIngress ingress) (ingress_identity ingress) mk np (IngressProjection (envD E) ingress) fr annotations st1) =
    enact E (ingress_identity ingress) (ingress_decision (envD E) (envR E) ingress) (cOut s)" for ingress s mk np fr
    using ingressAnnotations_values [of E ingress s]
    by (auto simp: effect_reconcile_parsed ingress_decision_def split: prod.split)
  then show ?thesis
    by (simp add: ingress_Reconcile_def effect_observed ingress_body_def effect_reconcile_deleted effect_in_session
        deleted_identity_def split: sum.split)
qed

lemma effect_route:
  "effect (route_Reconcile E Kind key st) =
     (let kind = routeKind Kind in
      if RouteObject kind = None then (Some (ErrMsg (Sprintf ''unsupported Gateway route kind %q'' [FStr kind])), cOut st)
      else case get_route (envR E) kind key of
        Inl e \<Rightarrow> if IsNotFound e then enact E (deleted_identity gateway_v1 kind key) (Inr []) (cOut st) else (Some e, cOut st)
      | Inr route \<Rightarrow>
          (if RouteKind route \<noteq> kind
           then (Some (ErrMsg (Sprintf ''route controller for %s read unexpected object kind %s'' [FStr kind, FStr (RouteKind route)])), cOut st)
           else enact E (route_identity kind route) (route_decision (envD E) (envR E) route) (cOut st)))"
proof -
  have "effect (let (annotations, st1) = routeAnnotations E route s in
      reconcile_parsed E route identity mk np (RouteProjection (envD E) (envR E) route) fr annotations st1) =
    enact E identity (route_decision (envD E) (envR E) route) (cOut s)" for route identity s mk np fr
    using routeAnnotations_values [of E route s]
    by (auto simp: effect_reconcile_parsed route_decision_def split: prod.split)
  then show ?thesis
    by (simp add: route_Reconcile_def Let_def effect_observed route_body_def effect_reconcile_deleted effect_in_session
        deleted_identity_def split: sum.split)
qed

section \<open>What the cluster's objects ask for\<close>

definition provider_targets :: "reader \<Rightarrow> HostProjection list \<Rightarrow> PublicationOptions \<Rightarrow> DNSProvider \<Rightarrow> targetKey set" where
  "provider_targets R projection options provider =
     (let families = publication_families provider (poFamilies options)
      in \<Union>host \<in> {host \<in> set projection. in_zones provider (Hostname host)}.
         \<Union>f \<in> set families. (\<lambda>a. (Hostname host, record_type f, a)) ` host_addresses R provider families host f)"

definition wanted_targets ::
  "name_check \<Rightarrow> reader \<Rightarrow> (string list \<Rightarrow> diagnostic list \<times> HostProjection list result) \<Rightarrow> strmap result \<Rightarrow> string \<Rightarrow> targetKey set" where
  "wanted_targets D R project annotations name =
     (case and_then annotations (ParseAnnotations D) of
        Inl _ \<Rightarrow> {}
      | Inr parsed \<Rightarrow>
          (if \<not> Enabled parsed \<or> name \<notin> set (Providers parsed) then {}
           else case (get_provider R name, snd (project (Hostnames parsed))) of
             (Inr provider, Inr projection) \<Rightarrow> provider_targets R projection (publicationOptions parsed) provider
           | _ \<Rightarrow> {}))"

definition selected_providers :: "name_check \<Rightarrow> strmap result \<Rightarrow> string set" where
  "selected_providers D annotations =
     (case and_then annotations (ParseAnnotations D) of
        Inl _ \<Rightarrow> {} | Inr parsed \<Rightarrow> if Enabled parsed then set (Providers parsed) else {})"

text \<open>The API server's answers: an object under the name asked for, which passed the validation of the API.\<close>

definition reader_doc :: "reader \<Rightarrow> bool" where
  "reader_doc R \<longleftrightarrow>
     (\<forall>name provider. get_provider R name = Inr provider \<longrightarrow>
        dpName provider = name \<and> DNSProvider_ok provider)"

lemma wf_hostname_clean:
  assumes "dns1123_doc D" "wf_hostname D h"
  shows "ToLower (TrimSuffix h ''.'') = h" "nul_free h" "h \<noteq> ''''"
proof -
  note chars = wf_hostname_chars [OF assms]
  have "\<not> suffix ''.'' h" using chars(2,3) by (auto simp: suffix_def)
  moreover have "ToLower h = h" using chars(1) dns_char_props by (intro ToLower_id) blast
  ultimately show "ToLower (TrimSuffix h ''.'') = h" by simp
  show "nul_free h" using chars(1) dns_char_props(3) by (fastforce simp: nul_free_def is_graphic_def)
  show "h \<noteq> ''''" by (rule chars(2))
qed

lemma finite_label_address: "finite (label_address provider ls f)" "a \<in> label_address provider ls f \<Longrightarrow> a \<noteq> ''''"
proof -
  show "finite (label_address provider ls f)" by (simp add: label_address_def Let_def split: sum.split)
  assume "a \<in> label_address provider ls f"
  then show "a \<noteq> ''''" using parseNodeAddress_nonempty by (force simp: label_address_def Let_def split: sum.splits if_splits)
qed

lemma finite_serving_nodes: "finite (serving_nodes R b)"
proof (cases "list_slices R (bNamespace b) (bName b)")
  case (Inr slices)
  let ?es = "concat (map slEndpoints slices)"
  have "serving_nodes R b \<subseteq> (\<lambda>e. the (seNodeName e)) ` set ?es"
    unfolding serving_nodes_Inr [OF Inr] by (force simp: serves_def)
  then show ?thesis by (rule finite_subset) simp
qed (simp add: serving_nodes_def)

lemma host_addresses_props:
  "finite (host_addresses R provider families host f)" "a \<in> host_addresses R provider families host f \<Longrightarrow> a \<noteq> ''''"
proof -
  show "finite (host_addresses R provider families host f)"
    by (simp add: host_addresses_def backend_addresses_def node_address_def finite_serving_nodes finite_label_address split: sum.split)
  assume "a \<in> host_addresses R provider families host f"
  then obtain n where "a \<in> node_address R provider f n" by (auto simp: host_addresses_def backend_addresses_def split: if_splits)
  then obtain ls where "a \<in> label_address provider ls f" by (cases "get_node R n") (simp_all add: node_address_def)
  then show "a \<noteq> ''''" by (rule finite_label_address)
qed

lemma published_props:
  assumes doc: "dns1123_doc D" and projection: "wf_projection D projection" and pub: "published R projection options provider pub"
    and delay: "wf_delay (poDeletionDelay options)" "wf_delay (defaultDelay (recordDefaults (dpSpec provider)))"
  shows "full_publication pub" "desired_targets (Records pub) = provider_targets R projection options provider"
proof -
  let ?fs = "publication_families provider (poFamilies options)"
  let ?A = "host_addresses R provider ?fs"
  have host: "ToLower (TrimSuffix (Hostname h) ''.'') = Hostname h" "nul_free (Hostname h)" "Hostname h \<noteq> ''''"
    if "h \<in> set projection" for h
    using projection that wf_hostname_clean [OF doc, of "Hostname h"] by (auto simp: wf_projection_def)
  have rec: "record_dns_name (host_record (Hostname h) (?A h) ttl ps f) = Hostname h"
    "record_targets (host_record (Hostname h) (?A h) ttl ps f) = (\<lambda>a. (Hostname h, record_type f, a)) ` ?A h f"
    "rTargets (host_record (Hostname h) (?A h) ttl ps f) = sorted_list_of_set (?A h f)"
    if "h \<in> set projection" for h ttl ps f
    using host(1) [OF that] by (simp_all add: record_dns_name_def record_targets_def host_record_def host_addresses_props)
  have rs: "set (Records pub) = publication_records R projection options provider" using pub by (simp add: published_def)
  show targets: "desired_targets (Records pub) = provider_targets R projection options provider"
    unfolding desired_targets_def rs publication_records_def provider_targets_def Let_def by (auto simp: rec)
  have "wf_key k" if k: "k \<in> desired_targets (Records pub)" for k
  proof -
    obtain h f a where "h \<in> set projection" "a \<in> ?A h f" "k = (Hostname h, record_type f, a)"
      using k unfolding targets provider_targets_def Let_def by auto
    then show ?thesis using host host_addresses_props(2)
      by (auto simp: wf_key_def record_type_def RecordTypeA_def RecordTypeAAAA_def)
  qed
  moreover have "nul_free (record_dns_name r) \<and> rTargets r \<noteq> []" if r: "r \<in> set (Records pub)" for r
  proof -
    obtain h f ttl ps where "h \<in> set projection" "?A h f \<noteq> {}" "r = host_record (Hostname h) (?A h) ttl ps f"
      using r unfolding rs publication_records_def Let_def by blast
    then show ?thesis using rec host(2) host_addresses_props(1) by simp
  qed
  moreover have "wf_delay (Some (DeletionDelay pub))"
    using pub delay by (auto simp: published_def publication_delay_def Let_def wf_delay_def max_duration_def split: option.splits)
  ultimately show "full_publication pub" by (simp add: full_publication_def valid_publication_def wf_delay_def)
qed

section \<open>From the decision to the targets\<close>

definition found_provider :: "reader \<Rightarrow> string \<Rightarrow> DNSProvider option" where
  "found_provider R n = (case get_provider R n of Inl _ \<Rightarrow> None | Inr p \<Rightarrow> Some p)"

lemma found_provider_Some [simp]: "found_provider R n = Some p \<longleftrightarrow> get_provider R n = Inr p"
  by (auto simp: found_provider_def split: sum.split)

lemma load_loop_props:
  "snd (load_loop R names (ds, ps)) = Inr ps' \<Longrightarrow> ps' = ps @ List.map_filter (found_provider R) names"
proof (induction names arbitrary: ds ps)
  case (Cons name names)
  then show ?case
    by (cases "get_provider R name")
      (fastforce simp: map_filter_simps found_provider_def [of R name] split: if_splits dest: Cons.IH)+
qed (simp add: map_filter_simps)

lemma loadProviders_props:
  assumes "reader_doc R" "distinct names" "snd (loadProviders R names) = Inr ps"
  shows "set ps = {p. \<exists>n \<in> set names. get_provider R n = Inr p}" "distinct (map dpName ps)" "sorted (map dpName ps)"
proof -
  obtain qs where qs: "snd (load_loop R names ([], [])) = Inr qs" "ps = sort_key dpName qs"
    using assms(3) by (auto simp: loadProviders_def split: prod.splits sum.splits)
  have f: "qs = List.map_filter (found_provider R) names" using load_loop_props [OF qs(1)] by simp
  show "set ps = {p. \<exists>n \<in> set names. get_provider R n = Inr p}" unfolding qs(2) f by (simp add: set_map_filter)
  have "distinct (map dpName (List.map_filter (found_provider R) names)) \<and>
      dpName ` set (List.map_filter (found_provider R) names) \<subseteq> set names"
    using assms(2)
  proof (induction names)
    case (Cons n names)
    have "dpName p = n" if "get_provider R n = Inr p" for p using assms(1) that by (simp add: reader_doc_def)
    with Cons show ?case by (auto simp: map_filter_simps split: option.split)
  qed (simp add: map_filter_simps)
  then have "distinct (map dpName qs)" using f by simp
  then have "distinct (map dpName (sort_key dpName qs))" by (simp add: distinct_map)
  then show "distinct (map dpName ps)" by (simp add: qs(2))
  show "sorted (map dpName ps)" by (simp add: qs(2))
qed

text \<open>The publications a controller hands to its output: valid, one per provider, and asking for exactly
  the wanted targets.\<close>

definition faithful :: "name_check \<Rightarrow> reader \<Rightarrow> (string list \<Rightarrow> diagnostic list \<times> HostProjection list result) \<Rightarrow> strmap result \<Rightarrow> Publication list \<Rightarrow> bool" where
  "faithful D R project annotations pubs \<longleftrightarrow>
     (\<forall>pub \<in> set pubs. full_publication pub) \<and> distinct (map ProviderName pubs) \<and>
     ProviderName ` set pubs = {n \<in> selected_providers D annotations. \<not> (\<exists>e. get_provider R n = Inl e)} \<and>
     (\<forall>name. published_targets pubs name = wanted_targets D R project annotations name)"

lemma and_then_simps [simp]: "and_then (Inr x) f = f x" "and_then (Inl e) f = Inl e"
  by (simp_all add: and_then_def)

lemma list_all2_member: "list_all2 P xs ys \<Longrightarrow> y \<in> set ys \<Longrightarrow> \<exists>x \<in> set xs. P x y"
  by (induction rule: list_all2_induct) auto

text \<open>Publishing for the providers that could be read.\<close>

lemma publications_faithful:
  assumes doc: "dns1123_doc D" "reader_doc R" and projection: "wf_projection D projection" and delay: "wf_delay (poDeletionDelay options)"
    and names: "distinct names" "snd (loadProviders R names) = Inr ps" and pubs: "snd (Publications R projection ps options) = Inr pubs"
  shows "\<forall>pub \<in> set pubs. full_publication pub" "distinct (map ProviderName pubs)"
    "ProviderName ` set pubs = {n \<in> set names. \<not> (\<exists>e. get_provider R n = Inl e)}"
    "published_targets pubs name =
       (case get_provider R name of
          Inl _ \<Rightarrow> {} | Inr p \<Rightarrow> if name \<in> set names then provider_targets R projection options p else {})"
proof -
  note loaded = loadProviders_props [OF doc(2) names]
  have "sort_key dpName ps = ps" using loaded(3) by (rule sort_key_id_if_sorted)
  with Publications_exact [where R = R and projection = projection and providers = ps and options = options] pubs
  have all2: "list_all2 (published R projection options) ps pubs" by simp
  have same: "map ProviderName pubs = map dpName ps"
    using all2 by (induction rule: list_all2_induct) (simp_all add: published_def)
  then show "distinct (map ProviderName pubs)" using loaded(2) by simp
  have name: "dpName p = n" if "get_provider R n = Inr p" for n p using that doc(2) by (simp add: reader_doc_def)
  have loaded_iff: "p \<in> set ps \<longleftrightarrow> dpName p \<in> set names \<and> get_provider R (dpName p) = Inr p" for p
    using loaded(1) name by auto
  have pub: "full_publication pub \<and> (\<exists>p. get_provider R (ProviderName pub) = Inr p \<and> ProviderName pub \<in> set names \<and>
      desired_targets (Records pub) = provider_targets R projection options p)" if "pub \<in> set pubs" for pub
  proof -
    obtain p where p: "p \<in> set ps" "published R projection options p pub" using list_all2_member [OF all2 \<open>pub \<in> set pubs\<close>] by blast
    then have "wf_delay (defaultDelay (recordDefaults (dpSpec p)))" using doc(2) loaded_iff admitted_delay by (auto simp: reader_doc_def)
    from published_props [OF doc(1) projection p(2) delay this] p loaded_iff show ?thesis by (auto simp: published_def)
  qed
  then show "\<forall>pub \<in> set pubs. full_publication pub" by blast
  have "ProviderName ` set pubs = dpName ` set ps" using same by (metis list.set_map)
  also have "\<dots> = {n \<in> set names. \<exists>p. get_provider R n = Inr p}" unfolding loaded(1) using name by force
  also have "\<dots> = {n \<in> set names. \<not> (\<exists>e. get_provider R n = Inl e)}"
    by (rule Collect_cong) (metis Inl_Inr_False sum.exhaust)
  finally show nameset: "ProviderName ` set pubs = {n \<in> set names. \<not> (\<exists>e. get_provider R n = Inl e)}" .
  have none: "published_targets pubs name = {}" if "name \<notin> ProviderName ` set pubs"
    using that by (auto simp: published_targets_def)
  show "published_targets pubs name =
      (case get_provider R name of
         Inl _ \<Rightarrow> {} | Inr p \<Rightarrow> if name \<in> set names then provider_targets R projection options p else {})"
  proof (cases "name \<in> ProviderName ` set pubs")
    case True
    then obtain p where p: "get_provider R name = Inr p" "name \<in> set names" using pub by blast
    with pub have "desired_targets (Records q) = provider_targets R projection options p" if "q \<in> set pubs" "ProviderName q = name" for q
      using that by fastforce
    with True have "published_targets pubs name = provider_targets R projection options p"
      unfolding published_targets_def by auto
    with p show ?thesis by simp
  next
    case False
    then show ?thesis using none nameset by (auto split: sum.split)
  qed
qed

context projector
begin

lemma decide_faithful:
  assumes doc: "dns1123_doc D" "reader_doc R" and decision: "decide D R project annotations = Inr pubs"
  shows "faithful D R project annotations pubs"
proof -
  obtain vals parsed where vals: "annotations = Inr vals" "ParseAnnotations D vals = Inr parsed"
    using decision by (auto simp: decide_def split: sum.splits)
  note wf = ParseAnnotations_wf [OF vals(2), unfolded wf_parsed_def]
  show ?thesis
  proof (cases "Enabled parsed \<and> Providers parsed \<noteq> []")
    case False
    then have "pubs = []" using decision vals by (auto simp: decide_def)
    with False show ?thesis
      by (auto simp: faithful_def vals selected_providers_def wanted_targets_def published_targets_def)
  next
    case True
    then obtain projection ps where projection: "snd (project (Hostnames parsed)) = Inr projection"
      and ps: "snd (loadProviders R (Providers parsed)) = Inr ps"
      and pubs: "snd (Publications R projection ps (publicationOptions parsed)) = Inr pubs"
      using decision vals by (auto simp: decide_def split: sum.splits)
    have wfp: "wf_projection D projection"
      using project_wf [of "Hostnames parsed" "fst (project (Hostnames parsed))" projection] wf projection
      by (metis prod.collapse)
    have "wf_delay (poDeletionDelay (publicationOptions parsed))" "distinct (Providers parsed)"
      using wf by (simp_all add: publicationOptions_def wf_providers_def)
    note exact = publications_faithful [OF doc wfp this ps pubs]
    have "published_targets pubs name = wanted_targets D R project annotations name" for name
      unfolding exact(4) using True projection vals by (simp add: wanted_targets_def split: sum.split)
    with exact(1-3) True show ?thesis by (simp add: faithful_def selected_providers_def vals)
  qed
qed

end

section \<open>Every source alike\<close>

text \<open>A request of the work queue, and the source it denotes: its identity, merged annotations and
  projection.  A deleted source is one without annotations.\<close>

datatype source_ref = IngressRef object_key | RouteRef SourceKind object_key

record source =
  srcIdentity :: Identity
  srcValues :: "strmap result"
  srcProject :: "string list \<Rightarrow> diagnostic list \<times> HostProjection list result"

definition Reconcile :: "'w ctl_env \<Rightarrow> source_ref \<Rightarrow> 'w ctl \<Rightarrow> goerr option \<times> 'w ctl" where
  "Reconcile E ref = (case ref of IngressRef key \<Rightarrow> ingress_Reconcile E key | RouteRef kind key \<Rightarrow> route_Reconcile E kind key)"

definition deleted_source :: "string \<Rightarrow> SourceKind \<Rightarrow> object_key \<Rightarrow> source" where
  "deleted_source apiVersion kind key =
     \<lparr>srcIdentity = deleted_identity apiVersion kind key, srcValues = Inr fmempty, srcProject = \<lambda>_. ([], Inr [])\<rparr>"

definition ingress_source :: "name_check \<Rightarrow> reader \<Rightarrow> Ingress \<Rightarrow> source" where
  "ingress_source D R ingress =
     \<lparr>srcIdentity = ingress_identity ingress, srcValues = ingress_values R ingress, srcProject = IngressProjection D ingress\<rparr>"

definition route_source :: "name_check \<Rightarrow> reader \<Rightarrow> SourceKind \<Rightarrow> client_object \<Rightarrow> source" where
  "route_source D R kind route =
     \<lparr>srcIdentity = route_identity kind route, srcValues = route_values R route, srcProject = RouteProjection D R route\<rparr>"

definition find_source :: "name_check \<Rightarrow> reader \<Rightarrow> source_ref \<Rightarrow> source result" where
  "find_source D R ref =
     (case ref of
        IngressRef key \<Rightarrow>
          (case get_ingress R key of
             Inl e \<Rightarrow> if IsNotFound e then Inr (deleted_source networking_v1 SourceKindIngress key) else Inl e
           | Inr ingress \<Rightarrow> Inr (ingress_source D R ingress))
      | RouteRef Kind key \<Rightarrow>
          (let kind = routeKind Kind in
           if RouteObject kind = None then Inl (ErrMsg (Sprintf ''unsupported Gateway route kind %q'' [FStr kind]))
           else case get_route R kind key of
             Inl e \<Rightarrow> if IsNotFound e then Inr (deleted_source gateway_v1 kind key) else Inl e
           | Inr route \<Rightarrow>
               (if RouteKind route \<noteq> kind
                then Inl (ErrMsg (Sprintf ''route controller for %s read unexpected object kind %s'' [FStr kind, FStr (RouteKind route)]))
                else Inr (route_source D R kind route))))"

definition source_decision :: "name_check \<Rightarrow> reader \<Rightarrow> source \<Rightarrow> Publication list result" where
  "source_decision D R s = decide D R (srcProject s) (srcValues s)"

lemma ParseAnnotations_empty: "ParseAnnotations D fmempty = Inr (empty_parsed fmempty)"
  by (simp add: ParseAnnotations_def parse_enabled_def parse_providers_def parse_hostnames_def parse_ttl_def parse_delay_def
      parse_families_def empty_parsed_def)

lemma decide_deleted [simp]: "source_decision D R (deleted_source apiVersion kind key) = Inr []"
  by (simp add: source_decision_def deleted_source_def decide_def ParseAnnotations_empty) (simp add: empty_parsed_def)

lemma source_simps [simp]:
  "srcIdentity (deleted_source apiVersion kind key) = deleted_identity apiVersion kind key"
  "srcIdentity (ingress_source D R ingress) = ingress_identity ingress"
  "srcIdentity (route_source D R kind route) = route_identity kind route"
  "source_decision D R (ingress_source D R ingress) = ingress_decision D R ingress"
  "source_decision D R (route_source D R kind route) = route_decision D R route"
  by (simp_all add: deleted_source_def ingress_source_def route_source_def source_decision_def ingress_decision_def route_decision_def)

lemma effect_Reconcile:
  "effect (Reconcile E ref st) =
     (case find_source (envD E) (envR E) ref of
        Inl e \<Rightarrow> (Some e, cOut st)
      | Inr s \<Rightarrow> enact E (srcIdentity s) (source_decision (envD E) (envR E) s) (cOut st))"
  by (cases ref) (auto simp: Reconcile_def effect_ingress effect_route find_source_def Let_def split: sum.split)

text \<open>Every source that can be found is projected well.\<close>

interpretation deleted: projector D "srcProject (deleted_source apiVersion kind key)" for D apiVersion kind key
  by unfold_locales (auto simp: deleted_source_def wf_projection_def)

lemma find_source_faithful:
  assumes "dns1123_doc D" "reader_doc R" "find_source D R ref = Inr s" "source_decision D R s = Inr pubs"
  shows "faithful D R (srcProject s) (srcValues s) pubs"
proof -
  consider (deleted) apiVersion kind key where "s = deleted_source apiVersion kind key"
    | (ingress) ingress where "s = ingress_source D R ingress" | (route) kind route where "s = route_source D R kind route"
    using assms(3) by (auto simp: find_source_def Let_def split: source_ref.splits sum.splits if_splits)
  then show ?thesis
  proof cases
    case deleted
    show ?thesis using assms(4) unfolding deleted source_decision_def by (rule deleted.decide_faithful [OF assms(1,2)])
  next
    case ingress
    show ?thesis using ingress.decide_faithful [OF assms(1,2)] assms(4) by (simp add: ingress ingress_source_def source_decision_def)
  next
    case route
    show ?thesis using route.decide_faithful [OF assms(1,2)] assms(4) by (simp add: route route_source_def source_decision_def)
  qed
qed

section \<open>Properties\<close>

text \<open>C3: the reconcilers do what the read objects determine and nothing else.  Whatever the state of the
  reporter, the metrics, the clock and the recorder, a run of the Ingress or of a route controller returns
  the error and leaves the output in the state that follow from the decision on the source: a source that
  cannot be read, has invalid annotations, cannot be projected, or whose providers or addresses cannot be
  resolved causes no write at all; a deleted, disabled or deselected source is published with nothing;
  deterministic failures come back as terminal errors, the others as they are.\<close>

theorem Reconcile_decides:
  "(let (err, st') = Reconcile E ref st in (err, cOut st')) =
     (case find_source (envD E) (envR E) ref of
        Inl e \<Rightarrow> (Some e, cOut st)
      | Inr s \<Rightarrow> enact E (srcIdentity s) (source_decision (envD E) (envR E) s) (cOut st))"
  using effect_Reconcile [of E ref st] by (simp add: effect_def split_def)

text \<open>C1: the DNSEndpoints converge to what the cluster's objects ask for.  When a run succeeds over the
  writer (nobody else touching the objects, no collision among the object names concerned), then for every
  provider that the source selects, and for every provider that an earlier run has left an object for, the
  object's active targets are exactly the canonical Node addresses wanted for that provider, and targets no
  longer wanted are retired with the stored delay or already gone; all other objects are untouched.\<close>

theorem Reconcile_converges:
  assumes env: "writer_env K view retry" "envApply E = Apply K retry" "dns1123_doc (envD E)" "reader_doc (envR E)"
    and found: "find_source (envD E) (envR E) ref = Inr s"
    and before: "\<forall>provider. current_ok (view (cOut st) (name_of (srcIdentity s) provider))"
    and names: "concerned = {p \<in> selected_providers (envD E) (srcValues s). \<not> (\<exists>e. get_provider (envR E) p = Inl e)} \<union>
      listed_providers K (srcIdentity s) (cOut st)" "inj_on (ObjectName (srcIdentity s)) concerned"
    and run: "Reconcile E ref st = (None, st')"
  shows "(\<forall>p \<in> concerned. settled (srcIdentity s) p (wanted_targets (envD E) (envR E) (srcProject s) (srcValues s) p)
      (view (cOut st)) (view (cOut st'))) \<and>
    (\<forall>k. k \<notin> name_of (srcIdentity s) ` concerned \<longrightarrow> view (cOut st') k = view (cOut st) k)"
proof -
  have "enact E (srcIdentity s) (source_decision (envD E) (envR E) s) (cOut st) = (None, cOut st')"
    using effect_Reconcile [of E ref st] by (simp add: found run)
  then obtain pubs where pubs: "source_decision (envD E) (envR E) s = Inr pubs"
    and out: "Apply K retry (srcIdentity s) pubs (cOut st) = (None, cOut st')"
    by (auto simp: enact_def env(2) split: sum.splits prod.splits)
  note faithful = find_source_faithful [OF env(3,4) found pubs, unfolded faithful_def]
  have concerned: "concerned = ProviderName ` set pubs \<union> listed_providers K (srcIdentity s) (cOut st)"
    unfolding names(1) using faithful by simp
  have full: "\<forall>pub \<in> set pubs. full_publication pub" and distinct: "distinct (map ProviderName pubs)" using faithful by simp_all
  note inj = names(2) [unfolded concerned]
  have "settled (srcIdentity s) p (wanted_targets (envD E) (envR E) (srcProject s) (srcValues s) p) (view (cOut st)) (view (cOut st'))"
    if "p \<in> concerned" for p
    using writer.output_settles [OF env(1) full before inj out distinct that [unfolded concerned]] faithful by simp
  with writer.output_reconciles [OF env(1) full before inj out] show ?thesis unfolding concerned by blast
qed

text \<open>A cluster with one Ingress, on which the hypotheses hold.\<close>

definition sample_meta :: "string \<Rightarrow> string \<Rightarrow> strmap \<Rightarrow> strmap \<Rightarrow> ObjectMeta" where
  "sample_meta ns name ls annotations =
     \<lparr>omKind = '''', omNamespace = ns, omName = name, omUID = ''uid-1'', omLabels = ls, omAnnotations = annotations\<rparr>"

definition sample_ingress :: Ingress where
  "sample_ingress =
     \<lparr>ingMeta = sample_meta ''apps'' ''web'' fmempty
        (fmap_of_list [(''labdns.shednet.dev/enabled'', ''true''), (''labdns.shednet.dev/providers'', ''lan'')]),
      DefaultBackend = None,
      ingRules = [\<lparr>ruleHost = ''App.example.com'', ruleHTTP = Some [\<lparr>beService = Some ''web'', beResource = None\<rparr>]\<rparr>],
      ingTLS = [], IngressClassName = None\<rparr>"

definition sample_provider :: DNSProvider where
  "sample_provider =
     \<lparr>dpMeta = sample_meta '''' ''lan'' fmempty fmempty,
      dpSpec = \<lparr>Zones = [\<lparr>zoneName = ''example.com''\<rparr>], ipSources = \<lparr>ipv4 = Some \<lparr>NodeLabel = ''lan-ip''\<rparr>, ipv6 = None\<rparr>,
        recordDefaults = \<lparr>defaultTTL = 300, defaultDelay = None\<rparr>, providerSpecific = \<lparr>Defaults = [], AnnotationKeys = []\<rparr>\<rparr>\<rparr>"

definition absent :: "'a result" where
  "absent = Inl (StatusErr NotFound ''not found'')"

definition sample_slice :: EndpointSlice where
  "sample_slice =
     \<lparr>slMeta = sample_meta ''apps'' ''web-1'' (fmap_of_list [(''kubernetes.io/service-name'', ''web'')]) fmempty,
      slEndpoints = [\<lparr>seReady = Some True, seNodeName = Some ''n1''\<rparr>]\<rparr>"

definition sample_reader :: reader where
  "sample_reader =
     \<lparr>get_ingress = (\<lambda>key. if key = (''apps'', ''web'') then Inr sample_ingress else absent),
      get_route = (\<lambda>_ _. absent), get_ingressclass = (\<lambda>_. absent), get_gateway = (\<lambda>_. absent), get_gatewayclass = (\<lambda>_. absent),
      get_provider = (\<lambda>name. if name = ''lan'' then Inr sample_provider else absent),
      get_service = (\<lambda>key. if key = (''apps'', ''web'') then Inr (sample_meta ''apps'' ''web'' fmempty fmempty) else absent),
      get_node = (\<lambda>name. if name = ''n1'' then Inr (sample_meta '''' ''n1'' (fmap_of_list [(''lan-ip'', ''192.0.2.1'')]) fmempty) else absent),
      list_slices = (\<lambda>ns name. Inr (if (ns, name) = (''apps'', ''web'') then [sample_slice] else [])),
      list_grants = (\<lambda>_. Inr [])\<rparr>"

definition sample_env :: "DNSEndpoint list ctl_env" where
  "sample_env = \<lparr>envD = dns1123_ref, envR = sample_reader, envApply = Apply store_kube one_try, envClock = (\<lambda>_. 0), envRecorder = False\<rparr>"

definition sample_ctl :: "DNSEndpoint list ctl" where
  "sample_ctl = \<lparr>cOut = [], cMetrics = None, cSession = None, cEmitter = newDiagnosticEmitter, cSinks = [], cTick = 0\<rparr>"

lemma sample_provider_ok: "dpName sample_provider = ''lan'' \<and> DNSProvider_ok sample_provider"
  by code_simp

lemma sample_reader_doc: "reader_doc sample_reader"
  using sample_provider_ok by (simp add: reader_doc_def sample_reader_def absent_def)

lemma sample_found: "find_source dns1123_ref sample_reader (IngressRef (''apps'', ''web'')) =
    Inr (ingress_source dns1123_ref sample_reader sample_ingress)"
  by (simp add: find_source_def sample_reader_def)

lemma sample_decision:
  "case source_decision dns1123_ref sample_reader (ingress_source dns1123_ref sample_reader sample_ingress) of
     Inl _ \<Rightarrow> False
   | Inr pubs \<Rightarrow> map (\<lambda>p. (ProviderName p, map (\<lambda>r. (rDNSName r, rRecordType r, rTargets r)) (Records p))) pubs =
       [(''lan'', [(''app.example.com'', ''A'', [''192.0.2.1''])])]"
  by code_simp

lemma sample_identity_ingress: "ingress_identity sample_ingress = sample_identity"
  by (simp add: ingress_identity_def sample_ingress_def sample_identity_def sample_meta_def networking_v1_def)

lemma apply_fresh:
  assumes "full_publication pub" "Records pub \<noteq> []" "ProviderName pub \<noteq> ''''"
  shows "\<exists>obj. Apply store_kube one_try identity [pub] [] = (None, [obj])"
proof -
  have "valid_publication pub" using assms(1) by (simp add: full_publication_def)
  then obtain obj where "build sample_now identity (ProviderName pub) pub None = Inr (Some obj)"
    using build_created [OF sample_valid_time _ full_publication_desired [OF assms(1,2)]] by blast
  then show ?thesis
    using assms \<open>valid_publication pub\<close> by (simp add: valid_publication_def Apply_def all_providers_def applyOne_def one_try_def apply_attempt_def store_kube_def store_view_def IsNotFound_def)
qed

theorem Reconcile_converges_witness:
  "\<exists>st'. Reconcile sample_env (IngressRef (''apps'', ''web'')) sample_ctl = (None, st') \<and>
     settled sample_identity ''lan'' {(''app.example.com'', ''A'', ''192.0.2.1'')} (store_view []) (store_view (cOut st'))"
proof -
  let ?s = "ingress_source dns1123_ref sample_reader sample_ingress"
  have E: "envD sample_env = dns1123_ref" "envR sample_env = sample_reader" "envApply sample_env = Apply store_kube one_try"
    "cOut sample_ctl = []" by (simp_all add: sample_env_def sample_ctl_def)
  obtain pub where pub: "source_decision dns1123_ref sample_reader ?s = Inr [pub]" "ProviderName pub = ''lan''"
    "map (\<lambda>r. (rDNSName r, rRecordType r, rTargets r)) (Records pub) = [(''app.example.com'', ''A'', [''192.0.2.1''])]"
    using sample_decision by (auto split: sum.splits)
  note faithful = find_source_faithful [OF dns1123_ref_doc sample_reader_doc sample_found pub(1), unfolded faithful_def]
  have full: "full_publication pub" "Records pub \<noteq> []" using faithful pub(3) by auto
  obtain obj where out: "Apply store_kube one_try sample_identity [pub] [] = (None, [obj])" using apply_fresh [OF full] pub(2) by auto
  obtain err st' where run: "Reconcile sample_env (IngressRef (''apps'', ''web'')) sample_ctl = (err, st')" by fastforce
  have "err = None"
    using effect_Reconcile [of sample_env "IngressRef (''apps'', ''web'')" sample_ctl]
    by (simp add: run E sample_found pub(1) sample_identity_ingress enact_def out del: source_simps(4))
  note run = run [unfolded this]
  have "{p \<in> selected_providers dns1123_ref (srcValues ?s). \<not> (\<exists>e. get_provider sample_reader p = Inl e)} = {''lan''}"
    using faithful pub(2) by simp
  moreover have "listed_providers store_kube sample_identity [] = {}" by (simp add: listed_providers_def store_kube_def)
  ultimately have concerned: "{''lan''} = {p \<in> selected_providers (envD sample_env) (srcValues ?s). \<not> (\<exists>e. get_provider (envR sample_env) p = Inl e)} \<union>
      listed_providers store_kube (srcIdentity ?s) (cOut sample_ctl)" by (simp add: E sample_identity_ingress)
  have "wanted_targets dns1123_ref sample_reader (srcProject ?s) (srcValues ?s) ''lan'' = published_targets [pub] ''lan''"
    using faithful by simp
  also have "\<dots> = {(''app.example.com'', ''A'', ''192.0.2.1'')}"
    using pub(2,3) by (auto simp: published_targets_def desired_targets_def record_targets_def record_dns_name_def) code_simp+
  finally have wanted: "wanted_targets dns1123_ref sample_reader (srcProject ?s) (srcValues ?s) ''lan'' = {(''app.example.com'', ''A'', ''192.0.2.1'')}" .
  have "\<forall>provider. current_ok (view_empty provider)" if "view_empty = (\<lambda>provider. store_view [] (name_of sample_identity provider))" for view_empty
    by (simp add: that store_view_def)
  then have "settled sample_identity ''lan'' {(''app.example.com'', ''A'', ''192.0.2.1'')} (store_view []) (store_view (cOut st'))"
    using Reconcile_converges [where E = sample_env and K = store_kube and view = store_view and retry = one_try and s = ?s, OF store_writer_env
        E(3) _ _ _ _ concerned _ run] dns1123_ref_doc sample_reader_doc sample_found
    by (simp add: E sample_identity_ingress wanted)
  with run show ?thesis by blast
qed

end
