(* ===== verification/Mapper.thy ===== *)
theory Mapper
  imports Source_Correct
begin

text \<open>
  \<^verbatim>\<open>internal/controller/setup.go\<close>: the field indexes of the cache, the controllers with their watches, and
  the mapper, which turns an event on a watched object into the requests of the sources that depend on it.

  The cache is a parameter: \<open>lister\<close> is its answers to list calls, with the field and value of
  \<^verbatim>\<open>client.MatchingFields\<close> or without a selector.  The context of a mapping run is its \<^verbatim>\<open>ctx.Err()\<close>.  The log
  lines of failed reads are not modelled.  A Go map used as a set is a list without duplicates, in the order
  of insertion; the order does not reach the index.
\<close>

section \<open>Names of the indexes\<close>

definition backendServiceIndex :: string where "backendServiceIndex = ''labdns.backendService''"
definition ingressClassIndex :: string where "ingressClassIndex = ''labdns.ingressClass''"
definition gatewayParentIndex :: string where "gatewayParentIndex = ''labdns.gatewayParent''"
definition gatewayClassIndex :: string where "gatewayClassIndex = ''labdns.gatewayClass''"
definition providerTokenIndex :: string where "providerTokenIndex = ''labdns.providerToken''"
definition backendNamespaceIndex :: string where "backendNamespaceIndex = ''labdns.backendNamespace''"
definition endpointNodeIndex :: string where "endpointNodeIndex = ''labdns.endpointNode''"
definition endpointServiceIndex :: string where "endpointServiceIndex = ''labdns.endpointService''"
definition dnsEndpointSourceIndex :: string where "dnsEndpointSourceIndex = ''labdns.dnsEndpointSource''"
definition dnsEndpointProviderIndex :: string where "dnsEndpointProviderIndex = ''labdns.dnsEndpointProvider''"

lemmas index_names = backendServiceIndex_def ingressClassIndex_def gatewayParentIndex_def gatewayClassIndex_def
  providerTokenIndex_def backendNamespaceIndex_def endpointNodeIndex_def endpointServiceIndex_def
  dnsEndpointSourceIndex_def dnsEndpointProviderIndex_def

section \<open>Index functions\<close>

definition keys :: "string list \<Rightarrow> string list" where
  "keys inserted = rev (remdups (rev inserted))"

definition slash :: "string \<Rightarrow> string \<Rightarrow> string" where
  "slash namespace name = namespace @ ''/'' @ name"

definition splitTokens :: "string \<Rightarrow> string list" where
  "splitTokens value = keys (filter (\<lambda>item. item \<noteq> '''') (map TrimSpace (Split value CHR '','')))"

definition service_keys :: "string \<Rightarrow> IngressBackend list \<Rightarrow> string list" where
  "service_keys namespace backends =
     List.map_filter (\<lambda>b. case beService b of None \<Rightarrow> None | Some name \<Rightarrow> Some (slash namespace name)) backends"

definition ingressBackendKeys :: "Ingress \<Rightarrow> string list" where
  "ingressBackendKeys ingress =
     (let namespace = omNamespace (ingMeta ingress) in
      keys (service_keys namespace (case DefaultBackend ingress of None \<Rightarrow> [] | Some b \<Rightarrow> [b]) @
            concat (map (\<lambda>rule. case ruleHTTP rule of None \<Rightarrow> [] | Some paths \<Rightarrow> service_keys namespace paths) (ingRules ingress))))"

definition ingressClassKeys :: "Ingress \<Rightarrow> string list" where
  "ingressClassKeys ingress =
     (case IngressClassName ingress of
        Some name \<Rightarrow> [name]
      | None \<Rightarrow> (let name = get_str (omAnnotations (ingMeta ingress)) legacyIngressClassAnnotation in if name \<noteq> '''' then [name] else []))"

definition routeBackendKeys :: "client_object \<Rightarrow> string list" where
  "routeBackendKeys object =
     keys (map (\<lambda>ref. slash (case refNamespace ref of None \<Rightarrow> GetNamespace object | Some n \<Rightarrow> n) (refName ref))
       (filter (\<lambda>ref. \<not> (refGroup ref \<noteq> None \<and> refGroup ref \<noteq> Some '''' \<or> refKind ref \<noteq> None \<and> refKind ref \<noteq> Some ''Service''))
         (RouteBackendRefs object)))"

text \<open>\<^verbatim>\<open>strings.SplitN(key, "/", 2)[0]\<close>.\<close>

definition before_slash :: "string \<Rightarrow> string" where
  "before_slash key = takeWhile (\<lambda>c. c \<noteq> CHR ''/'') key"

definition routeBackendNamespaces :: "client_object \<Rightarrow> string list" where
  "routeBackendNamespaces object = keys (map before_slash (routeBackendKeys object))"

definition routeParents :: "client_object \<Rightarrow> string list" where
  "routeParents object =
     keys (map (\<lambda>ref. slash (case parNamespace ref of None \<Rightarrow> GetNamespace object | Some n \<Rightarrow> n) (parName ref))
       (filter (\<lambda>ref. \<not> (parGroup ref \<noteq> None \<and> parGroup ref \<noteq> Some gateway_group \<or> parKind ref \<noteq> None \<and> parKind ref \<noteq> Some ''Gateway''))
         (RouteParents object)))"

definition gatewayClass :: "Gateway \<Rightarrow> string list" where
  "gatewayClass gateway = [GatewayClassName gateway]"

definition providerTokens :: "ObjectMeta \<Rightarrow> string list" where
  "providerTokens object = splitTokens (get_str (omAnnotations object) ProvidersAnnotation)"

definition endpointNodes :: "EndpointSlice \<Rightarrow> string list" where
  "endpointNodes sl =
     keys (List.map_filter (\<lambda>e. case seNodeName e of None \<Rightarrow> None | Some n \<Rightarrow> if n \<noteq> '''' then Some n else None) (slEndpoints sl))"

definition label_values :: "string \<Rightarrow> ObjectMeta \<Rightarrow> string list" where
  "label_values label object = (let v = get_str (omLabels object) label in if v \<noteq> '''' then [v] else [])"

definition endpointService :: "EndpointSlice \<Rightarrow> string list" where
  "endpointService sl =
     (let name = get_str (omLabels (slMeta sl)) LabelServiceName
      in if name \<noteq> '''' then [slash (omNamespace (slMeta sl)) name] else [])"

definition dnsEndpointSource :: "ObjectMeta \<Rightarrow> string list" where
  "dnsEndpointSource object = label_values (AnnotationPrefix @ ''source-key'') object"

definition dnsEndpointProvider :: "ObjectMeta \<Rightarrow> string list" where
  "dnsEndpointProvider object = label_values (AnnotationPrefix @ ''provider'') object"

section \<open>Registration of the indexes\<close>

text \<open>An index function with the type of object it reads.\<close>

datatype index_fn =
    OnIngress "Ingress \<Rightarrow> string list"
  | OnMeta "ObjectMeta \<Rightarrow> string list"
  | OnSlice "EndpointSlice \<Rightarrow> string list"
  | OnRoute "client_object \<Rightarrow> string list"
  | OnGateway "Gateway \<Rightarrow> string list"

type_synonym index_entry = "(string \<times> string) \<times> index_fn"

definition route_kinds :: "SourceKind list" where
  "route_kinds = [SourceKindHTTPRoute, SourceKindTCPRoute, SourceKindUDPRoute]"

definition route_indexes :: "SourceKind \<Rightarrow> index_entry list" where
  "route_indexes kind =
     [((kind, backendServiceIndex), OnRoute routeBackendKeys), ((kind, gatewayParentIndex), OnRoute routeParents),
      ((kind, providerTokenIndex), OnRoute (\<lambda>route. providerTokens (object_meta route))),
      ((kind, backendNamespaceIndex), OnRoute routeBackendNamespaces)]"

definition index_table :: "bool \<Rightarrow> index_entry list" where
  "index_table gatewayEnabled =
     [((''Ingress'', backendServiceIndex), OnIngress ingressBackendKeys),
      ((''Ingress'', ingressClassIndex), OnIngress ingressClassKeys),
      ((''Ingress'', providerTokenIndex), OnIngress (\<lambda>ingress. providerTokens (ingMeta ingress))),
      ((''IngressClass'', providerTokenIndex), OnMeta providerTokens),
      ((''EndpointSlice'', endpointNodeIndex), OnSlice endpointNodes),
      ((''EndpointSlice'', endpointServiceIndex), OnSlice endpointService),
      ((''DNSEndpoint'', dnsEndpointSourceIndex), OnMeta dnsEndpointSource),
      ((''DNSEndpoint'', dnsEndpointProviderIndex), OnMeta dnsEndpointProvider)] @
     (if gatewayEnabled
      then concat (map route_indexes route_kinds) @
        [((''Gateway'', gatewayClassIndex), OnGateway gatewayClass),
         ((''Gateway'', providerTokenIndex), OnGateway (\<lambda>gateway. providerTokens (gwMeta gateway))),
         ((''GatewayClass'', providerTokenIndex), OnMeta providerTokens)]
      else [])"

fun register_indexes :: "(index_entry \<Rightarrow> 'w \<Rightarrow> goerr option \<times> 'w) \<Rightarrow> index_entry list \<Rightarrow> 'w \<Rightarrow> goerr option \<times> 'w" where
  "register_indexes IndexField [] w = (None, w)"
| "register_indexes IndexField (entry # rest) w =
     (case IndexField entry w of (Some e, w1) \<Rightarrow> (Some e, w1) | (None, w1) \<Rightarrow> register_indexes IndexField rest w1)"

definition addIndexes :: "(index_entry \<Rightarrow> 'w \<Rightarrow> goerr option \<times> 'w) \<Rightarrow> bool \<Rightarrow> 'w \<Rightarrow> goerr option \<times> 'w" where
  "addIndexes IndexField gatewayEnabled w = register_indexes IndexField (index_table gatewayEnabled) w"

section \<open>The mapper\<close>

type_synonym selector = "(string \<times> string) option"

record lister =
  ls_ingresses :: "selector \<Rightarrow> Ingress list result"
  ls_routes :: "SourceKind \<Rightarrow> selector \<Rightarrow> client_object list result"
  ls_slices :: "selector \<Rightarrow> EndpointSlice list result"
  ls_gateways :: "selector \<Rightarrow> Gateway list result"
  ls_gatewayclasses :: "selector \<Rightarrow> ObjectMeta list result"
  ls_ingressclasses :: "selector \<Rightarrow> ObjectMeta list result"

record mapper =
  mClient :: lister
  mRouteKind :: SourceKind

definition newMapper :: "lister \<Rightarrow> mapper" where
  "newMapper kubeClient = \<lparr>mClient = kubeClient, mRouteKind = SourceKindHTTPRoute\<rparr>"

type_synonym request = object_key

definition requests :: "ObjectMeta list \<Rightarrow> request list" where
  "requests items = map meta_key items"

text \<open>\<^verbatim>\<open>mapper.list\<close>: no read on a context that is done.\<close>

definition list_objects :: "goerr option \<Rightarrow> 'a list result \<Rightarrow> 'a list result" where
  "list_objects ctx items = (case ctx of Some e \<Rightarrow> Inl e | None \<Rightarrow> items)"

text \<open>An indexed read, and all objects when it fails.\<close>

definition list_fallback :: "goerr option \<Rightarrow> (selector \<Rightarrow> 'a list result) \<Rightarrow> string \<Rightarrow> string \<Rightarrow> 'a list result" where
  "list_fallback ctx lister field val =
     (case list_objects ctx (lister (Some (field, val))) of
        Inr items \<Rightarrow> Inr items
      | Inl _ \<Rightarrow> list_objects ctx (lister None))"

definition ingresses :: "goerr option \<Rightarrow> mapper \<Rightarrow> string \<Rightarrow> string \<Rightarrow> request list" where
  "ingresses ctx m field val =
     (case list_fallback ctx (ls_ingresses (mClient m)) field val of
        Inl _ \<Rightarrow> [] | Inr items \<Rightarrow> requests (map ingMeta items))"

definition routeList :: "SourceKind \<Rightarrow> SourceKind" where
  "routeList kind =
     (if kind = SourceKindTCPRoute then SourceKindTCPRoute
      else if kind = SourceKindUDPRoute then SourceKindUDPRoute else SourceKindHTTPRoute)"

definition routes :: "goerr option \<Rightarrow> mapper \<Rightarrow> string \<Rightarrow> string \<Rightarrow> request list" where
  "routes ctx m field val =
     (case list_fallback ctx (ls_routes (mClient m) (routeList (mRouteKind m))) field val of
        Inl _ \<Rightarrow> [] | Inr items \<Rightarrow> requests (map object_meta items))"

fun dedupe_loop :: "request list \<Rightarrow> request list \<Rightarrow> request list" where
  "dedupe_loop seen [] = []"
| "dedupe_loop seen (r # rs) = (if r \<in> set seen then dedupe_loop seen rs else r # dedupe_loop (r # seen) rs)"

definition dedupe :: "request list \<Rightarrow> request list" where
  "dedupe rs = dedupe_loop [] rs"

definition object_slash :: "ObjectMeta \<Rightarrow> string" where
  "object_slash object = slash (omNamespace object) (omName object)"

definition ingressClass :: "goerr option \<Rightarrow> mapper \<Rightarrow> ObjectMeta \<Rightarrow> request list" where
  "ingressClass ctx m object = ingresses ctx m ingressClassIndex (omName object)"

definition ingressService :: "goerr option \<Rightarrow> mapper \<Rightarrow> ObjectMeta \<Rightarrow> request list" where
  "ingressService ctx m object = ingresses ctx m backendServiceIndex (object_slash object)"

definition routeService :: "goerr option \<Rightarrow> mapper \<Rightarrow> ObjectMeta \<Rightarrow> request list" where
  "routeService ctx m object = routes ctx m backendServiceIndex (object_slash object)"

definition ingressSlice :: "goerr option \<Rightarrow> mapper \<Rightarrow> EndpointSlice \<Rightarrow> request list" where
  "ingressSlice ctx m object = (case endpointService object of [] \<Rightarrow> [] | key # _ \<Rightarrow> ingresses ctx m backendServiceIndex key)"

definition routeSlice :: "goerr option \<Rightarrow> mapper \<Rightarrow> EndpointSlice \<Rightarrow> request list" where
  "routeSlice ctx m object = (case endpointService object of [] \<Rightarrow> [] | key # _ \<Rightarrow> routes ctx m backendServiceIndex key)"

definition containsString :: "string list \<Rightarrow> string \<Rightarrow> bool" where
  "containsString vs wanted \<longleftrightarrow> wanted \<in> set vs"

definition sourcesForNode :: "goerr option \<Rightarrow> mapper \<Rightarrow> string \<Rightarrow> bool \<Rightarrow> request list" where
  "sourcesForNode ctx m node isRoute =
     (case list_fallback ctx (ls_slices (mClient m)) endpointNodeIndex node of
        Inl _ \<Rightarrow> []
      | Inr items \<Rightarrow>
          dedupe (concat (map (\<lambda>sl. concat (map (\<lambda>key. if isRoute then routes ctx m backendServiceIndex key
                                                       else ingresses ctx m backendServiceIndex key) (endpointService sl)))
            (filter (\<lambda>sl. containsString (endpointNodes sl) node) items))))"

definition ingressNode :: "goerr option \<Rightarrow> mapper \<Rightarrow> ObjectMeta \<Rightarrow> request list" where
  "ingressNode ctx m object = sourcesForNode ctx m (omName object) False"

definition routeNode :: "goerr option \<Rightarrow> mapper \<Rightarrow> ObjectMeta \<Rightarrow> request list" where
  "routeNode ctx m object = sourcesForNode ctx m (omName object) True"

definition routeGateway :: "goerr option \<Rightarrow> mapper \<Rightarrow> ObjectMeta \<Rightarrow> request list" where
  "routeGateway ctx m object = routes ctx m gatewayParentIndex (object_slash object)"

definition routeGatewayClass :: "goerr option \<Rightarrow> mapper \<Rightarrow> ObjectMeta \<Rightarrow> request list" where
  "routeGatewayClass ctx m object =
     (case list_fallback ctx (ls_gateways (mClient m)) gatewayClassIndex (omName object) of
        Inl _ \<Rightarrow> []
      | Inr gateways \<Rightarrow>
          dedupe (concat (map (\<lambda>gateway. routeGateway ctx m (gwMeta gateway))
            (filter (\<lambda>gateway. GatewayClassName gateway = omName object) gateways))))"

definition routeGrant :: "goerr option \<Rightarrow> mapper \<Rightarrow> ObjectMeta \<Rightarrow> request list" where
  "routeGrant ctx m object = routes ctx m backendNamespaceIndex (omNamespace object)"

text \<open>The objects with a provider among their tokens, mapped further.\<close>

definition by_provider :: "('a \<Rightarrow> ObjectMeta) \<Rightarrow> (ObjectMeta \<Rightarrow> request list) \<Rightarrow> string \<Rightarrow> 'a list \<Rightarrow> request list" where
  "by_provider object_of further name items =
     concat (map (\<lambda>item. further (object_of item)) (filter (\<lambda>item. containsString (providerTokens (object_of item)) name) items))"

definition ingressProvider :: "goerr option \<Rightarrow> mapper \<Rightarrow> ObjectMeta \<Rightarrow> request list" where
  "ingressProvider ctx m object =
     (let name = omName object; found = ingresses ctx m providerTokenIndex name
      in case list_fallback ctx (ls_ingressclasses (mClient m)) providerTokenIndex name of
           Inl _ \<Rightarrow> dedupe found
         | Inr classes \<Rightarrow> dedupe (found @ by_provider (\<lambda>c. c) (ingressClass ctx m) name classes))"

definition routeProvider :: "goerr option \<Rightarrow> mapper \<Rightarrow> ObjectMeta \<Rightarrow> request list" where
  "routeProvider ctx m object =
     (let name = omName object; found = routes ctx m providerTokenIndex name
      in case list_fallback ctx (ls_gateways (mClient m)) providerTokenIndex name of
           Inl _ \<Rightarrow> dedupe found
         | Inr gateways \<Rightarrow>
             (let found1 = found @ by_provider gwMeta (routeGateway ctx m) name gateways
              in case list_fallback ctx (ls_gatewayclasses (mClient m)) providerTokenIndex name of
                   Inl _ \<Rightarrow> dedupe found1
                 | Inr classes \<Rightarrow> dedupe (found1 @ by_provider (\<lambda>c. c) (routeGatewayClass ctx m) name classes)))"

definition annotated_source :: "ObjectMeta \<Rightarrow> request" where
  "annotated_source object =
     (get_str (omAnnotations object) (AnnotationPrefix @ ''source-namespace''), get_str (omAnnotations object) (AnnotationPrefix @ ''source-name''))"

definition ingressEndpoint :: "ObjectMeta \<Rightarrow> request list" where
  "ingressEndpoint object =
     (if get_str (omAnnotations object) (AnnotationPrefix @ ''source-kind'') \<noteq> SourceKindIngress then [] else [annotated_source object])"

definition routeEndpoint :: "mapper \<Rightarrow> ObjectMeta \<Rightarrow> request list" where
  "routeEndpoint m object =
     (if get_str (omAnnotations object) (AnnotationPrefix @ ''source-kind'') \<noteq> mRouteKind m then [] else [annotated_source object])"

section \<open>The controllers and their watches\<close>

text \<open>An event carries a watched object; updates are mapped for the old and for the new object.  The objects of
  the sources themselves are among them: \<open>WRoute kind\<close> is a route of that kind.\<close>

datatype watched =
    WIngress ObjectMeta
  | WRoute SourceKind ObjectMeta
  | WIngressClass ObjectMeta
  | WService ObjectMeta
  | WSlice EndpointSlice
  | WNode ObjectMeta
  | WProvider ObjectMeta
  | WEndpoint ObjectMeta
  | WGateway ObjectMeta
  | WGatewayClass ObjectMeta
  | WGrant ObjectMeta

fun ingress_watches :: "goerr option \<Rightarrow> mapper \<Rightarrow> watched \<Rightarrow> request list" where
  "ingress_watches ctx m (WIngressClass object) = ingressClass ctx m object"
| "ingress_watches ctx m (WService object) = ingressService ctx m object"
| "ingress_watches ctx m (WSlice object) = ingressSlice ctx m object"
| "ingress_watches ctx m (WNode object) = ingressNode ctx m object"
| "ingress_watches ctx m (WProvider object) = ingressProvider ctx m object"
| "ingress_watches ctx m (WEndpoint object) = ingressEndpoint object"
| "ingress_watches ctx m _ = []"

fun route_watches :: "goerr option \<Rightarrow> mapper \<Rightarrow> watched \<Rightarrow> request list" where
  "route_watches ctx m (WGateway object) = routeGateway ctx m object"
| "route_watches ctx m (WGatewayClass object) = routeGatewayClass ctx m object"
| "route_watches ctx m (WGrant object) = routeGrant ctx m object"
| "route_watches ctx m (WService object) = routeService ctx m object"
| "route_watches ctx m (WSlice object) = routeSlice ctx m object"
| "route_watches ctx m (WNode object) = routeNode ctx m object"
| "route_watches ctx m (WProvider object) = routeProvider ctx m object"
| "route_watches ctx m (WEndpoint object) = routeEndpoint m object"
| "route_watches ctx m _ = []"

text \<open>\<^verbatim>\<open>For(&networkingv1.Ingress{})\<close> and \<^verbatim>\<open>For(source.RouteObject(kind))\<close>: an event on an object of the
  controller's own kind is a request for that object (the builder's \<^verbatim>\<open>EnqueueRequestForObject\<close>).\<close>

fun for_object :: "SourceKind \<Rightarrow> watched \<Rightarrow> request list" where
  "for_object kind (WIngress object) = (if kind = SourceKindIngress then [meta_key object] else [])"
| "for_object kind (WRoute k object) = (if kind = k then [meta_key object] else [])"
| "for_object kind _ = []"

text \<open>A controller of the manager: its name, the kind it reconciles with the watch of that kind, and its
  further watches.\<close>

record source_controller =
  scName :: string
  scKind :: SourceKind
  scFor :: "watched \<Rightarrow> request list"
  scWatches :: "goerr option \<Rightarrow> watched \<Rightarrow> request list"

text \<open>What an event puts into the queue of a controller.\<close>

definition enqueued :: "source_controller \<Rightarrow> goerr option \<Rightarrow> watched \<Rightarrow> request list" where
  "enqueued controller ctx event = scFor controller event @ scWatches controller ctx event"

definition ingress_controller :: "lister \<Rightarrow> source_controller" where
  "ingress_controller client =
     \<lparr>scName = ''ingress-source'', scKind = SourceKindIngress, scFor = for_object SourceKindIngress,
      scWatches = \<lambda>ctx. ingress_watches ctx (newMapper client)\<rparr>"

definition route_controller :: "lister \<Rightarrow> SourceKind \<Rightarrow> source_controller" where
  "route_controller client kind =
     \<lparr>scName = ToLower kind @ ''-source'', scKind = kind, scFor = for_object kind,
      scWatches = \<lambda>ctx. route_watches ctx \<lparr>mClient = client, mRouteKind = kind\<rparr>\<rparr>"

text \<open>\<open>complete\<close> is \<^verbatim>\<open>builder.Complete\<close>, which may refuse a controller.\<close>

fun complete_all :: "(source_controller \<Rightarrow> 'w \<Rightarrow> goerr option \<times> 'w) \<Rightarrow> source_controller list \<Rightarrow> 'w \<Rightarrow> goerr option \<times> 'w" where
  "complete_all complete [] w = (None, w)"
| "complete_all complete (c # cs) w =
     (case complete c w of (Some e, w1) \<Rightarrow> (Some e, w1) | (None, w1) \<Rightarrow> complete_all complete cs w1)"

definition Setup ::
  "(index_entry \<Rightarrow> 'w \<Rightarrow> goerr option \<times> 'w) \<Rightarrow> (source_controller \<Rightarrow> 'w \<Rightarrow> goerr option \<times> 'w) \<Rightarrow> lister \<Rightarrow> bool \<Rightarrow> 'w \<Rightarrow> goerr option \<times> 'w" where
  "Setup IndexField complete client gatewayEnabled w =
     (case addIndexes IndexField gatewayEnabled w of
        (Some e, w1) \<Rightarrow> (Some e, w1)
      | (None, w1) \<Rightarrow>
          (case complete (ingress_controller client) w1 of
             (Some e, w2) \<Rightarrow> (Some e, w2)
           | (None, w2) \<Rightarrow>
               (if \<not> gatewayEnabled then (None, w2) else complete_all complete (map (route_controller client) route_kinds) w2)))"


end
