(* ===== verification/Dependencies.thy ===== *)
theory Dependencies
  imports Source_Correct
begin

text \<open>
  What the decision on a source depends on.  Two clusters that give the same answers for the objects a
  source reaches (its class or Gateways, its providers, its Services with their EndpointSlices, the Nodes
  named in those slices and the ReferenceGrants of the namespaces it refers to) lead to the same decision.
  The watch mapping of \<^verbatim>\<open>internal/controller/setup.go\<close> is complete because it covers exactly these objects.
\<close>

section \<open>Backends\<close>

definition slice_nodes :: "reader \<Rightarrow> Backend \<Rightarrow> string set" where
  "slice_nodes R b =
     (case list_slices R (bNamespace b) (bName b) of
        Inl _ \<Rightarrow> {}
      | Inr slices \<Rightarrow> {n. n \<noteq> '''' \<and> (\<exists>sl \<in> set slices. \<exists>e \<in> set (slEndpoints sl). seNodeName e = Some n)})"

definition same_backend :: "reader \<Rightarrow> reader \<Rightarrow> Backend \<Rightarrow> bool" where
  "same_backend R R' b \<longleftrightarrow>
     get_service R (bNamespace b, bName b) = get_service R' (bNamespace b, bName b) \<and>
     (\<forall>m. get_service R (bNamespace b, bName b) = Inr m \<longrightarrow>
        list_slices R (bNamespace b) (bName b) = list_slices R' (bNamespace b) (bName b) \<and>
        (\<forall>n \<in> slice_nodes R b. get_node R n = get_node R' n))"

lemma node_loop_cong:
  "\<forall>n \<in> set ns. get_node R n = get_node R' n \<Longrightarrow> node_loop R b provider families ns st = node_loop R' b provider families ns st"
  by (induction ns arbitrary: st) (auto split: sum.split)

lemma backendTargets_cong:
  assumes "same_backend R R' b"
  shows "backendTargets R b provider families st = backendTargets R' b provider families st"
proof (cases "get_service R (bNamespace b, bName b)")
  case (Inl e)
  then have "get_service R' (bNamespace b, bName b) = Inl e" using assms by (simp add: same_backend_def)
  with Inl show ?thesis by (simp add: backendTargets_def)
next
  case service: (Inr m)
  then have service': "get_service R' (bNamespace b, bName b) = Inr m" using assms by (simp add: same_backend_def)
  have same: "list_slices R' (bNamespace b) (bName b) = list_slices R (bNamespace b) (bName b)"
    "\<forall>n \<in> slice_nodes R b. get_node R n = get_node R' n" using assms service by (simp_all add: same_backend_def)
  show ?thesis
  proof (cases "list_slices R (bNamespace b) (bName b)")
    case (Inl e)
    then show ?thesis by (simp add: backendTargets_def service service' same(1))
  next
    case (Inr slices)
    obtain ns r u where count: "foldl count_endpoint ([], 0, 0) (concat (map slEndpoints slices)) = (ns, r, u)"
      "set ns = {n. \<exists>e \<in> set (concat (map slEndpoints slices)). serves n e}"
      using count_endpoints [of "[]" 0 0 "concat (map slEndpoints slices)"] by auto
    have "set (stringSet ns) \<subseteq> slice_nodes R b" by (auto simp: stringSet_def count(2) slice_nodes_def Inr serves_def)
    then have "node_loop R b provider families (stringSet ns) s = node_loop R' b provider families (stringSet ns) s" for s
      using same(2) by (intro node_loop_cong) auto
    then show ?thesis by (simp add: backendTargets_def service service' same(1) Inr count(1))
  qed
qed

lemma host_targets_cong:
  "\<forall>b \<in> set bs. same_backend R R' b \<Longrightarrow> host_targets R provider families bs (st, t) = host_targets R' provider families bs (st, t)"
proof (induction bs arbitrary: st t)
  case (Cons b bs)
  then show ?case by (auto simp: backendTargets_cong [of R R' b] split: prod.split sum.split)
qed simp

definition projection_backends :: "HostProjection list \<Rightarrow> Backend set" where
  "projection_backends ps = (\<Union>p \<in> set ps. set (Backends p))"

lemma projection_backends_simps [simp]:
  "projection_backends [] = {}" "projection_backends (p # ps) = set (Backends p) \<union> projection_backends ps"
  by (simp_all add: projection_backends_def)

lemma host_loop_cong:
  "\<forall>b \<in> projection_backends hosts. same_backend R R' b \<Longrightarrow>
   host_loop R provider families ttl properties hosts (st, rs) = host_loop R' provider families ttl properties hosts (st, rs)"
proof (induction hosts arbitrary: st rs)
  case (Cons host hosts)
  have "host_targets R provider families (Backends host) (st, t) = host_targets R' provider families (Backends host) (st, t)" for t
    using Cons.prems by (intro host_targets_cong) simp
  with Cons show ?case by (auto split: prod.split sum.split)
qed simp

lemma publication_loop_cong:
  assumes "\<forall>b \<in> projection_backends projection. same_backend R R' b"
  shows "publication_loop R projection options providers (st, pubs) = publication_loop R' projection options providers (st, pubs)"
proof (induction providers arbitrary: st pubs)
  case (Cons provider providers)
  have "publication R projection provider options t = publication R' projection provider options t" for t
    unfolding publication_def host_loop_cong [OF assms] ..
  with Cons show ?case by (auto split: prod.split sum.split)
qed simp

lemma Publications_cong:
  "\<forall>b \<in> projection_backends projection. same_backend R R' b \<Longrightarrow>
   Publications R projection providers options = Publications R' projection providers options"
  by (simp add: Publications_def publication_loop_cong)

section \<open>Providers\<close>

lemma load_loop_cong:
  "\<forall>n \<in> set names. get_provider R n = get_provider R' n \<Longrightarrow> load_loop R names (ds, ps) = load_loop R' names (ds, ps)"
proof (induction names arbitrary: ds ps)
  case (Cons n names)
  then show ?case by (auto split: sum.split)
qed simp

lemma loadProviders_cong:
  "\<forall>n \<in> set names. get_provider R n = get_provider R' n \<Longrightarrow> loadProviders R names = loadProviders R' names"
  by (simp add: loadProviders_def load_loop_cong [of names R R'])

text \<open>The providers that annotations name, enabled or not.\<close>

definition named_providers :: "name_check \<Rightarrow> strmap result \<Rightarrow> string set" where
  "named_providers D annotations =
     (case and_then annotations (ParseAnnotations D) of Inl _ \<Rightarrow> {} | Inr parsed \<Rightarrow> set (Providers parsed))"

lemma decide_cong:
  assumes "\<forall>n \<in> named_providers D annotations. get_provider R n = get_provider R' n"
    and "\<And>overrides. project overrides = project' overrides"
    and "\<And>overrides ps. snd (project overrides) = Inr ps \<Longrightarrow> \<forall>b \<in> projection_backends ps. same_backend R R' b"
  shows "decide D R project annotations = decide D R' project' annotations"
proof (cases "and_then annotations (ParseAnnotations D)")
  case (Inl e)
  then show ?thesis by (cases annotations) (simp_all add: decide_def)
next
  case (Inr parsed)
  then obtain vals where vals: "annotations = Inr vals" "ParseAnnotations D vals = Inr parsed" by (cases annotations) simp_all
  have "loadProviders R (Providers parsed) = loadProviders R' (Providers parsed)"
    using assms(1) by (intro loadProviders_cong) (simp add: named_providers_def Inr)
  moreover have "Publications R ps providers options = Publications R' ps providers options"
    if "snd (project (Hostnames parsed)) = Inr ps" for ps providers options
    using assms(3) [OF that] by (rule Publications_cong)
  ultimately show ?thesis by (auto simp: decide_def vals assms(2) [symmetric] split: sum.split)
qed

section \<open>Ingresses and routes\<close>

definition ingress_services :: "Ingress \<Rightarrow> Backend set" where
  "ingress_services ing = default_backends ing \<union> (\<Union>rule \<in> set (ingRules ing). path_backends (ing_namespace ing) rule)"

lemma IngressProjection_services:
  assumes "snd (IngressProjection D ing overrides) = Inr ps"
  shows "projection_backends ps \<subseteq> ingress_services ing"
proof (cases "overrides = []")
  case False
  with IngressProjection_run [of D ing overrides] assms
  obtain bs where "set bs = default_backends ing \<union> all_declared D (ing_namespace ing) (ingRules ing)"
    "ps = map (\<lambda>h. \<lparr>Hostname = h, Backends = backendSet bs\<rparr>) overrides" by auto
  then have "projection_backends ps \<subseteq> default_backends ing \<union> all_declared D (ing_namespace ing) (ingRules ing)"
    by (simp add: projection_backends_def)
  moreover have "all_declared D (ing_namespace ing) (ingRules ing) \<subseteq> (\<Union>rule \<in> set (ingRules ing). path_backends (ing_namespace ing) rule)"
    by (auto simp: all_declared_def rule_new_def split: option.splits if_splits)
  ultimately show ?thesis by (auto simp: ingress_services_def)
next
  case True
  with IngressProjection_run [of D ing overrides] assms obtain m where m: "wf_hosts m" "ps = projectionSet m"
    "host_view m = tls_view (default_backends ing) (tls_hosts D (concat (ingTLS ing))) (rules_view D (ing_namespace ing) (ingRules ing))"
    by auto
  have "set (Backends p) \<subseteq> ingress_backends D ing (Hostname p)" if "p \<in> set ps" for p
    using projectionSet_props(3) [OF m(1) that [unfolded m(2)]]
    by (simp add: m(3) flip: ingress_view_backends)
  moreover have "ingress_backends D ing h \<subseteq> ingress_services ing" for h
    by (auto simp: ingress_backends_def ingress_services_def declared_def split: if_splits)
  ultimately show ?thesis by (auto simp: projection_backends_def)
qed

definition route_services :: "client_object \<Rightarrow> Backend set" where
  "route_services route =
     {\<lparr>bNamespace = ref_namespace (GetNamespace route) ref, bName = refName ref\<rparr> | ref. ref \<in> set (RouteBackendRefs route) \<and> supported_ref ref}"

lemma routeBackend_cong:
  "\<forall>b \<in> route_services route. list_grants R (bNamespace b) = list_grants R' (bNamespace b) \<Longrightarrow> ref \<in> set (RouteBackendRefs route) \<Longrightarrow>
   routeBackend R route kind ref = routeBackend R' route kind ref"
  by (auto simp: routeBackend_def route_services_def Let_def split: sum.split)

lemma backend_loop_cong:
  assumes "\<forall>b \<in> route_services route. list_grants R (bNamespace b) = list_grants R' (bNamespace b)"
  shows "set refs \<subseteq> set (RouteBackendRefs route) \<Longrightarrow> backend_loop R route refs (st, all) = backend_loop R' route refs (st, all)"
proof (induction refs arbitrary: st all)
  case (Cons ref refs)
  then show ?case using routeBackend_cong [OF assms, of ref] by (auto split: sum.split option.split)
qed simp

lemma RouteProjection_cong:
  "\<forall>b \<in> route_services route. list_grants R (bNamespace b) = list_grants R' (bNamespace b) \<Longrightarrow>
   RouteProjection D R route overrides = RouteProjection D R' route overrides"
  by (simp add: RouteProjection_def backend_loop_cong [of route R R'] Let_def)

lemma RouteProjection_services:
  assumes "snd (RouteProjection D R route overrides) = Inr ps"
  shows "projection_backends ps \<subseteq> route_services route"
proof -
  have kind: "RouteKind route \<noteq> ''''" using assms by (auto simp: RouteProjection_def)
  obtain o1 r where loop: "backend_loop R route (RouteBackendRefs route) (diagnosticOnce, []) = (o1, r)" by fastforce
  then obtain all hs where "r = Inr all" "route_hostnames D route overrides = Inr hs"
    using assms kind by (cases r; cases "route_hostnames D route overrides") (simp_all add: RouteProjection_def Let_def)
  moreover from this have "set all = route_backends R route"
    using backend_loop_props [where all = "[]" and R = R and route = route and refs = "RouteBackendRefs route" and st = diagnosticOnce] loop by (simp add: ref_backends_route)
  moreover from calculation have "ps = (if all = [] then [] else map (\<lambda>h. \<lparr>Hostname = h, Backends = backendSet all\<rparr>) hs)"
    using assms kind loop by (simp add: RouteProjection_def Let_def)
  ultimately have "projection_backends ps \<subseteq> route_backends R route" by (simp add: projection_backends_def)
  then show ?thesis by (auto simp: route_backends_def route_services_def)
qed

definition same_provider_reads :: "name_check \<Rightarrow> reader \<Rightarrow> reader \<Rightarrow> strmap result \<Rightarrow> bool" where
  "same_provider_reads D R R' annotations \<longleftrightarrow> (\<forall>n \<in> named_providers D annotations. get_provider R n = get_provider R' n)"

lemma ingress_decision_cong:
  assumes "ingress_values R ing = ingress_values R' ing" "same_provider_reads D R R' (ingress_values R ing)"
    and "\<forall>b \<in> ingress_services ing. same_backend R R' b"
  shows "ingress_decision D R ing = ingress_decision D R' ing"
  unfolding ingress_decision_def assms(1) [symmetric]
proof (rule decide_cong)
  show "\<forall>n \<in> named_providers D (ingress_values R ing). get_provider R n = get_provider R' n"
    using assms(2) by (simp add: same_provider_reads_def)
  show "\<forall>b \<in> projection_backends ps. same_backend R R' b" if "snd (IngressProjection D ing overrides) = Inr ps" for overrides ps
    using IngressProjection_services [OF that] assms(3) by blast
qed simp

lemma route_decision_cong:
  assumes "route_values R route = route_values R' route" "same_provider_reads D R R' (route_values R route)"
    and "\<forall>b \<in> route_services route. same_backend R R' b \<and> list_grants R (bNamespace b) = list_grants R' (bNamespace b)"
  shows "route_decision D R route = route_decision D R' route"
  unfolding route_decision_def assms(1) [symmetric]
proof (rule decide_cong)
  show "\<forall>n \<in> named_providers D (route_values R route). get_provider R n = get_provider R' n"
    using assms(2) by (simp add: same_provider_reads_def)
  show "RouteProjection D R route overrides = RouteProjection D R' route overrides" for overrides
    using assms(3) by (intro RouteProjection_cong) simp
  show "\<forall>b \<in> projection_backends ps. same_backend R R' b" if "snd (RouteProjection D R route overrides) = Inr ps" for overrides ps
    using RouteProjection_services [OF that] assms(3) by blast
qed

section \<open>Where the provider tokens come from\<close>

lemma named_providers_tokens:
  assumes "name \<in> named_providers D annotations"
  shows "\<exists>vals v. annotations = Inr vals \<and> fmlookup vals ProvidersAnnotation = Some v \<and> name \<in> set (commaList v)"
proof -
  obtain vals parsed where vals: "annotations = Inr vals" "ParseAnnotations D vals = Inr parsed" "name \<in> set (Providers parsed)"
    using assms by (cases annotations) (auto simp: named_providers_def split: sum.splits)
  obtain r1 r2 r3 r4 r5 where
    s: "parse_enabled vals (empty_parsed vals) = Inr r1" "parse_providers D vals r1 = Inr r2"
      "parse_hostnames D vals r2 = Inr r3" "parse_ttl vals r3 = Inr r4" "parse_delay vals r4 = Inr r5"
      "parse_families vals r5 = Inr parsed"
    using vals(2) unfolding ParseAnnotations_def and_then_Inr by blast
  have "Providers r1 = []" using s(1) by (auto simp: parse_enabled_def empty_parsed_def split: option.splits)
  moreover have "Providers parsed = Providers r2"
    using s(3-6) by (auto simp: parse_hostnames_def parse_ttl_def parse_delay_def parse_families_def split: option.splits sum.splits if_splits)
  ultimately show ?thesis
    using s(2) vals by (auto simp: parse_providers_def split: option.splits sum.splits)
qed

end
