(* ===== verification/Mapper_Correct.thy ===== *)
theory Mapper_Correct
  imports Mapper Dependencies
begin

text \<open>
  The watches are complete.  Whenever the objects of the cluster change, the source itself included, in a way
  that changes what its reconciler would do, one of the events of that change puts a request for the source
  into the queue of its controller; the only event that can be lost is one whose mapping run could list a
  kind neither by its index nor in full (\<open>terminalListFailure\<close>).
\<close>

section \<open>The cache\<close>

record cluster =
  clIngresses :: "Ingress list"
  clRoutes :: "SourceKind \<Rightarrow> client_object list"
  clSlices :: "EndpointSlice list"
  clGateways :: "Gateway list"
  clGatewayClasses :: "ObjectMeta list"
  clIngressClasses :: "ObjectMeta list"

fun run_ingress :: "index_fn \<Rightarrow> Ingress \<Rightarrow> string list" where "run_ingress (OnIngress f) x = f x" | "run_ingress _ x = []"
fun run_meta :: "index_fn \<Rightarrow> ObjectMeta \<Rightarrow> string list" where "run_meta (OnMeta f) x = f x" | "run_meta _ x = []"
fun run_slice :: "index_fn \<Rightarrow> EndpointSlice \<Rightarrow> string list" where "run_slice (OnSlice f) x = f x" | "run_slice _ x = []"
fun run_route :: "index_fn \<Rightarrow> client_object \<Rightarrow> string list" where "run_route (OnRoute f) x = f x" | "run_route _ x = []"
fun run_gateway :: "index_fn \<Rightarrow> Gateway \<Rightarrow> string list" where "run_gateway (OnGateway f) x = f x" | "run_gateway _ x = []"

text \<open>A list call of the documented cache: when it succeeds it returns, with a selector, the objects whose
  registered index function gives the value, and without one all objects.  It may fail.\<close>

definition selected :: "bool \<Rightarrow> string \<Rightarrow> (index_fn \<Rightarrow> 'a \<Rightarrow> string list) \<Rightarrow> selector \<Rightarrow> 'a \<Rightarrow> bool" where
  "selected gw kind ix sel x \<longleftrightarrow>
     (case sel of None \<Rightarrow> True | Some (field, v) \<Rightarrow> (case map_of (index_table gw) (kind, field) of None \<Rightarrow> False | Some f \<Rightarrow> v \<in> set (ix f x)))"

definition answers :: "bool \<Rightarrow> string \<Rightarrow> (index_fn \<Rightarrow> 'a \<Rightarrow> string list) \<Rightarrow> (selector \<Rightarrow> 'a list result) \<Rightarrow> 'a list \<Rightarrow> bool" where
  "answers gw kind ix lister objects \<longleftrightarrow>
     (\<forall>sel items. lister sel = Inr items \<longrightarrow> set items = {x \<in> set objects. selected gw kind ix sel x})"

text \<open>A read that fails by index and in full: the mapper calls \<open>terminalListFailure\<close> and drops it.  The reads
  of the Ingress controller's mapper and of a route controller's.\<close>

definition read_lost :: "(selector \<Rightarrow> 'a list result) \<Rightarrow> bool" where
  "read_lost lister \<longleftrightarrow> (\<exists>field v e. list_fallback None lister field v = Inl e)"

definition ingress_reads_lost :: "lister \<Rightarrow> bool" where
  "ingress_reads_lost client \<longleftrightarrow> read_lost (ls_ingresses client) \<or> read_lost (ls_slices client) \<or> read_lost (ls_ingressclasses client)"

definition route_reads_lost :: "lister \<Rightarrow> SourceKind \<Rightarrow> bool" where
  "route_reads_lost client kind \<longleftrightarrow>
     read_lost (ls_routes client kind) \<or> read_lost (ls_slices client) \<or> read_lost (ls_gateways client) \<or> read_lost (ls_gatewayclasses client)"

definition cache_doc :: "bool \<Rightarrow> lister \<Rightarrow> cluster \<Rightarrow> bool" where
  "cache_doc gw client cl \<longleftrightarrow>
     answers gw ''Ingress'' run_ingress (ls_ingresses client) (clIngresses cl) \<and>
     (\<forall>kind. answers gw kind run_route (ls_routes client kind) (clRoutes cl kind)) \<and>
     answers gw ''EndpointSlice'' run_slice (ls_slices client) (clSlices cl) \<and>
     answers gw ''Gateway'' run_gateway (ls_gateways client) (clGateways cl) \<and>
     answers gw ''GatewayClass'' run_meta (ls_gatewayclasses client) (clGatewayClasses cl) \<and>
     answers gw ''IngressClass'' run_meta (ls_ingressclasses client) (clIngressClasses cl)"

lemma read_kept: "\<not> read_lost lister \<Longrightarrow> \<exists>items. list_fallback None lister field v = Inr items"
  by (metis read_lost_def sum.exhaust)

lemma list_fallback_includes:
  assumes "answers gw kind ix lister objects" "x \<in> set objects" "selected gw kind ix (Some (field, v)) x" "\<not> read_lost lister"
  shows "\<exists>items. list_fallback None lister field v = Inr items \<and> x \<in> set items"
proof (cases "lister (Some (field, v))")
  case (Inl e)
  with read_kept [OF assms(4), of field v] obtain items where items: "lister None = Inr items"
    by (auto simp: list_fallback_def list_objects_def)
  then have "set items = {x \<in> set objects. selected gw kind ix None x}" using assms(1) unfolding answers_def by blast
  then have "x \<in> set items" using assms(2) by (simp add: selected_def)
  with Inl items show ?thesis by (simp add: list_fallback_def list_objects_def)
next
  case (Inr items)
  then have "set items = {x \<in> set objects. selected gw kind ix (Some (field, v)) x}" using assms(1) unfolding answers_def by blast
  then have "x \<in> set items" using assms(2,3) by simp
  with Inr show ?thesis by (simp add: list_fallback_def list_objects_def)
qed

lemma set_keys [simp]: "set (keys xs) = set xs"
  by (simp add: keys_def)

lemma set_dedupe_loop: "set (dedupe_loop seen rs) = set rs - set seen"
  by (induction seen rs rule: dedupe_loop.induct) auto

lemma set_dedupe [simp]: "set (dedupe rs) = set rs"
  by (simp add: dedupe_def set_dedupe_loop)

lemma kind_names: "SourceKindHTTPRoute = ''HTTPRoute''" "SourceKindTCPRoute = ''TCPRoute''" "SourceKindUDPRoute = ''UDPRoute''"
  by (simp_all add: SourceKindHTTPRoute_def SourceKindTCPRoute_def SourceKindUDPRoute_def)

lemma ingress_indexes:
  "selected gw ''Ingress'' run_ingress (Some (backendServiceIndex, v)) ing \<longleftrightarrow> v \<in> set (ingressBackendKeys ing)"
  "selected gw ''Ingress'' run_ingress (Some (ingressClassIndex, v)) ing \<longleftrightarrow> v \<in> set (ingressClassKeys ing)"
  "selected gw ''Ingress'' run_ingress (Some (providerTokenIndex, v)) ing \<longleftrightarrow> v \<in> set (providerTokens (ingMeta ing))"
  "selected gw ''IngressClass'' run_meta (Some (providerTokenIndex, v)) cls \<longleftrightarrow> v \<in> set (providerTokens cls)"
  "selected gw ''EndpointSlice'' run_slice (Some (endpointNodeIndex, v)) sl \<longleftrightarrow> v \<in> set (endpointNodes sl)"
  by (simp_all add: selected_def index_table_def index_names)

lemma route_index_entries:
  assumes "kind \<in> set route_kinds"
  shows "selected True kind run_route (Some (backendServiceIndex, v)) route \<longleftrightarrow> v \<in> set (routeBackendKeys route)"
    "selected True kind run_route (Some (gatewayParentIndex, v)) route \<longleftrightarrow> v \<in> set (routeParents route)"
    "selected True kind run_route (Some (providerTokenIndex, v)) route \<longleftrightarrow> v \<in> set (providerTokens (object_meta route))"
    "selected True kind run_route (Some (backendNamespaceIndex, v)) route \<longleftrightarrow> v \<in> set (routeBackendNamespaces route)"
  using assms by (auto simp: selected_def index_table_def index_names route_kinds_def route_indexes_def kind_names)

lemma gateway_indexes:
  "selected True ''Gateway'' run_gateway (Some (gatewayClassIndex, v)) gateway \<longleftrightarrow> v = GatewayClassName gateway"
  "selected True ''Gateway'' run_gateway (Some (providerTokenIndex, v)) gateway \<longleftrightarrow> v \<in> set (providerTokens (gwMeta gateway))"
  "selected True ''GatewayClass'' run_meta (Some (providerTokenIndex, v)) cls \<longleftrightarrow> v \<in> set (providerTokens cls)"
  by (simp_all add: selected_def index_table_def index_names route_kinds_def route_indexes_def kind_names gatewayClass_def)

section \<open>What the mapper finds\<close>

lemma ingresses_find:
  assumes "cache_doc gw client cl" "mClient m = client" "ing \<in> set (clIngresses cl)"
    and "selected gw ''Ingress'' run_ingress (Some (field, v)) ing" "\<not> read_lost (ls_ingresses client)"
  shows "meta_key (ingMeta ing) \<in> set (ingresses None m field v)"
proof -
  have "answers gw ''Ingress'' run_ingress (ls_ingresses client) (clIngresses cl)" using assms(1) by (simp add: cache_doc_def)
  from list_fallback_includes [OF this assms(3-5)] show ?thesis by (auto simp: ingresses_def assms(2) requests_def)
qed

lemma routeList_kind: "kind \<in> set route_kinds \<Longrightarrow> routeList kind = kind"
  by (auto simp: route_kinds_def routeList_def kind_names)

lemma routes_find:
  assumes "cache_doc True client cl" "m = \<lparr>mClient = client, mRouteKind = kind\<rparr>" "kind \<in> set route_kinds" "route \<in> set (clRoutes cl kind)"
    and "selected True kind run_route (Some (field, v)) route" "\<not> read_lost (ls_routes client kind)"
  shows "meta_key (object_meta route) \<in> set (routes None m field v)"
proof -
  have "answers True kind run_route (ls_routes client kind) (clRoutes cl kind)" using assms(1) by (simp add: cache_doc_def)
  from list_fallback_includes [OF this assms(4-6)] show ?thesis
    by (auto simp: routes_def assms(2) requests_def routeList_kind [OF assms(3)])
qed

lemma slices_find:
  assumes "cache_doc gw client cl" "sl \<in> set (clSlices cl)" "n \<in> set (endpointNodes sl)" "\<not> read_lost (ls_slices client)"
  shows "\<exists>items. list_fallback None (ls_slices client) endpointNodeIndex n = Inr items \<and> sl \<in> set items"
proof -
  have "answers gw ''EndpointSlice'' run_slice (ls_slices client) (clSlices cl)" using assms(1) by (simp add: cache_doc_def)
  from list_fallback_includes [OF this assms(2) _ assms(4)] assms(3) show ?thesis by (simp add: ingress_indexes)
qed

lemma sourcesForNode_find:
  assumes "cache_doc gw client cl" "mClient m = client" "sl \<in> set (clSlices cl)" "n \<in> set (endpointNodes sl)" "key \<in> set (endpointService sl)"
    and "req \<in> set (if isRoute then routes None m backendServiceIndex key else ingresses None m backendServiceIndex key)"
    and "\<not> read_lost (ls_slices client)"
  shows "req \<in> set (sourcesForNode None m n isRoute)"
proof -
  obtain items where items: "list_fallback None (ls_slices client) endpointNodeIndex n = Inr items" "sl \<in> set items"
    using slices_find [OF assms(1,3,4,7)] by blast
  have "(if isRoute then routes None m backendServiceIndex key else ingresses None m backendServiceIndex key) \<in>
      set (map (\<lambda>key. if isRoute then routes None m backendServiceIndex key else ingresses None m backendServiceIndex key) (endpointService sl))"
    using assms(5) by simp
  then have "req \<in> set (concat (map (\<lambda>key. if isRoute then routes None m backendServiceIndex key else ingresses None m backendServiceIndex key) (endpointService sl)))"
    using assms(6) unfolding set_concat by blast
  with items assms(4) show ?thesis by (auto simp: sourcesForNode_def assms(2) containsString_def)
qed

lemma by_provider_find:
  "item \<in> set items \<Longrightarrow> name \<in> set (providerTokens (object_of item)) \<Longrightarrow> req \<in> set (further (object_of item)) \<Longrightarrow>
   req \<in> set (by_provider object_of further name items)"
  by (auto simp: by_provider_def containsString_def)

lemma ingressProvider_find:
  assumes "cache_doc gw client cl" "mClient m = client"
    and "req \<in> set (ingresses None m providerTokenIndex name) \<or>
      (\<exists>cls \<in> set (clIngressClasses cl). name \<in> set (providerTokens cls) \<and> req \<in> set (ingressClass None m cls))"
    and kept: "\<not> read_lost (ls_ingressclasses client)"
  shows "omName object = name \<Longrightarrow> req \<in> set (ingressProvider None m object)"
  using assms(3)
proof
  assume "req \<in> set (ingresses None m providerTokenIndex name)" "omName object = name"
  then show ?thesis by (auto simp: ingressProvider_def Let_def split: sum.split)
next
  assume name: "omName object = name"
  assume "\<exists>cls \<in> set (clIngressClasses cl). name \<in> set (providerTokens cls) \<and> req \<in> set (ingressClass None m cls)"
  then obtain cls where cls: "cls \<in> set (clIngressClasses cl)" "name \<in> set (providerTokens cls)" "req \<in> set (ingressClass None m cls)" by blast
  have "answers gw ''IngressClass'' run_meta (ls_ingressclasses client) (clIngressClasses cl)" using assms(1) by (simp add: cache_doc_def)
  from list_fallback_includes [OF this cls(1) _ kept, of providerTokenIndex name] cls(2)
  obtain items where "list_fallback None (ls_ingressclasses client) providerTokenIndex name = Inr items" "cls \<in> set items"
    by (auto simp: ingress_indexes)
  with cls name show ?thesis
    by (auto simp: ingressProvider_def Let_def assms(2) intro: by_provider_find [where object_of = "\<lambda>c. c"])
qed

lemma routeGatewayClass_find:
  assumes "cache_doc True client cl" "mClient m = client" "gateway \<in> set (clGateways cl)" "GatewayClassName gateway = omName object"
    and "req \<in> set (routeGateway None m (gwMeta gateway))" "\<not> read_lost (ls_gateways client)"
  shows "req \<in> set (routeGatewayClass None m object)"
proof -
  have "answers True ''Gateway'' run_gateway (ls_gateways client) (clGateways cl)" using assms(1) by (simp add: cache_doc_def)
  from list_fallback_includes [OF this assms(3) _ assms(6), of gatewayClassIndex "omName object"] assms(4)
  obtain items where "list_fallback None (ls_gateways client) gatewayClassIndex (omName object) = Inr items" "gateway \<in> set items"
    by (auto simp: gateway_indexes)
  with assms(4,5) show ?thesis by (auto simp: routeGatewayClass_def assms(2))
qed

lemma routeProvider_find:
  assumes doc: "cache_doc True client cl" and m: "mClient m = client"
    and req: "req \<in> set (routes None m providerTokenIndex name) \<or>
      (\<exists>gateway \<in> set (clGateways cl). name \<in> set (providerTokens (gwMeta gateway)) \<and> req \<in> set (routeGateway None m (gwMeta gateway))) \<or>
      (\<exists>cls \<in> set (clGatewayClasses cl). name \<in> set (providerTokens cls) \<and> req \<in> set (routeGatewayClass None m cls))"
    and name: "omName object = name" and kept: "\<not> read_lost (ls_gateways client)" "\<not> read_lost (ls_gatewayclasses client)"
  shows "req \<in> set (routeProvider None m object)"
proof -
  have gateways: "answers True ''Gateway'' run_gateway (ls_gateways client) (clGateways cl)"
    and classes: "answers True ''GatewayClass'' run_meta (ls_gatewayclasses client) (clGatewayClasses cl)"
    using doc by (simp_all add: cache_doc_def)
  consider (own) "req \<in> set (routes None m providerTokenIndex name)"
    | (gateway) gateway where "gateway \<in> set (clGateways cl)" "name \<in> set (providerTokens (gwMeta gateway))"
        "req \<in> set (routeGateway None m (gwMeta gateway))"
    | (cls) cls where "cls \<in> set (clGatewayClasses cl)" "name \<in> set (providerTokens cls)"
        "req \<in> set (routeGatewayClass None m cls)"
    using req by blast
  then show ?thesis
  proof cases
    case own
    then show ?thesis using name by (auto simp: routeProvider_def Let_def split: sum.split)
  next
    case gateway
    from list_fallback_includes [OF gateways gateway(1) _ kept(1), of providerTokenIndex name] gateway(2)
    obtain items where "list_fallback None (ls_gateways client) providerTokenIndex name = Inr items" "gateway \<in> set items"
      by (auto simp: gateway_indexes)
    then show ?thesis using gateway name
      by (auto simp: routeProvider_def Let_def m split: sum.split intro: by_provider_find)
  next
    case cls
    obtain gs where gs: "list_fallback None (ls_gateways client) providerTokenIndex name = Inr gs" using read_kept [OF kept(1)] by blast
    from list_fallback_includes [OF classes cls(1) _ kept(2), of providerTokenIndex name] cls(2)
    obtain items where "list_fallback None (ls_gatewayclasses client) providerTokenIndex name = Inr items" "cls \<in> set items"
      by (auto simp: gateway_indexes)
    then show ?thesis using cls name gs
      by (auto simp: routeProvider_def Let_def m intro: by_provider_find [where object_of = "\<lambda>c. c"])
  qed
qed

section \<open>The keys of what a source depends on\<close>

definition backend_slash :: "Backend \<Rightarrow> string" where
  "backend_slash b = slash (bNamespace b) (bName b)"

lemma service_keys_iff: "k \<in> set (service_keys namespace bs) \<longleftrightarrow> (\<exists>b \<in> set bs. \<exists>name. beService b = Some name \<and> k = slash namespace name)"
  by (auto simp: service_keys_def set_map_filter split: option.splits)

lemma ingressBackend_slash:
  "ingressBackend namespace (Some b) = Some backend \<Longrightarrow> \<exists>name. beService b = Some name \<and> backend_slash backend = slash namespace name"
  by (auto simp: ingressBackend_def backend_slash_def split: option.splits if_splits)

lemma ingress_service_keys:
  assumes "b \<in> ingress_services ing"
  shows "backend_slash b \<in> set (ingressBackendKeys ing)"
proof (cases "b \<in> default_backends ing")
  case True
  then obtain d where "DefaultBackend ing = Some d" "ingressBackend (ing_namespace ing) (Some d) = Some b"
    by (cases "DefaultBackend ing") (auto simp: default_backends_def ingressBackend_def split: option.splits)
  with ingressBackend_slash [of "ing_namespace ing" d b] show ?thesis
    by (auto simp: ingressBackendKeys_def Let_def service_keys_iff)
next
  case False
  then obtain rule paths path where rule: "rule \<in> set (ingRules ing)" "ruleHTTP rule = Some paths" "path \<in> set paths"
    "ingressBackend (ing_namespace ing) (Some path) = Some b"
    using assms by (auto simp: ingress_services_def path_backends_def split: option.splits)
  then have "backend_slash b \<in> set (service_keys (ing_namespace ing) paths)"
    using ingressBackend_slash [OF rule(4)] unfolding service_keys_iff by blast
  with rule(1,2) show ?thesis by (force simp: ingressBackendKeys_def Let_def)
qed

lemma route_service_keys:
  assumes "b \<in> route_services route"
  shows "backend_slash b \<in> set (routeBackendKeys route)"
  using assms
  by (force simp: route_services_def routeBackendKeys_def backend_slash_def ref_namespace_def supported_ref_def serviceKind_def)

lemma route_service_namespaces:
  assumes "b \<in> route_services route" "CHR ''/'' \<notin> set (bNamespace b)"
  shows "bNamespace b \<in> set (routeBackendNamespaces route)"
proof -
  have "before_slash (backend_slash b) = bNamespace b"
    using assms(2) by (simp add: before_slash_def backend_slash_def slash_def takeWhile_append)
  then show ?thesis using route_service_keys [OF assms(1)] by (force simp: routeBackendNamespaces_def)
qed

lemma set_filter_map: "set (filter (\<lambda>y. y \<noteq> z) (map f xs)) = f ` set xs - {z}"
  by auto

lemma set_splitTokens: "set (splitTokens v) = set (commaList v)"
  unfolding splitTokens_def set_keys set_commaList set_filter_map ..

lemma provider_token: "fmlookup (omAnnotations obj) ProvidersAnnotation = Some v \<Longrightarrow> name \<in> set (commaList v) \<Longrightarrow> name \<in> set (providerTokens obj)"
  by (simp add: providerTokens_def get_str_def set_splitTokens)

lemma endpointNodes_iff: "n \<in> set (endpointNodes sl) \<longleftrightarrow> n \<noteq> '''' \<and> (\<exists>e \<in> set (slEndpoints sl). seNodeName e = Some n)"
proof -
  have "(case seNodeName e of None \<Rightarrow> None | Some n' \<Rightarrow> if n' \<noteq> '''' then Some n' else None) = Some n \<longleftrightarrow> seNodeName e = Some n \<and> n \<noteq> ''''" for e
    by (cases "seNodeName e") auto
  then show ?thesis unfolding endpointNodes_def set_keys set_map_filter by blast
qed

section \<open>Events\<close>

text \<open>Two snapshots of the cluster whose differences are announced: for every read that the snapshots
  answer differently there is an event on an object of that name (for EndpointSlices, with that Service
  label; for ReferenceGrants, in that namespace).  Any kind may change, the Ingresses and routes included, by
  creation, update or deletion.\<close>

definition announced :: "watched set \<Rightarrow> reader \<Rightarrow> reader \<Rightarrow> bool" where
  "announced Ws R R' \<longleftrightarrow>
     (\<forall>key. get_ingress R key \<noteq> get_ingress R' key \<longrightarrow> (\<exists>m. WIngress m \<in> Ws \<and> meta_key m = key)) \<and>
     (\<forall>kind key. get_route R kind key \<noteq> get_route R' kind key \<longrightarrow> (\<exists>m. WRoute kind m \<in> Ws \<and> meta_key m = key)) \<and>
     (\<forall>key. get_service R key \<noteq> get_service R' key \<longrightarrow> (\<exists>m. WService m \<in> Ws \<and> meta_key m = key)) \<and>
     (\<forall>ns name. list_slices R ns name \<noteq> list_slices R' ns name \<longrightarrow>
        (\<exists>sl. WSlice sl \<in> Ws \<and> omNamespace (slMeta sl) = ns \<and> get_str (omLabels (slMeta sl)) LabelServiceName = name)) \<and>
     (\<forall>name. get_node R name \<noteq> get_node R' name \<longrightarrow> (\<exists>m. WNode m \<in> Ws \<and> omName m = name)) \<and>
     (\<forall>name. get_provider R name \<noteq> get_provider R' name \<longrightarrow> (\<exists>m. WProvider m \<in> Ws \<and> omName m = name)) \<and>
     (\<forall>name. get_ingressclass R name \<noteq> get_ingressclass R' name \<longrightarrow> (\<exists>m. WIngressClass m \<in> Ws \<and> omName m = name)) \<and>
     (\<forall>key. get_gateway R key \<noteq> get_gateway R' key \<longrightarrow> (\<exists>m. WGateway m \<in> Ws \<and> meta_key m = key)) \<and>
     (\<forall>name. get_gatewayclass R name \<noteq> get_gatewayclass R' name \<longrightarrow> (\<exists>m. WGatewayClass m \<in> Ws \<and> omName m = name)) \<and>
     (\<forall>ns. list_grants R ns \<noteq> list_grants R' ns \<longrightarrow> (\<exists>m. WGrant m \<in> Ws \<and> omNamespace m = ns))"

text \<open>The cache holds what the snapshot returns; the API server admits no empty Service names and no
  namespaces with a slash.\<close>

definition synced :: "reader \<Rightarrow> cluster \<Rightarrow> bool" where
  "synced R cl \<longleftrightarrow>
     (\<forall>key ing. get_ingress R key = Inr ing \<longrightarrow> ing \<in> set (clIngresses cl) \<and> meta_key (ingMeta ing) = key) \<and>
     (\<forall>kind key route. get_route R kind key = Inr route \<longrightarrow>
        route \<in> set (clRoutes cl kind) \<and> meta_key (object_meta route) = key \<and> (\<forall>b \<in> route_services route. CHR ''/'' \<notin> set (bNamespace b))) \<and>
     (\<forall>name cls. get_ingressclass R name = Inr cls \<longrightarrow> cls \<in> set (clIngressClasses cl) \<and> omName cls = name) \<and>
     (\<forall>key gateway. get_gateway R key = Inr gateway \<longrightarrow> gateway \<in> set (clGateways cl) \<and> meta_key (gwMeta gateway) = key) \<and>
     (\<forall>name cls. get_gatewayclass R name = Inr cls \<longrightarrow> cls \<in> set (clGatewayClasses cl) \<and> omName cls = name) \<and>
     (\<forall>ns name slices. list_slices R ns name = Inr slices \<longrightarrow>
        (\<forall>sl \<in> set slices. sl \<in> set (clSlices cl) \<and> omNamespace (slMeta sl) = ns \<and> get_str (omLabels (slMeta sl)) LabelServiceName = name)) \<and>
     (\<forall>ns m. get_service R (ns, '''') \<noteq> Inr m)"

lemma synced_slices: "synced R cl \<Longrightarrow> list_slices R ns name = Inr slices \<Longrightarrow> sl \<in> set slices \<Longrightarrow>
    sl \<in> set (clSlices cl) \<and> omNamespace (slMeta sl) = ns \<and> get_str (omLabels (slMeta sl)) LabelServiceName = name"
  by (simp add: synced_def)

text \<open>What an event puts into the queue of a source's controller, in a mapping run that is not canceled, and
  whether a read of such a run is lost.\<close>

definition events_of :: "lister \<Rightarrow> source_ref \<Rightarrow> watched \<Rightarrow> request list" where
  "events_of client ref W =
     (case ref of
        IngressRef _ \<Rightarrow> enqueued (ingress_controller client) None W
      | RouteRef Kind _ \<Rightarrow> enqueued (route_controller client (routeKind Kind)) None W)"

definition reads_lost :: "lister \<Rightarrow> source_ref \<Rightarrow> bool" where
  "reads_lost client ref =
     (case ref of IngressRef _ \<Rightarrow> ingress_reads_lost client | RouteRef Kind _ \<Rightarrow> route_reads_lost client (routeKind Kind))"

fun ref_key :: "source_ref \<Rightarrow> request" where
  "ref_key (IngressRef key) = key"
| "ref_key (RouteRef _ key) = key"

lemma object_slash_key: "object_slash m = slash (fst (meta_key m)) (snd (meta_key m))"
  by (simp add: object_slash_def meta_key_def)

text \<open>What both kinds of source share: the backends and the Nodes behind them.\<close>

lemma backends_covered:
  assumes events: "announced Ws R R'" and cl: "synced R' cl"
    and service: "\<And>obj. WService obj \<in> Ws \<Longrightarrow> object_slash obj = backend_slash b \<Longrightarrow> False"
    and sl: "\<And>sl. WSlice sl \<in> Ws \<Longrightarrow> endpointService sl = [backend_slash b] \<Longrightarrow> False"
    and node: "\<And>obj sl. WNode obj \<in> Ws \<Longrightarrow> sl \<in> set (clSlices cl) \<Longrightarrow> omName obj \<in> set (endpointNodes sl) \<Longrightarrow>
      backend_slash b \<in> set (endpointService sl) \<Longrightarrow> False"
  shows "same_backend R R' b"
  unfolding same_backend_def
proof (intro conjI allI impI ballI)
  let ?key = "(bNamespace b, bName b)"
  show same: "get_service R ?key = get_service R' ?key"
  proof (rule ccontr)
    assume "get_service R ?key \<noteq> get_service R' ?key"
    then obtain obj where "WService obj \<in> Ws" "meta_key obj = ?key" using events unfolding announced_def by blast
    then show False using service [of obj] by (simp add: object_slash_key backend_slash_def)
  qed
  fix obj assume "get_service R ?key = Inr obj"
  then have name: "bName b \<noteq> ''''" using cl same unfolding synced_def by metis
  have label: "endpointService s = [backend_slash b]"
    if "omNamespace (slMeta s) = bNamespace b" "get_str (omLabels (slMeta s)) LabelServiceName = bName b" for s
    using that name by (simp add: endpointService_def backend_slash_def)
  show slices: "list_slices R (bNamespace b) (bName b) = list_slices R' (bNamespace b) (bName b)"
  proof (rule ccontr)
    assume "list_slices R (bNamespace b) (bName b) \<noteq> list_slices R' (bNamespace b) (bName b)"
    then obtain s where "WSlice s \<in> Ws" "omNamespace (slMeta s) = bNamespace b" "get_str (omLabels (slMeta s)) LabelServiceName = bName b"
      using events unfolding announced_def by blast
    then show False using sl label by blast
  qed
  fix n assume n: "n \<in> slice_nodes R b"
  then have "list_slices R (bNamespace b) (bName b) \<noteq> Inl e" for e by (auto simp: slice_nodes_def)
  then obtain items where items: "list_slices R (bNamespace b) (bName b) = Inr items" by (metis sum.exhaust)
  have "\<exists>s \<in> set items. n \<in> set (endpointNodes s)" using n by (simp add: slice_nodes_def items endpointNodes_iff)
  then obtain s where s: "s \<in> set items" "n \<in> set (endpointNodes s)" by blast
  have "list_slices R' (bNamespace b) (bName b) = Inr items" using items slices by simp
  from synced_slices [OF cl this s(1)] label [of s] have "s \<in> set (clSlices cl)" "endpointService s = [backend_slash b]" by simp_all
  show "get_node R n = get_node R' n"
  proof (rule ccontr)
    assume "get_node R n \<noteq> get_node R' n"
    then obtain obj where "WNode obj \<in> Ws" "omName obj = n" using events unfolding announced_def by blast
    with node [of obj s] s \<open>s \<in> set (clSlices cl)\<close> \<open>endpointService s = _\<close> show False by simp
  qed
qed

section \<open>Completeness\<close>

lemma merged_from_level:
  assumes "fmlookup (MergeAnnotations levels) k = Some v"
  shows "\<exists>level \<in> set levels. fmlookup level k = Some v"
proof -
  have "last_with k levels = Some v"
    using assms by (auto simp: MergeAnnotations_def fmlookup_merge_fold split: if_splits option.splits)
  then show ?thesis by (induction levels) (auto split: option.splits)
qed

lemma announced_facts:
  assumes "announced Ws R R'"
  shows "get_ingress R key \<noteq> get_ingress R' key \<Longrightarrow> \<exists>m. WIngress m \<in> Ws \<and> meta_key m = key"
    "get_route R kind key \<noteq> get_route R' kind key \<Longrightarrow> \<exists>m. WRoute kind m \<in> Ws \<and> meta_key m = key"
    "get_provider R n \<noteq> get_provider R' n \<Longrightarrow> \<exists>m. WProvider m \<in> Ws \<and> omName m = n"
    "get_ingressclass R n \<noteq> get_ingressclass R' n \<Longrightarrow> \<exists>m. WIngressClass m \<in> Ws \<and> omName m = n"
    "get_gateway R key \<noteq> get_gateway R' key \<Longrightarrow> \<exists>m. WGateway m \<in> Ws \<and> meta_key m = key"
    "get_gatewayclass R n \<noteq> get_gatewayclass R' n \<Longrightarrow> \<exists>m. WGatewayClass m \<in> Ws \<and> omName m = n"
    "list_grants R n \<noteq> list_grants R' n \<Longrightarrow> \<exists>m. WGrant m \<in> Ws \<and> omNamespace m = n"
  using assms unfolding announced_def by blast+

lemma synced_facts:
  assumes "synced R cl"
  shows "get_ingress R key = Inr ing \<Longrightarrow> ing \<in> set (clIngresses cl) \<and> meta_key (ingMeta ing) = key"
    "get_route R kind key = Inr route \<Longrightarrow> route \<in> set (clRoutes cl kind) \<and> meta_key (object_meta route) = key"
    "get_route R kind key = Inr route \<Longrightarrow> b \<in> route_services route \<Longrightarrow> CHR ''/'' \<notin> set (bNamespace b)"
    "get_ingressclass R n = Inr cls \<Longrightarrow> cls \<in> set (clIngressClasses cl) \<and> omName cls = n"
    "get_gateway R key = Inr gateway \<Longrightarrow> gateway \<in> set (clGateways cl) \<and> meta_key (gwMeta gateway) = key"
    "get_gatewayclass R n = Inr cls \<Longrightarrow> cls \<in> set (clGatewayClasses cl) \<and> omName cls = n"
  using assms unfolding synced_def by meson+

lemma class_name_key: "class_name ing \<noteq> '''' \<Longrightarrow> class_name ing \<in> set (ingressClassKeys ing)"
  by (auto simp: class_name_def ingressClassKeys_def Let_def split: option.splits)

text \<open>Every event is mapped by a run of its own, \<open>m W\<close>.\<close>

lemma ingress_complete:
  assumes events: "announced Ws R R'" and cl: "synced R' cl" and ing: "get_ingress R' key = Inr ing"
    and cache: "\<And>W. W \<in> Ws \<Longrightarrow> cache_doc gw (mClient (m W)) cl" and kept: "\<And>W. W \<in> Ws \<Longrightarrow> \<not> ingress_reads_lost (mClient (m W))"
    and unmapped: "\<And>W. W \<in> Ws \<Longrightarrow> key \<notin> set (ingress_watches None (m W) W)"
  shows "ingress_decision D R ing = ingress_decision D R' ing"
proof -
  have mem: "ing \<in> set (clIngresses cl)" "meta_key (ingMeta ing) = key" using synced_facts(1) [OF cl ing] by blast+
  have read: "\<not> read_lost (ls_ingresses (mClient (m W)))" "\<not> read_lost (ls_slices (mClient (m W)))"
    "\<not> read_lost (ls_ingressclasses (mClient (m W)))" if "W \<in> Ws" for W
    using kept [OF that] by (simp_all add: ingress_reads_lost_def)
  have find: "key \<in> set (ingresses None (m W) field v)"
    if "W \<in> Ws" "selected gw ''Ingress'' run_ingress (Some (field, v)) ing" for W field v
    using ingresses_find [OF cache [OF that(1)] refl mem(1) that(2) read(1) [OF that(1)]] mem(2) by simp
  have by_class: "key \<in> set (ingressClass None (m W) cls)" if "W \<in> Ws" "omName cls = class_name ing" "class_name ing \<noteq> ''''" for W cls
    unfolding ingressClass_def using that class_name_key by (intro find) (simp_all add: ingress_indexes)
  have by_service: "key \<in> set (ingresses None (m W) backendServiceIndex (backend_slash b))" if "W \<in> Ws" "b \<in> ingress_services ing" for W b
    using that(1) ingress_service_keys [OF that(2)] by (intro find) (simp_all add: ingress_indexes)
  have cls: "get_ingressclass R (class_name ing) = get_ingressclass R' (class_name ing)" if "class_name ing \<noteq> ''''"
  proof (rule ccontr)
    assume "\<not> ?thesis"
    then obtain obj where obj: "WIngressClass obj \<in> Ws" "omName obj = class_name ing" using announced_facts(4) [OF events] by blast
    with unmapped [OF obj(1)] by_class [OF obj(1)] that show False by simp
  qed
  then have vals: "ingress_values R ing = ingress_values R' ing" by (simp add: ingress_values_def Let_def)
  have "get_provider R n = get_provider R' n" if n: "n \<in> named_providers D (ingress_values R ing)" for n
  proof (rule ccontr)
    assume "\<not> ?thesis"
    then obtain obj where obj: "WProvider obj \<in> Ws" "omName obj = n" using announced_facts(3) [OF events] by blast
    obtain vs v where vs: "ingress_values R' ing = Inr vs" "fmlookup vs ProvidersAnnotation = Some v" "n \<in> set (commaList v)"
      using named_providers_tokens [OF n] vals by auto
    consider (own) "n \<in> set (providerTokens (ingMeta ing))"
      | (inherited) cls where "get_ingressclass R' (class_name ing) = Inr cls" "class_name ing \<noteq> ''''" "n \<in> set (providerTokens cls)"
      using vs merged_from_level provider_token
      by (fastforce simp: ingress_values_def Let_def split: if_splits sum.splits)
    then have "key \<in> set (ingressProvider None (m (WProvider obj)) obj)"
    proof cases
      case own
      have "key \<in> set (ingresses None (m (WProvider obj)) providerTokenIndex n)"
        using own obj(1) by (intro find) (simp_all add: ingress_indexes)
      then show ?thesis using ingressProvider_find [OF cache [OF obj(1)] refl _ read(3) [OF obj(1)]] obj(2) by blast
    next
      case inherited
      note synced_facts(4) [OF cl inherited(1)]
      with inherited by_class [OF obj(1)] obj(2) show ?thesis
        using ingressProvider_find [OF cache [OF obj(1)] refl _ read(3) [OF obj(1)]] by blast
    qed
    with unmapped [OF obj(1)] show False by simp
  qed
  moreover have "same_backend R R' b" if b: "b \<in> ingress_services ing" for b
  proof (rule backends_covered [OF events cl])
    note key = by_service [OF _ b]
    show False if "WService obj \<in> Ws" "object_slash obj = backend_slash b" for obj
      using unmapped [OF that(1)] key [OF that(1)] by (simp add: ingressService_def that(2))
    show False if "WSlice sl \<in> Ws" "endpointService sl = [backend_slash b]" for sl
      using unmapped [OF that(1)] key [OF that(1)] by (simp add: ingressSlice_def that(2))
    show False if "WNode obj \<in> Ws" "sl \<in> set (clSlices cl)" "omName obj \<in> set (endpointNodes sl)" "backend_slash b \<in> set (endpointService sl)" for obj sl
      using unmapped [OF that(1)] key [OF that(1)] read(2) [OF that(1)]
        sourcesForNode_find [OF cache [OF that(1)] refl that(2-4), where isRoute = False and req = key] by (simp add: ingressNode_def)
  qed
  ultimately show ?thesis by (intro ingress_decision_cong vals) (simp_all add: same_provider_reads_def)
qed

lemma parent_slash: "ref \<in> set (route_parents route) \<Longrightarrow>
    slash (fst (parent_key (GetNamespace route) ref)) (snd (parent_key (GetNamespace route) ref)) \<in> set (routeParents route)"
  by (auto simp: route_parents_def gateway_parent_def routeParents_def parent_key_def)

lemma parent_chain_levels:
  assumes "parent_chain R route ref = Inr vs"
  shows "\<exists>gateway cls. get_gateway R (parent_key (GetNamespace route) ref) = Inr gateway \<and>
    get_gatewayclass R (GatewayClassName gateway) = Inr cls \<and> vs = MergeAnnotations [omAnnotations cls, omAnnotations (gwMeta gateway), GetAnnotations route]"
  using assms by (auto simp: parent_chain_def Let_def split: sum.splits)

lemma route_values_source:
  assumes "route_values R route = Inr vs"
  shows "vs = MergeAnnotations [GetAnnotations route] \<or> (\<exists>ref \<in> set (route_parents route). parent_chain R route ref = Inr vs)"
proof -
  obtain chs where chs: "traverse (parent_chain R route) (route_parents route) = Inr chs"
    using assms by (auto simp: route_values_def split: sum.splits)
  show ?thesis
  proof (cases chs)
    case Nil
    then show ?thesis using assms chs by (simp add: route_values_def)
  next
    case (Cons c cs)
    then have "vs = c" using assms chs by (simp add: route_values_def split: if_splits)
    with Cons show ?thesis using traverse_Inr_set [OF chs, of c] by auto
  qed
qed

text \<open>The annotations of a route change only with a Gateway or GatewayClass of its parents.\<close>

lemma route_values_covered:
  assumes events: "announced Ws R R'"
    and gateway: "\<And>obj ref. WGateway obj \<in> Ws \<Longrightarrow> ref \<in> set (route_parents route) \<Longrightarrow> meta_key obj = parent_key (GetNamespace route) ref \<Longrightarrow> False"
    and cls: "\<And>obj ref gateway. WGatewayClass obj \<in> Ws \<Longrightarrow> ref \<in> set (route_parents route) \<Longrightarrow>
      get_gateway R' (parent_key (GetNamespace route) ref) = Inr gateway \<Longrightarrow> GatewayClassName gateway = omName obj \<Longrightarrow> False"
  shows "route_values R route = route_values R' route"
proof -
  have "parent_chain R route ref = parent_chain R' route ref" if ref: "ref \<in> set (route_parents route)" for ref
  proof -
    let ?key = "parent_key (GetNamespace route) ref"
    have "get_gateway R ?key = get_gateway R' ?key" using announced_facts(5) [OF events] gateway ref by blast
    moreover have "get_gatewayclass R (GatewayClassName gateway) = get_gatewayclass R' (GatewayClassName gateway)"
      if "get_gateway R' ?key = Inr gateway" for gateway
      using announced_facts(6) [OF events, of "GatewayClassName gateway"] cls [OF _ ref that] by metis
    ultimately show ?thesis by (simp add: parent_chain_def Let_def split: sum.split)
  qed
  then show ?thesis
    unfolding route_values_def using traverse_cong [of "route_parents route" "route_parents route" "parent_chain R route" "parent_chain R' route"] by simp
qed

text \<open>A provider selected by a route has its token on the route, a parent Gateway or that Gateway's class.\<close>

lemma route_provider_levels:
  assumes "n \<in> named_providers D (route_values R route)"
  obtains (own) "n \<in> set (providerTokens (object_meta route))"
    | (gateway) ref gateway where "ref \<in> set (route_parents route)" "get_gateway R (parent_key (GetNamespace route) ref) = Inr gateway"
        "n \<in> set (providerTokens (gwMeta gateway))"
    | (inherited) ref gateway cls where "ref \<in> set (route_parents route)" "get_gateway R (parent_key (GetNamespace route) ref) = Inr gateway"
        "get_gatewayclass R (GatewayClassName gateway) = Inr cls" "n \<in> set (providerTokens cls)"
proof -
  obtain vs v where vs: "route_values R route = Inr vs" "fmlookup vs ProvidersAnnotation = Some v" "n \<in> set (commaList v)"
    using named_providers_tokens [OF assms] by auto
  show thesis
  proof (cases "vs = MergeAnnotations [GetAnnotations route]")
    case True
    then show thesis using merged_from_level vs provider_token own by fastforce
  next
    case False
    then obtain ref where ref: "ref \<in> set (route_parents route)" "parent_chain R route ref = Inr vs" using route_values_source [OF vs(1)] by blast
    obtain gateway cls where g: "get_gateway R (parent_key (GetNamespace route) ref) = Inr gateway"
      "get_gatewayclass R (GatewayClassName gateway) = Inr cls"
      "vs = MergeAnnotations [omAnnotations cls, omAnnotations (gwMeta gateway), GetAnnotations route]" using parent_chain_levels [OF ref(2)] by blast
    obtain level where "level \<in> {omAnnotations cls, omAnnotations (gwMeta gateway), GetAnnotations route}" "fmlookup level ProvidersAnnotation = Some v"
      using merged_from_level [OF vs(2) [unfolded g(3)]] by auto
    then show thesis using own gateway [OF ref(1) g(1)] inherited [OF ref(1) g(1,2)] provider_token vs(3) by blast
  qed
qed

lemma route_complete:
  assumes events: "announced Ws R R'" and cl: "synced R' cl" and route: "get_route R' kind key = Inr route" and kind: "kind \<in> set route_kinds"
    and cache: "\<And>W. W \<in> Ws \<Longrightarrow> cache_doc True (client W) cl" and kept: "\<And>W. W \<in> Ws \<Longrightarrow> \<not> route_reads_lost (client W) kind"
    and unmapped: "\<And>W. W \<in> Ws \<Longrightarrow> key \<notin> set (route_watches None \<lparr>mClient = client W, mRouteKind = kind\<rparr> W)"
  shows "route_decision D R route = route_decision D R' route"
proof -
  define m where "m W = \<lparr>mClient = client W, mRouteKind = kind\<rparr>" for W
  note unmapped = unmapped [folded m_def]
  have client: "mClient (m W) = client W" for W by (simp add: m_def)
  have mem: "route \<in> set (clRoutes cl kind)" "meta_key (object_meta route) = key" using synced_facts(2) [OF cl route] by blast+
  have read: "\<not> read_lost (ls_routes (client W) kind)" "\<not> read_lost (ls_slices (client W))" "\<not> read_lost (ls_gateways (client W))"
    "\<not> read_lost (ls_gatewayclasses (client W))" if "W \<in> Ws" for W
    using kept [OF that] by (simp_all add: route_reads_lost_def)
  have find: "key \<in> set (routes None (m W) field v)" if "W \<in> Ws" "selected True kind run_route (Some (field, v)) route" for W field v
    using routes_find [OF cache [OF that(1)] m_def kind mem(1) that(2) read(1) [OF that(1)]] mem(2) by simp
  note idx = route_index_entries [OF kind]
  have by_gateway: "key \<in> set (routeGateway None (m W) obj)"
    if "W \<in> Ws" "ref \<in> set (route_parents route)" "meta_key obj = parent_key (GetNamespace route) ref" for W obj ref
    unfolding routeGateway_def object_slash_key that(3) using that(1) parent_slash [OF that(2)] by (intro find) (simp_all add: idx)
  have by_class: "key \<in> set (routeGatewayClass None (m W) obj)"
    if "W \<in> Ws" "ref \<in> set (route_parents route)" "get_gateway R' (parent_key (GetNamespace route) ref) = Inr gateway"
      "GatewayClassName gateway = omName obj" for W obj ref gateway
    using synced_facts(5) [OF cl that(3)] by_gateway [OF that(1,2)]
      routeGatewayClass_find [OF cache [OF that(1)] client _ that(4) _ read(3) [OF that(1)]] by blast
  have vals: "route_values R route = route_values R' route"
    using unmapped by_gateway by_class by (intro route_values_covered [OF events]) force+
  have "get_provider R n = get_provider R' n" if n: "n \<in> named_providers D (route_values R route)" for n
  proof (rule ccontr)
    assume "\<not> ?thesis"
    then obtain obj where obj: "WProvider obj \<in> Ws" "omName obj = n" using announced_facts(3) [OF events] by blast
    note found = routeProvider_find [OF cache [OF obj(1)] client _ obj(2) read(3,4) [OF obj(1)]]
    from n [unfolded vals] have "key \<in> set (routeProvider None (m (WProvider obj)) obj)"
    proof (cases rule: route_provider_levels)
      case own
      have "key \<in> set (routes None (m (WProvider obj)) providerTokenIndex n)" using own obj(1) by (intro find) (simp_all add: idx)
      then show ?thesis using found by blast
    next
      case (gateway ref gateway)
      note g = synced_facts(5) [OF cl gateway(2)]
      with gateway(3) by_gateway [OF obj(1) gateway(1)] show ?thesis using found by blast
    next
      case (inherited ref gateway cls)
      note c = synced_facts(6) [OF cl inherited(3)]
      have "key \<in> set (routeGatewayClass None (m (WProvider obj)) cls)" using by_class [OF obj(1) inherited(1,2)] c by simp
      with c inherited(4) show ?thesis using found by blast
    qed
    with unmapped [OF obj(1)] show False by simp
  qed
  moreover have "same_backend R R' b" if b: "b \<in> route_services route" for b
  proof (rule backends_covered [OF events cl])
    have key: "key \<in> set (routes None (m W) backendServiceIndex (backend_slash b))" if "W \<in> Ws" for W
      using that route_service_keys [OF b] by (intro find) (simp_all add: idx)
    show False if "WService obj \<in> Ws" "object_slash obj = backend_slash b" for obj
      using unmapped [OF that(1)] key [OF that(1)] by (simp add: routeService_def that(2))
    show False if "WSlice sl \<in> Ws" "endpointService sl = [backend_slash b]" for sl
      using unmapped [OF that(1)] key [OF that(1)] by (simp add: routeSlice_def that(2))
    show False if "WNode obj \<in> Ws" "sl \<in> set (clSlices cl)" "omName obj \<in> set (endpointNodes sl)" "backend_slash b \<in> set (endpointService sl)" for obj sl
      using unmapped [OF that(1)] key [OF that(1)] read(2) [OF that(1)]
        sourcesForNode_find [OF cache [OF that(1)] client that(2-4), where isRoute = True and req = key] by (simp add: routeNode_def)
  qed
  moreover have "list_grants R (bNamespace b) = list_grants R' (bNamespace b)" if b: "b \<in> route_services route" for b
  proof (rule ccontr)
    assume "\<not> ?thesis"
    then obtain obj where obj: "WGrant obj \<in> Ws" "omNamespace obj = bNamespace b" using announced_facts(7) [OF events] by blast
    have "CHR ''/'' \<notin> set (bNamespace b)" by (rule synced_facts(3) [OF cl route b])
    from route_service_namespaces [OF b this] have "key \<in> set (routes None (m (WGrant obj)) backendNamespaceIndex (bNamespace b))"
      using obj(1) by (intro find) (simp_all add: idx)
    with unmapped [OF obj(1)] obj(2) show False by (simp add: routeGrant_def)
  qed
  ultimately show ?thesis by (intro route_decision_cong vals) (simp_all add: same_provider_reads_def)
qed


text \<open>What the reconciler of a source goes by, from the objects it reads: the failure to read the source, or
  its identity (that of a deleted source when it is not found) with the decision on it.\<close>

definition wanted :: "name_check \<Rightarrow> reader \<Rightarrow> source_ref \<Rightarrow> (Identity \<times> Publication list result) result" where
  "wanted D R ref = (case find_source D R ref of Inl e \<Rightarrow> Inl e | Inr s \<Rightarrow> Inr (srcIdentity s, source_decision D R s))"

lemma wanted_simps:
  "get_ingress R key = Inr ing \<Longrightarrow> wanted D R (IngressRef key) = Inr (ingress_identity ing, ingress_decision D R ing)"
  "get_route R (routeKind Kind) key = Inr route \<Longrightarrow> RouteObject (routeKind Kind) \<noteq> None \<Longrightarrow> RouteKind route = routeKind Kind \<Longrightarrow>
    wanted D R (RouteRef Kind key) = Inr (route_identity (routeKind Kind) route, route_decision D R route)"
  by (simp_all add: wanted_def find_source_def Let_def)

lemma wanted_other:
  "get_ingress R key = Inl e \<Longrightarrow> get_ingress R' key = Inl e \<Longrightarrow> wanted D R (IngressRef key) = wanted D R' (IngressRef key)"
  "RouteObject (routeKind Kind) = None \<Longrightarrow> wanted D R (RouteRef Kind key) = wanted D R' (RouteRef Kind key)"
  "get_route R (routeKind Kind) key = Inl e \<Longrightarrow> get_route R' (routeKind Kind) key = Inl e \<Longrightarrow>
    wanted D R (RouteRef Kind key) = wanted D R' (RouteRef Kind key)"
  "get_route R (routeKind Kind) key = Inr route \<Longrightarrow> get_route R' (routeKind Kind) key = Inr route \<Longrightarrow> RouteKind route \<noteq> routeKind Kind \<Longrightarrow>
    wanted D R (RouteRef Kind key) = wanted D R' (RouteRef Kind key)"
  by (simp_all add: wanted_def find_source_def Let_def)

text \<open>C2: the watches are complete.  Take any change of the cluster from one snapshot to another, of the
  source itself or of anything it depends on, and the events that announce it.  If the change alters what the
  reconciler of a source goes by (whether the source can be read, its identity, or the decision: what to
  publish or why to fail), at least one of the events puts a request for that source into the queue of the
  source's controller; or the mapping run of one of the events could list a kind neither by its index nor in
  full, which \<open>terminalListFailure\<close> logs and drops.  Each event is mapped with answers of its own, from the
  index or, when an indexed read fails, from the full list, of a cache that holds the new snapshot; a
  controller that stops, and so cancels its mapping runs, is outside the statement.\<close>

theorem watches_complete:
  assumes events: "announced Ws R R'" and cl: "synced R' cl" and cache: "\<And>W. W \<in> Ws \<Longrightarrow> cache_doc gw (client W) cl"
    and enabled: "case ref of IngressRef _ \<Rightarrow> True | RouteRef _ _ \<Rightarrow> gw"
    and changed: "wanted D R ref \<noteq> wanted D R' ref"
  shows "\<exists>W \<in> Ws. ref_key ref \<in> set (events_of (client W) ref W) \<or> reads_lost (client W) ref"
proof (rule ccontr)
  assume "\<not> ?thesis"
  then have unmapped: "ref_key ref \<notin> set (events_of (client W) ref W)" and kept: "\<not> reads_lost (client W) ref" if "W \<in> Ws" for W
    using that by blast+
  show False
  proof (cases ref)
    case (IngressRef key)
    have same: "get_ingress R key = get_ingress R' key"
    proof (rule ccontr)
      assume "\<not> ?thesis"
      then obtain obj where "WIngress obj \<in> Ws" "meta_key obj = key" using announced_facts(1) [OF events] by blast
      with unmapped [of "WIngress obj"] IngressRef show False
        by (simp add: events_of_def enqueued_def ingress_controller_def)
    qed
    then obtain ing where ing: "get_ingress R key = Inr ing" "get_ingress R' key = Inr ing"
      using changed wanted_other(1) IngressRef by (metis sum.exhaust)
    have "ingress_decision D R ing = ingress_decision D R' ing"
      by (rule ingress_complete [OF events cl ing(2), of gw "\<lambda>W. newMapper (client W)"])
        (use cache unmapped kept IngressRef in
          \<open>auto simp: events_of_def enqueued_def ingress_controller_def newMapper_def reads_lost_def\<close>)
    then show False using changed IngressRef wanted_simps(1) [OF ing(1)] wanted_simps(1) [OF ing(2)] by simp
  next
    case (RouteRef Kind key)
    let ?kind = "routeKind Kind"
    have supported: "RouteObject ?kind \<noteq> None" using changed wanted_other(2) RouteRef by metis
    then have kind: "?kind \<in> set route_kinds" by (auto simp: RouteObject_def route_kinds_def split: if_splits)
    have same: "get_route R ?kind key = get_route R' ?kind key"
    proof (rule ccontr)
      assume "\<not> ?thesis"
      then obtain obj where "WRoute ?kind obj \<in> Ws" "meta_key obj = key" using announced_facts(2) [OF events] by blast
      with unmapped [of "WRoute ?kind obj"] RouteRef show False
        by (simp add: events_of_def enqueued_def route_controller_def)
    qed
    then obtain route where route: "get_route R ?kind key = Inr route" "get_route R' ?kind key = Inr route"
      using changed wanted_other(3) RouteRef by (metis sum.exhaust)
    then have read: "RouteKind route = ?kind" using changed wanted_other(4) RouteRef by metis
    have "route_decision D R route = route_decision D R' route"
      by (rule route_complete [OF events cl route(2) kind, of client])
        (use cache enabled unmapped kept RouteRef in \<open>auto simp: events_of_def enqueued_def route_controller_def reads_lost_def\<close>)
    then show False
      using changed RouteRef wanted_simps(2) [OF route(1) supported read] wanted_simps(2) [OF route(2) supported read] by simp
  qed
qed

text \<open>A Node that gets another address, in the sample cluster.\<close>

definition ideal_client :: "bool \<Rightarrow> cluster \<Rightarrow> lister" where
  "ideal_client gw cl =
     \<lparr>ls_ingresses = (\<lambda>sel. Inr (filter (selected gw ''Ingress'' run_ingress sel) (clIngresses cl))),
      ls_routes = (\<lambda>kind sel. Inr (filter (selected gw kind run_route sel) (clRoutes cl kind))),
      ls_slices = (\<lambda>sel. Inr (filter (selected gw ''EndpointSlice'' run_slice sel) (clSlices cl))),
      ls_gateways = (\<lambda>sel. Inr (filter (selected gw ''Gateway'' run_gateway sel) (clGateways cl))),
      ls_gatewayclasses = (\<lambda>sel. Inr (filter (selected gw ''GatewayClass'' run_meta sel) (clGatewayClasses cl))),
      ls_ingressclasses = (\<lambda>sel. Inr (filter (selected gw ''IngressClass'' run_meta sel) (clIngressClasses cl)))\<rparr>"

lemma ideal_cache_doc: "cache_doc gw (ideal_client gw cl) cl"
  by (auto simp: cache_doc_def answers_def ideal_client_def)

definition sample_cluster :: cluster where
  "sample_cluster =
     \<lparr>clIngresses = [sample_ingress], clRoutes = (\<lambda>_. []), clSlices = [sample_slice], clGateways = [], clGatewayClasses = [],
      clIngressClasses = []\<rparr>"

definition moved_node :: ObjectMeta where
  "moved_node = sample_meta '''' ''n1'' (fmap_of_list [(''lan-ip'', ''192.0.2.7'')]) fmempty"

definition moved_reader :: reader where
  "moved_reader = sample_reader\<lparr>get_node := (\<lambda>name. if name = ''n1'' then Inr moved_node else absent)\<rparr>"

lemma moved_decision:
  "case source_decision dns1123_ref moved_reader (ingress_source dns1123_ref moved_reader sample_ingress) of
     Inl _ \<Rightarrow> False
   | Inr pubs \<Rightarrow> map (\<lambda>p. (ProviderName p, map (\<lambda>r. (rDNSName r, rRecordType r, rTargets r)) (Records p))) pubs =
       [(''lan'', [(''app.example.com'', ''A'', [''192.0.2.7''])])]"
  by code_simp

lemma moved_announced: "announced {WNode moved_node} sample_reader moved_reader"
  unfolding announced_def by (simp add: moved_reader_def sample_reader_def absent_def moved_node_def sample_meta_def)

lemma moved_synced: "synced moved_reader sample_cluster"
  unfolding synced_def
  by (simp add: moved_reader_def sample_reader_def absent_def sample_cluster_def sample_slice_def sample_ingress_def sample_meta_def
      meta_key_def LabelServiceName_def get_str_def fmlookup_of_list)

lemma ideal_keeps: "\<not> reads_lost (ideal_client gw cl) ref"
  by (simp add: reads_lost_def ingress_reads_lost_def route_reads_lost_def read_lost_def ideal_client_def list_fallback_def
      list_objects_def split: source_ref.split)

text \<open>The sample Ingress deleted: an event of its own.\<close>

definition emptied_reader :: reader where
  "emptied_reader = sample_reader\<lparr>get_ingress := (\<lambda>_. absent)\<rparr>"

lemma emptied_announced: "announced {WIngress (ingMeta sample_ingress)} sample_reader emptied_reader"
  unfolding announced_def
  by (simp add: emptied_reader_def sample_reader_def absent_def sample_ingress_def sample_meta_def meta_key_def)

lemma emptied_synced: "synced emptied_reader (sample_cluster\<lparr>clIngresses := []\<rparr>)"
  unfolding synced_def
  by (simp add: emptied_reader_def sample_reader_def absent_def sample_cluster_def sample_slice_def sample_meta_def
      LabelServiceName_def get_str_def fmlookup_of_list)

lemma wanted_sample:
  "wanted dns1123_ref sample_reader (IngressRef (''apps'', ''web'')) =
     Inr (sample_identity, source_decision dns1123_ref sample_reader (ingress_source dns1123_ref sample_reader sample_ingress))"
  by (simp add: wanted_def sample_found ingress_source_def sample_identity_ingress)

theorem watches_complete_witness:
  "(''apps'', ''web'') \<in> set (events_of (ideal_client False sample_cluster) (IngressRef (''apps'', ''web'')) (WNode moved_node)) \<and>
   (''apps'', ''web'') \<in> set (events_of (ideal_client False (sample_cluster\<lparr>clIngresses := []\<rparr>)) (IngressRef (''apps'', ''web''))
     (WIngress (ingMeta sample_ingress)))"
proof
  have found: "find_source dns1123_ref moved_reader (IngressRef (''apps'', ''web'')) =
      Inr (ingress_source dns1123_ref moved_reader sample_ingress)"
    by (simp add: find_source_def moved_reader_def sample_reader_def)
  have "wanted dns1123_ref sample_reader (IngressRef (''apps'', ''web'')) \<noteq> wanted dns1123_ref moved_reader (IngressRef (''apps'', ''web''))"
    using sample_decision moved_decision unfolding wanted_sample by (auto simp: wanted_def found split: sum.splits)
  from watches_complete [OF moved_announced moved_synced, of False "\<lambda>_. ideal_client False sample_cluster", OF ideal_cache_doc _ this] ideal_keeps
  show "(''apps'', ''web'') \<in> set (events_of (ideal_client False sample_cluster) (IngressRef (''apps'', ''web'')) (WNode moved_node))" by simp
  let ?cl = "sample_cluster\<lparr>clIngresses := []\<rparr>"
  have "wanted dns1123_ref emptied_reader (IngressRef (''apps'', ''web'')) = Inr (deleted_identity networking_v1 SourceKindIngress (''apps'', ''web''), Inr [])"
    by (simp add: wanted_def find_source_def emptied_reader_def sample_reader_def absent_def IsNotFound_def)
  then have "wanted dns1123_ref sample_reader (IngressRef (''apps'', ''web'')) \<noteq> wanted dns1123_ref emptied_reader (IngressRef (''apps'', ''web''))"
    using sample_decision unfolding wanted_sample by (auto split: sum.splits)
  from watches_complete [OF emptied_announced emptied_synced, of False "\<lambda>_. ideal_client False ?cl", OF ideal_cache_doc _ this] ideal_keeps
  show "(''apps'', ''web'') \<in> set (events_of (ideal_client False ?cl) (IngressRef (''apps'', ''web'')) (WIngress (ingMeta sample_ingress)))" by simp
qed

text \<open>C39: the objects the writer makes lead back to their source.  An event on a DNSEndpoint that \<open>build\<close> has
  made for an Ingress, or for a route of the controller's kind, is mapped to exactly the request for that
  source, and to none by the other controllers.\<close>

theorem endpoint_watch_roundtrip:
  assumes "build now identity provider pub current = Inr (Some obj)" "omAnnotations object = mAnnotations obj"
  shows "ingressEndpoint object = (if iKind identity = SourceKindIngress then [(iNamespace identity, iName identity)] else []) \<and>
    routeEndpoint m object = (if iKind identity = mRouteKind m then [(iNamespace identity, iName identity)] else [])"
proof -
  obtain p where "finish_build identity provider pub current p = Inr (Some obj)"
    using assms(1) by (auto simp: build_finish Let_def split: sum.splits prod.splits)
  from finish_build_object [OF this] obtain has lc base
    where "mAnnotations obj = build_annotations identity pub has lc base" by blast
  then have "get_str (omAnnotations object) SourceKindAnnotation = iKind identity"
    "get_str (omAnnotations object) SourceNamespaceAnnotation = iNamespace identity"
    "get_str (omAnnotations object) SourceNameAnnotation = iName identity"
    unfolding assms(2) get_str_def by (simp_all add: build_annotations_fmlookup annotation_keys)
  then show ?thesis
    by (simp add: ingressEndpoint_def routeEndpoint_def annotated_source_def SourceKindAnnotation_def SourceNamespaceAnnotation_def
        SourceNameAnnotation_def)
qed

theorem endpoint_watch_roundtrip_witness:
  "\<exists>obj. build sample_now sample_identity ''lan'' sample_publication None = Inr (Some obj) \<and>
     ingressEndpoint (sample_meta ''apps'' ''x'' fmempty (mAnnotations obj)) = [(''apps'', ''web'')]"
proof -
  obtain obj where b: "build sample_now sample_identity ''lan'' sample_publication None = Inr (Some obj)" by (rule sample_build)
  with endpoint_watch_roundtrip [OF b, of "sample_meta ''apps'' ''x'' fmempty (mAnnotations obj)"] show ?thesis
    by (simp add: sample_meta_def sample_identity_def)
qed

end
