(* ===== verification/Lifecycle_Controller.thy ===== *)
theory Lifecycle_Controller
  imports Source_Correct
begin

text \<open>
  \<^verbatim>\<open>internal/controller/lifecycle_controller.go\<close>: the reconciler of DNSEndpoints, which checks that a managed
  object is consistent, retires it when its source is gone (or belongs to a Gateway kind that is not
  enabled), and expires its pending targets.  As for the source controllers the client, the output and the
  clock are parameters; \<open>lcGet\<close> is the cached DNSEndpoint, the sources are read through the \<open>reader\<close>.  The
  events of a failure are the texts that reach the recorder.
\<close>

section \<open>Configuration and state\<close>

record 'w lc_env =
  lcGet :: "object_key \<Rightarrow> DNSEndpoint result"
  lcR :: reader
  lcApply :: "Identity \<Rightarrow> Publication list \<Rightarrow> 'w \<Rightarrow> goerr option \<times> 'w"
  lcAdvance :: "object_key \<Rightarrow> 'w \<Rightarrow> (int \<times> goerr option) \<times> 'w"
  lcRecorder :: bool
  lcGatewayEnabled :: bool
  lcClock :: "nat \<Rightarrow> int"

record 'w lctl =
  lOut :: 'w
  lMetrics :: "Metrics option"
  lEvents :: "string list"
  lTick :: nat

type_synonym ctrl_result = "int \<times> goerr option"

definition no_requeue :: "goerr option \<Rightarrow> ctrl_result" where
  "no_requeue err = (0, err)"

section \<open>Helpers\<close>

definition isGatewayRoute :: "SourceKind \<Rightarrow> bool" where
  "isGatewayRoute kind \<longleftrightarrow> kind = SourceKindHTTPRoute \<or> kind = SourceKindTCPRoute \<or> kind = SourceKindUDPRoute"

definition lifecycle_source :: "'w lc_env \<Rightarrow> Identity \<Rightarrow> (bool \<times> string) result" where
  "lifecycle_source E identity =
     (let key = (iNamespace identity, iName identity);
          got = (if iKind identity = SourceKindIngress then map_sum id (\<lambda>ing. omUID (ingMeta ing)) (get_ingress (lcR E) key)
                 else map_sum id GetUID (get_route (lcR E) (iKind identity) key))
      in case got of
           Inl e \<Rightarrow>
             (if IsNotFound e then Inr (False, '''')
              else Inl (WrapErr (Sprintf ''verify source %s %s/%s: ''
                     [FStr (iKind identity), FStr (iNamespace identity), FStr (iName identity)]) e))
         | Inr uid \<Rightarrow> Inr (True, uid))"

definition failure :: "'w lc_env \<Rightarrow> goerr \<Rightarrow> 'w lctl \<Rightarrow> 'w lctl" where
  "failure E e st = (if lcRecorder E then st\<lparr>lEvents := lEvents st @ [Error e]\<rparr> else st)"

definition terminalFailure :: "'w lc_env \<Rightarrow> goerr \<Rightarrow> 'w lctl \<Rightarrow> goerr \<times> 'w lctl" where
  "terminalFailure E e st = (TerminalErr e, failure E e st)"

definition outputFailure :: "'w lc_env \<Rightarrow> goerr \<Rightarrow> 'w lctl \<Rightarrow> goerr \<times> 'w lctl" where
  "outputFailure E e st = (if IsInvalidState e then TerminalErr e else e, failure E e st)"

definition set_endpoint_metric :: "string \<Rightarrow> bool \<Rightarrow> int \<Rightarrow> 'w lctl \<Rightarrow> 'w lctl" where
  "set_endpoint_metric key managed pending st = st\<lparr>lMetrics := SetEndpoint key managed pending (lMetrics st)\<rparr>"

definition endpoint_identity :: "DNSEndpoint \<Rightarrow> Identity" where
  "endpoint_identity object =
     (let kind = get_str (mAnnotations object) SourceKindAnnotation
      in \<lparr>iAPIVersion = (if kind = SourceKindIngress then networking_v1 else if isGatewayRoute kind then gateway_v1 else ''''),
          iKind = kind, iNamespace = get_str (mAnnotations object) SourceNamespaceAnnotation,
          iName = get_str (mAnnotations object) SourceNameAnnotation, iUID = get_str (mAnnotations object) SourceUIDAnnotation\<rparr>)"

definition inconsistent :: "DNSEndpoint \<Rightarrow> Identity \<Rightarrow> bool" where
  "inconsistent object identity \<longleftrightarrow>
     (let provider = get_str (mLabels object) ProviderLabel in
      iNamespace identity = '''' \<or> iName identity = '''' \<or> iUID identity = '''' \<or> provider = '''' \<or>
      mNamespace object \<noteq> iNamespace identity \<or> get_str (mLabels object) SourceKeyLabel \<noteq> SourceKey identity \<or>
      mName object \<noteq> ObjectName identity provider)"

section \<open>Reconcile\<close>

definition lifecycle_advance :: "'w lc_env \<Rightarrow> object_key \<Rightarrow> 'w lctl \<Rightarrow> ctrl_result \<times> 'w lctl" where
  "lifecycle_advance E key st =
     (case lcAdvance E key (lOut st) of
        ((next, Some e), w) \<Rightarrow> (let (e', st') = outputFailure E e (st\<lparr>lOut := w\<rparr>) in (no_requeue (Some e'), st'))
      | ((next, None), w) \<Rightarrow> ((next, None), st\<lparr>lOut := w\<rparr>))"

definition lifecycle_retire :: "'w lc_env \<Rightarrow> Identity \<Rightarrow> object_key \<Rightarrow> 'w lctl \<Rightarrow> ctrl_result \<times> 'w lctl" where
  "lifecycle_retire E identity key st =
     (case lcApply E identity [] (lOut st) of
        (Some e, w) \<Rightarrow> (let (e', st') = outputFailure E e (st\<lparr>lOut := w\<rparr>) in (no_requeue (Some e'), st'))
      | (None, w) \<Rightarrow> lifecycle_advance E key (st\<lparr>lOut := w\<rparr>))"

definition lifecycle_body :: "'w lc_env \<Rightarrow> object_key \<Rightarrow> 'w lctl \<Rightarrow> ctrl_result \<times> 'w lctl" where
  "lifecycle_body E key st =
     (let metricKey = fst key @ ''/'' @ snd key;
          fail = (\<lambda>e st. let (e', st') = terminalFailure E e st in (no_requeue (Some e'), st'))
      in case lcGet E key of
           Inl e \<Rightarrow>
             (if IsNotFound e then (no_requeue None, set_endpoint_metric metricKey False 0 st)
              else (no_requeue (Some e), st))
         | Inr object \<Rightarrow>
             (if get_str (mLabels object) ManagedByLabel \<noteq> ManagedByValue
              then (no_requeue None, set_endpoint_metric metricKey False 0 st)
              else case PendingTargetCount (get_str (mAnnotations object) LifecycleAnnotation) of
                Inl e \<Rightarrow> fail e st
              | Inr pending \<Rightarrow>
                  (let st1 = set_endpoint_metric metricKey True pending st; identity = endpoint_identity object
                   in if iKind identity \<noteq> SourceKindIngress \<and> \<not> isGatewayRoute (iKind identity)
                      then fail (ErrMsg (Sprintf ''unsupported source kind %q'' [FStr (iKind identity)])) st1
                      else if inconsistent object identity
                      then fail (ErrMsg ''inconsistent managed source identity metadata'') st1
                      else if isGatewayRoute (iKind identity) \<and> \<not> lcGatewayEnabled E
                      then lifecycle_retire E identity key st1
                      else case lifecycle_source E identity of
                        Inl e \<Rightarrow> (no_requeue (Some e), st1)
                      | Inr (exists, uid) \<Rightarrow>
                          (if \<not> exists then lifecycle_retire E identity key st1
                           else if uid \<noteq> iUID identity then (no_requeue None, st1)
                           else lifecycle_advance E key st1))))"

definition lifecycle_Reconcile :: "'w lc_env \<Rightarrow> object_key \<Rightarrow> 'w lctl \<Rightarrow> ctrl_result \<times> 'w lctl" where
  "lifecycle_Reconcile E key st =
     (let started = lcClock E (lTick st); ((next, err), st1) = lifecycle_body E key (st\<lparr>lTick := lTick st + 1\<rparr>)
      in ((next, err),
          st1\<lparr>lMetrics := Observe ''lifecycle'' (time_Sub (lcClock E (lTick st1)) started) (err \<noteq> None) (lMetrics st1), lTick := lTick st1 + 1\<rparr>))"

section \<open>What Advance does to the objects\<close>

text \<open>The retry loop around \<^verbatim>\<open>Advance\<close> runs on the world and the shared variable \<open>next\<close>.\<close>

definition advance_env :: "'w kube \<Rightarrow> 'w world_view \<Rightarrow> ('w \<times> int) retrier \<Rightarrow> bool" where
  "advance_env K view retry \<longleftrightarrow>
     api_doc K view \<and> retry_doc (\<lambda>s s'. view (fst s') = view (fst s) \<and> snd s' = snd s) retry \<and> (\<forall>w. valid_time (clock_now K w))"

definition managed_object :: "DNSEndpoint option \<Rightarrow> bool" where
  "managed_object cur \<longleftrightarrow> (\<exists>obj. cur = Some obj \<and> get_str (mLabels obj) ManagedByLabel = ManagedByValue)"

definition advanced :: "DNSEndpoint option \<Rightarrow> DNSEndpoint option \<Rightarrow> bool" where
  "advanced before after \<longleftrightarrow>
     after = before \<or>
     managed_object before \<and> current_ok after \<and> (\<exists>now. status_of after = expire_status now (status_of before)) \<and>
     (\<forall>obj obj'. before = Some obj \<longrightarrow> after = Some obj' \<longrightarrow> mLabels obj' = mLabels obj)"

definition expired :: "DNSEndpoint option \<Rightarrow> DNSEndpoint option \<Rightarrow> bool" where
  "expired before after \<longleftrightarrow> (\<exists>now. status_of after = expire_status now (status_of before))"

lemma advance_object_update:
  "advance_object now next obj = (next', Inr (UpdateObject obj')) \<Longrightarrow>
     obj_key obj' = obj_key obj \<and> mLabels obj' = mLabels obj \<and> ResourceVersion obj' = ResourceVersion obj"
  by (auto simp: advance_object_def Let_def obj_key_def split: option.splits sum.splits prod.splits if_splits)

lemma expire_status_empty [simp]: "expire_status now Map.empty = Map.empty"
  by (rule ext) (simp add: expire_status_def)

lemma advance_attempt_effect:
  assumes env: "advance_env K view retry" and ok: "current_ok (view w key)"
    and run: "advance_attempt K key (w, next) = (err, w', next')"
  shows "\<exists>cur. view w' = (view w)(key := cur) \<and> advanced (view w key) cur \<and> (err \<noteq> None \<longrightarrow> cur = view w key) \<and>
    (err = None \<longrightarrow> view w key = None \<or> managed_object (view w key) \<longrightarrow> expired (view w key) cur)"
proof -
  have api: "api_doc K view" using env by (simp add: advance_env_def)
  obtain got w1 where got: "get_endpoint K key w = (got, w1)" by fastforce
  note get = api_get [OF api got]
  have same: ?thesis if "view w' = view w" "err = None \<Longrightarrow> view w key = None \<or> managed_object (view w key) \<Longrightarrow> expired (view w key) (view w key)"
    using that by (intro exI [of _ "view w key"]) (simp add: advanced_def)
  show ?thesis
  proof (cases got)
    case (Inl e)
    then show ?thesis using run got get(1) get(3) [OF Inl]
      by (intro same) (auto simp: advance_attempt_def expired_def status_of_def managed_object_def split: if_splits)
  next
    case (Inr obj)
    then have obj: "view w key = Some obj" "obj_key obj = key" using get(2) by simp_all
    show ?thesis
    proof (cases "get_str (mLabels obj) ManagedByLabel = ManagedByValue")
      case False
      then show ?thesis using run got Inr get(1) obj by (intro same) (auto simp: advance_attempt_def managed_object_def)
    next
      case True
      have "valid_object obj" using ok obj by (simp add: current_ok_def)
      then obtain a where a: "advance_object (clock_now K w1) next obj = (foldl shorter next (remaining_times (clock_now K w1) (obj_pending obj)), Inr a)"
        "current_ok (after_action a obj)" "status_of (after_action a obj) = expire_status (clock_now K w1) (obj_status obj)"
        by (rule advance_refines)
      have exp: "expired (view w key) (after_action a obj)" using a(3) by (auto simp: expired_def obj status_of_def)
      have managed: "managed_object (view w key)" using True obj by (simp add: managed_object_def)
      show ?thesis
      proof (cases a)
        case Nothing
        then show ?thesis using run got Inr True a(1) get(1) exp obj by (intro same) (simp_all add: advance_attempt_def after_action_def)
      next
        case DeleteObject
        then have d: "delete_endpoint K obj (ResourceVersion obj) w1 = (err, w')"
          using run got Inr True a(1) by (simp add: advance_attempt_def split: prod.splits)
        show ?thesis
        proof (cases err)
          case (Some e)
          then show ?thesis using api_delete(1) [OF api d Some] get(1) by (intro same) simp_all
        next
          case None
          then show ?thesis using api_delete(2) [OF api d None] get(1) obj exp a(2) managed DeleteObject
            by (intro exI [of _ None]) (auto simp: advanced_def after_action_def expired_def)
        qed
      next
        case (UpdateObject new)
        note keeps = advance_object_update [OF a(1) [unfolded UpdateObject]]
        have u: "update_endpoint K new w1 = (err, w')"
          using run got Inr True a(1) UpdateObject by (simp add: advance_attempt_def split: prod.splits)
        show ?thesis
        proof (cases err)
          case (Some e)
          then show ?thesis using api_update(1) [OF api u Some] get(1) by (intro same) simp_all
        next
          case None
          then obtain stored where stored: "same_content stored new" "view w' = (view w1)(obj_key new \<mapsto> stored)"
            using api_update(2) [OF api u None] by blast
          have facts: "status_of (Some stored) = status_of (Some new)" "current_ok (Some stored) = current_ok (Some new)" "mLabels stored = mLabels new"
            using same_content_facts [OF stored(1)] by (simp_all add: status_of_def current_ok_def)
          show ?thesis using stored(2) get(1) obj exp a(2) managed UpdateObject keeps facts None
            by (intro exI [of _ "Some stored"]) (auto simp: advanced_def after_action_def expired_def)
        qed
      qed
    qed
  qed
qed

lemma Advance_effect:
  assumes env: "advance_env K view retry" and ok: "current_ok (view w key)" and run: "Advance K retry key w = ((next, err), w')"
  shows "\<exists>cur. view w' = (view w)(key := cur) \<and> advanced (view w key) cur \<and>
    (err = None \<longrightarrow> view w key = None \<or> managed_object (view w key) \<longrightarrow> expired (view w key) cur)"
proof -
  let ?f = "advance_attempt K key"
  have r: "retried (\<lambda>s s'. view (fst s') = view (fst s) \<and> snd s' = snd s) ?f (w, 0) (retry ?f (w, 0))"
    using env by (simp add: advance_env_def retry_doc_def)
  have out: "retry ?f (w, 0) = (err, w', next)" using run by (simp add: Advance_def split: prod.splits)
  have "\<exists>cur. view (fst (snd o')) = (view (fst s))(key := cur) \<and> advanced (view (fst s) key) cur \<and>
      (fst o' = None \<longrightarrow> view (fst s) key = None \<or> managed_object (view (fst s) key) \<longrightarrow> expired (view (fst s) key) cur)"
    if "retried (\<lambda>s s'. view (fst s') = view (fst s) \<and> snd s' = snd s) ?f s o'" "current_ok (view (fst s) key)" for s o'
    using that
  proof (induction rule: retried.induct)
    case (last s)
    obtain u n where s: "s = (u, n)" by fastforce
    obtain e u' n' where run: "?f (u, n) = (e, u', n')" by (cases "?f (u, n)") auto
    have "\<exists>cur. view u' = (view u)(key := cur) \<and> advanced (view u key) cur \<and> (e \<noteq> None \<longrightarrow> cur = view u key) \<and>
      (e = None \<longrightarrow> view u key = None \<or> managed_object (view u key) \<longrightarrow> expired (view u key) cur)"
      using last by (intro advance_attempt_effect [OF env _ run]) (simp add: s)
    then obtain cur where cur: "view u' = (view u)(key := cur)" "advanced (view u key) cur"
      "e = None \<longrightarrow> view u key = None \<or> managed_object (view u key) \<longrightarrow> expired (view u key) cur" by blast
    have eqs: "view (fst (snd (?f s))) = view u'" "view (fst s) = view u" "fst (?f s) = e" by (simp_all add: s run)
    show ?case unfolding eqs using cur by blast
  next
    case (again s e s1 s2 out)
    obtain u n u1 n1 where s: "s = (u, n)" "s1 = (u1, n1)" by (cases s; cases s1) auto
    have "view u1 = view u"
      using advance_attempt_effect [OF env, of u key n "Some e" u1 n1] again.prems again.hyps(1) unfolding s by auto
    then have "view (fst s2) = view (fst s)" using again.hyps(3) s by simp
    with again.IH again.prems show ?case by simp
  qed
  from this [OF r] ok out show ?thesis by simp
qed


section \<open>What a reconciliation may do\<close>

text \<open>The decision, apart from how it is carried out: leave the objects alone, expire what is due, or retire
  everything this source published.\<close>

datatype verdict = Leave | Keep | Retire

definition supported_kind :: "string \<Rightarrow> bool" where
  "supported_kind kind \<longleftrightarrow> kind = SourceKindIngress \<or> isGatewayRoute kind"

definition verdict :: "'w lc_env \<Rightarrow> DNSEndpoint \<Rightarrow> verdict" where
  "verdict E object =
     (let identity = endpoint_identity object in
      if get_str (mLabels object) ManagedByLabel \<noteq> ManagedByValue then Leave
      else if \<not> isl (parseLifecycle (get_str (mAnnotations object) LifecycleAnnotation)) \<and> supported_kind (iKind identity) \<and>
              \<not> inconsistent object identity
      then (if isGatewayRoute (iKind identity) \<and> \<not> lcGatewayEnabled E then Retire
            else case lifecycle_source E identity of
                   Inl _ \<Rightarrow> Leave
                 | Inr (found, uid) \<Rightarrow> (if \<not> found then Retire else if uid = iUID identity then Keep else Leave))
      else Leave)"

definition list_doc :: "'w kube \<Rightarrow> 'w world_view \<Rightarrow> bool" where
  "list_doc K view \<longleftrightarrow>
     (\<forall>ns ls w items w' key obj. list_endpoints K ns ls w = (Inr items, w') \<longrightarrow> view w key = Some obj \<longrightarrow> fst key = ns \<longrightarrow>
        (\<forall>(k, v) \<in> set ls. get_str (mLabels obj) k = v) \<longrightarrow> obj \<in> set items)"

definition lifecycle_env :: "'w kube \<Rightarrow> 'w world_view \<Rightarrow> 'w retrier \<Rightarrow> ('w \<times> int) retrier \<Rightarrow> 'w lc_env \<Rightarrow> bool" where
  "lifecycle_env K view retry retryNext E \<longleftrightarrow>
     writer_env K view retry \<and> advance_env K view retryNext \<and> list_doc K view \<and>
     lcApply E = Apply K retry \<and> lcAdvance E = Advance K retryNext"

definition retired :: "object_key \<Rightarrow> (object_key \<Rightarrow> DNSEndpoint option) \<Rightarrow> (object_key \<Rightarrow> DNSEndpoint option) \<Rightarrow> bool" where
  "retired key before after \<longleftrightarrow>
     (\<exists>now delay now'. (\<forall>obj. before key = Some obj \<longrightarrow> obj_delay obj = Some delay) \<and>
        status_of (after key) = expire_status now' (sync_status now delay {} (status_of (before key))))"

fun permitted :: "verdict \<Rightarrow> Identity \<Rightarrow> object_key \<Rightarrow> bool \<Rightarrow> (object_key \<Rightarrow> DNSEndpoint option) \<Rightarrow> (object_key \<Rightarrow> DNSEndpoint option) \<Rightarrow> bool" where
  "permitted Leave identity key failed before after \<longleftrightarrow> after = before"
| "permitted Keep identity key failed before after \<longleftrightarrow>
     (\<exists>cur. after = before(key := cur) \<and> advanced (before key) cur \<and> (failed \<or> expired (before key) cur))"
| "permitted Retire identity key failed before after \<longleftrightarrow> confined identity before after \<and> (failed \<or> retired key before after)"

lemma lOut_failure [simp]:
  "lOut (snd (terminalFailure E e st)) = lOut st" "lOut (snd (outputFailure E e st)) = lOut st" "lOut (set_endpoint_metric k m p st) = lOut st"
  by (simp_all add: terminalFailure_def outputFailure_def failure_def set_endpoint_metric_def)

lemma lOut_failure_dest [dest]:
  "terminalFailure E e st = (e', st') \<Longrightarrow> lOut st' = lOut st" "outputFailure E e st = (e', st') \<Longrightarrow> lOut st' = lOut st"
  by (metis lOut_failure(1) snd_conv) (metis lOut_failure(2) snd_conv)

lemma lifecycle_advance_effect:
  assumes env: "lifecycle_env K view retry retryNext E" and ok: "current_ok (view (lOut st) key)"
    and managed: "view (lOut st) key = None \<or> managed_object (view (lOut st) key)"
    and run: "lifecycle_advance E key st = ((next, err), st')"
  shows "\<exists>cur. view (lOut st') = (view (lOut st))(key := cur) \<and> advanced (view (lOut st) key) cur \<and>
    (err \<noteq> None \<or> expired (view (lOut st) key) cur)"
proof -
  obtain n e w where adv: "Advance K retryNext key (lOut st) = ((n, e), w)" by (metis prod.exhaust)
  have "lcAdvance E key (lOut st) = ((n, e), w)" using env adv by (simp add: lifecycle_env_def)
  then have same: "lOut st' = w \<and> (err = None \<longrightarrow> e = None)"
    using run by (cases e) (auto simp: lifecycle_advance_def no_requeue_def split: prod.splits)
  have "advance_env K view retryNext" using env by (simp add: lifecycle_env_def)
  from Advance_effect [OF this ok adv] managed same show ?thesis by blast
qed

lemma advanced_confined:
  assumes "advanced (before key) cur" "\<forall>obj. before key = Some obj \<longrightarrow> owns identity obj" "key = name_of identity provider"
  shows "confined identity before (before(key := cur))"
proof -
  have "owns identity new" if new: "cur = Some new" "cur \<noteq> before key" for new
  proof -
    obtain obj where "before key = Some obj" "mLabels new = mLabels obj"
      using assms(1) new unfolding advanced_def managed_object_def by blast
    with assms(2) show ?thesis by (simp add: owns_def owned_by_def)
  qed
  then have "cur \<noteq> before key \<Longrightarrow> (\<forall>old. before key = Some old \<longrightarrow> owns identity old) \<and> (\<forall>new. cur = Some new \<longrightarrow> owns identity new)"
    using assms(2) by blast
  with assms(3) show ?thesis unfolding confined_def fun_upd_def by metis
qed

lemma consistent_object:
  assumes "\<not> inconsistent obj identity" "get_str (mLabels obj) ManagedByLabel = ManagedByValue"
  shows "obj_key obj = name_of identity (provider_of obj)" "owned_by identity (provider_of obj) obj" "mNamespace obj = iNamespace identity"
  using assms by (auto simp: inconsistent_def Let_def obj_key_def owned_by_def)

lemma consistent_listed:
  assumes env: "lifecycle_env K view retry retryNext E" and cur: "view w key = Some obj" "obj_key obj = key"
    and obj: "\<not> inconsistent obj identity" "get_str (mLabels obj) ManagedByLabel = ManagedByValue"
    and run: "Apply K retry identity [] w = (None, w')"
  shows "provider_of obj \<in> listed_providers K identity w"
proof -
  obtain r w1 where listed: "list_endpoints K (iNamespace identity)
      [(ManagedByLabel, ManagedByValue), (SourceKeyLabel, SourceKey identity)] w = (r, w1)" by fastforce
  then obtain items where items: "r = Inr items" using run by (cases r) (auto simp: Apply_def)
  have "fst key = iNamespace identity" using cur(2) consistent_object(3) [OF obj] by (auto simp: obj_key_def)
  moreover have "\<forall>(k, v) \<in> set [(ManagedByLabel, ManagedByValue), (SourceKeyLabel, SourceKey identity)]. get_str (mLabels obj) k = v"
    using consistent_object(2) [OF obj] by (simp add: owned_by_def)
  moreover have "list_doc K view" using env by (simp add: lifecycle_env_def)
  ultimately have "obj \<in> set items" using listed cur(1) unfolding items list_doc_def by blast
  then show ?thesis by (simp add: listed_providers_def listed items)
qed

text \<open>Retiring is a reconciliation with nothing desired followed by an expiry.\<close>

lemma lifecycle_retire_effect:
  assumes env: "lifecycle_env K view retry retryNext E" and cur: "view (lOut st) key = Some obj" "obj_key obj = key"
    and obj: "\<not> inconsistent obj identity" "get_str (mLabels obj) ManagedByLabel = ManagedByValue"
    and ok: "\<forall>provider. current_ok (view (lOut st) (name_of identity provider))"
    and inj: "inj_on (ObjectName identity) (listed_providers K identity (lOut st))"
    and run: "lifecycle_retire E identity key st = ((next, err), st')"
  shows "confined identity (view (lOut st)) (view (lOut st')) \<and> (err \<noteq> None \<or> retired key (view (lOut st)) (view (lOut st')))"
proof -
  have w: "writer_env K view retry" "lcApply E = Apply K retry" using env by (simp_all add: lifecycle_env_def)
  obtain e w1 where ap: "Apply K retry identity [] (lOut st) = (e, w1)" by fastforce
  have conf: "confined identity (view (lOut st)) (view w1)" using writer.output_confined [OF w(1), of "[]" identity "lOut st"] ap by simp
  note key = consistent_object [OF obj]
  show ?thesis
  proof (cases e)
    case (Some e')
    then have "lOut st' = w1 \<and> err \<noteq> None"
      using run w(2) ap by (auto simp: lifecycle_retire_def no_requeue_def split: prod.splits)
    with conf show ?thesis by simp
  next
    case None
    let ?st = "st\<lparr>lOut := w1\<rparr>"
    have p: "provider_of obj \<in> listed_providers K identity (lOut st)" by (rule consistent_listed [OF env cur obj ap [unfolded None]])
    have "settled identity (provider_of obj) (published_targets [] (provider_of obj)) (view (lOut st)) (view w1)"
      by (rule writer.output_settles [OF w(1) _ ok _ ap [unfolded None]]) (use inj p in simp_all)
    then obtain now delay where settled: "current_ok (view w1 key)" "\<forall>obj. view (lOut st) key = Some obj \<longrightarrow> obj_delay obj = Some delay"
      "status_of (view w1 key) = sync_status now delay {} (status_of (view (lOut st) key))"
      using key(1) cur(2) by (auto simp: settled_def published_targets_def)
    have owned: "owns identity new" if "view w1 key = Some new" for new
    proof (cases "view w1 key = view (lOut st) key")
      case True
      then show ?thesis using that cur(1) key(2) by (auto simp: owns_def)
    next
      case False
      then show ?thesis using conf that unfolding confined_def by blast
    qed
    have adv: "lifecycle_advance E key ?st = ((next, err), st')" using run w(2) ap None by (simp add: lifecycle_retire_def)
    have "view w1 key = None \<or> managed_object (view w1 key)"
      using owned by (cases "view w1 key") (auto simp: managed_object_def owns_def owned_by_def)
    then obtain cur' where after: "view (lOut st') = (view w1)(key := cur')" "advanced (view w1 key) cur'" "err \<noteq> None \<or> expired (view w1 key) cur'"
      using lifecycle_advance_effect [OF env _ _ adv] settled(1) by auto
    have "confined identity (view w1) (view (lOut st'))"
      unfolding after(1) by (rule advanced_confined [where before = "view w1", OF after(2)]) (use owned key(1) cur(2) in auto)
    moreover have "retired key (view (lOut st)) (view (lOut st'))" if "expired (view w1 key) cur'"
      using that settled(2,3) unfolding expired_def retired_def after(1) by (metis fun_upd_same)
    ultimately show ?thesis using conf after(3) confined_trans by blast
  qed
qed

lemma verdict_simps:
  "get_str (mLabels object) ManagedByLabel \<noteq> ManagedByValue \<Longrightarrow> verdict E object = Leave"
  "parseLifecycle (get_str (mAnnotations object) LifecycleAnnotation) = Inl e \<Longrightarrow> verdict E object = Leave"
  by (simp_all add: verdict_def Let_def)

lemma lifecycle_body_cases:
  assumes "lcGet E key = Inr object" "lifecycle_body E key st = ((next, err), st')"
  obtains (leave) "verdict E object = Leave" "lOut st' = lOut st"
  | (keep) st1 where "verdict E object = Keep" "\<not> inconsistent object (endpoint_identity object)"
      "get_str (mLabels object) ManagedByLabel = ManagedByValue" "lOut st1 = lOut st" "lifecycle_advance E key st1 = ((next, err), st')"
  | (retire) st1 where "verdict E object = Retire" "\<not> inconsistent object (endpoint_identity object)"
      "get_str (mLabels object) ManagedByLabel = ManagedByValue" "lOut st1 = lOut st"
      "lifecycle_retire E (endpoint_identity object) key st1 = ((next, err), st')"
proof -
  note defs = lifecycle_body_def verdict_def supported_kind_def PendingTargetCount_def Let_def
  consider "get_str (mLabels object) ManagedByLabel \<noteq> ManagedByValue"
    | e where "get_str (mLabels object) ManagedByLabel = ManagedByValue" "parseLifecycle (get_str (mAnnotations object) LifecycleAnnotation) = Inl e"
    | s where "get_str (mLabels object) ManagedByLabel = ManagedByValue" "parseLifecycle (get_str (mAnnotations object) LifecycleAnnotation) = Inr s"
    by (meson sum.exhaust)
  then show thesis
  proof cases
    case 1
    then have "lOut st' = lOut st" using assms by (auto simp: defs)
    with 1 show thesis using leave verdict_simps(1) by blast
  next
    case 2
    then have "lOut st' = lOut st" using assms by (auto simp: defs no_requeue_def split: prod.splits)
    with 2 show thesis using leave verdict_simps(2) by blast
  next
    case 3
    let ?m = "set_endpoint_metric (fst key @ ''/'' @ snd key) True (int (length (Pending s))) st" and ?id = "endpoint_identity object"
    consider (kind) "\<not> supported_kind (iKind ?id)" | (bad) "supported_kind (iKind ?id)" "inconsistent object ?id"
      | (off) "supported_kind (iKind ?id)" "\<not> inconsistent object ?id" "isGatewayRoute (iKind ?id)" "\<not> lcGatewayEnabled E"
      | (on) "supported_kind (iKind ?id)" "\<not> inconsistent object ?id" "\<not> (isGatewayRoute (iKind ?id) \<and> \<not> lcGatewayEnabled E)" by blast
    then show thesis
    proof cases
      case kind
      then have "lOut st' = lOut st"
        using assms 3 by (auto simp: lifecycle_body_def supported_kind_def PendingTargetCount_def Let_def no_requeue_def split: prod.splits)
      with kind 3 show thesis by (intro leave) (simp_all add: verdict_def Let_def)
    next
      case bad
      then have "lOut st' = lOut st"
        using assms 3 by (auto simp: lifecycle_body_def supported_kind_def PendingTargetCount_def Let_def no_requeue_def split: prod.splits)
      with bad 3 show thesis by (intro leave) (simp_all add: verdict_def Let_def)
    next
      case off
      then have "lifecycle_retire E ?id key ?m = ((next, err), st')"
        using assms 3 by (simp add: lifecycle_body_def supported_kind_def PendingTargetCount_def Let_def)
      with off 3 show thesis by (intro retire [of ?m]) (simp_all add: verdict_def Let_def)
    next
      case on
      then have body: "lifecycle_body E key st = (case lifecycle_source E ?id of Inl e \<Rightarrow> (no_requeue (Some e), ?m)
          | Inr (exists, uid) \<Rightarrow> (if \<not> exists then lifecycle_retire E ?id key ?m
              else if uid \<noteq> iUID ?id then (no_requeue None, ?m) else lifecycle_advance E key ?m))"
        using assms(1) 3 by (auto simp add: lifecycle_body_def supported_kind_def PendingTargetCount_def Let_def simp del: append_Cons append_Nil)
      have v: "verdict E object = (case lifecycle_source E ?id of Inl _ \<Rightarrow> Leave
          | Inr (found, uid) \<Rightarrow> (if \<not> found then Retire else if uid = iUID ?id then Keep else Leave))"
        using on 3 by (auto simp: verdict_def Let_def)
      show thesis
      proof (cases "lifecycle_source E ?id")
        case (Inl e)
        with body assms(2) v show thesis by (intro leave) auto
      next
        case (Inr r)
        obtain found uid where r: "r = (found, uid)" by fastforce
        consider "\<not> found" | "found" "uid \<noteq> iUID ?id" | "found" "uid = iUID ?id" by blast
        then show thesis
        proof cases
          case 1 with Inr r body assms(2) v 3 on show thesis by (intro retire [of ?m]) auto
        next
          case 2 with Inr r body assms(2) v show thesis by (intro leave) auto
        next
          case a: 3 with Inr r body assms(2) v 3 on show thesis by (intro keep [of ?m]) auto
        qed
      qed
    qed
  qed
qed

section \<open>The property\<close>


text \<open>An object that the writer built passes the checks of the lifecycle controller.\<close>

lemma built_consistent:
  assumes "build now identity provider pub None = Inr (Some obj)" "provider \<noteq> ''''"
    and "iNamespace identity \<noteq> ''''" "iName identity \<noteq> ''''" "iUID identity \<noteq> ''''" "iKind identity = SourceKindIngress" "iAPIVersion identity = networking_v1"
  shows "endpoint_identity obj = identity" "\<not> inconsistent obj identity" "obj_key obj = name_of identity provider"
    "get_str (mLabels obj) ManagedByLabel = ManagedByValue"
proof -
  obtain p where "finish_build identity provider pub None p = Inr (Some obj)"
    using assms(1) by (auto simp: build_finish Let_def split: sum.splits prod.splits)
  from finish_build_object [OF this] obtain has lc where obj: "mName obj = ObjectName identity provider" "mNamespace obj = iNamespace identity"
    "mLabels obj = build_labels identity provider fmempty" "mAnnotations obj = build_annotations identity pub has lc fmempty"
    by (auto simp: fresh_object_def)
  have labels': "get_str (mLabels obj) ManagedByLabel = ManagedByValue" "get_str (mLabels obj) ProviderLabel = provider"
    "get_str (mLabels obj) SourceKeyLabel = SourceKey identity"
    unfolding obj by (simp_all add: build_labels_def ManagedByLabel_def ProviderLabel_def SourceKeyLabel_def AnnotationPrefix_def)
  have "get_str (mAnnotations obj) SourceKindAnnotation = iKind identity"
    "get_str (mAnnotations obj) SourceNamespaceAnnotation = iNamespace identity"
    "get_str (mAnnotations obj) SourceNameAnnotation = iName identity" "get_str (mAnnotations obj) SourceUIDAnnotation = iUID identity"
    unfolding obj get_str_def using assms(5) by (simp_all add: build_annotations_fmlookup annotation_keys)
  then show "endpoint_identity obj = identity"
    using assms(6,7) by (simp add: endpoint_identity_def Let_def)
  show "\<not> inconsistent obj identity" using assms(2-5) labels' obj(1,2) by (simp add: inconsistent_def Let_def)
  show "obj_key obj = name_of identity provider" by (simp add: obj_key_def obj)
  show "get_str (mLabels obj) ManagedByLabel = ManagedByValue" by (rule labels')
qed

definition gone_env :: "DNSEndpoint \<Rightarrow> DNSEndpoint list lc_env" where
  "gone_env obj = \<lparr>lcGet = (\<lambda>_. Inr obj), lcR = sample_reader\<lparr>get_ingress := \<lambda>_. absent\<rparr>, lcApply = Apply store_kube one_try,
     lcAdvance = Advance store_kube one_try, lcRecorder = False, lcGatewayEnabled = False, lcClock = (\<lambda>_. 0)\<rparr>"

lemma gone_lifecycle_env: "lifecycle_env store_kube store_view one_try one_try (gone_env obj)"
proof -
  have "list_doc store_kube store_view"
    by (auto simp: list_doc_def store_kube_def store_view_def find_Some_iff obj_key_def list_all_iff)
  moreover have "advance_env store_kube store_view one_try"
    using store_api_doc sample_valid_time by (simp add: advance_env_def retry_doc_def one_try_def retried.last store_kube_def)
  ultimately show ?thesis using store_writer_env by (simp add: lifecycle_env_def gone_env_def)
qed


end
