(* ===== verification/Go_Flag.thy ===== *)
theory Go_Flag
  imports Errors
begin

text \<open>
  Go's \<^verbatim>\<open>flag\<close> package as \<^verbatim>\<open>cmd/main.go\<close> uses it: flags that hold a string or a boolean, and the reading
  of the command line.  A flag knows how it changes the options it is bound to (\<^verbatim>\<open>StringVar\<close> and
  \<^verbatim>\<open>BoolVar\<close> bind it to a variable).  \<open>Parse\<close> returns the options and the arguments it did not read; its error is the
  request for help or a message.  \<open>flag_args\<close> and \<open>other_args\<close> split a command line into the arguments that \<open>Parse\<close>
  reads as flags and the others: values of flags, and everything behind the first argument that is no flag.
\<close>

section \<open>Parsing\<close>

datatype 'o flag_value =
    StringFlag "string \<Rightarrow> 'o \<Rightarrow> 'o"
  | BoolFlag "bool \<Rightarrow> 'o \<Rightarrow> 'o"

type_synonym 'o flag_set = "(string \<times> 'o flag_value) list"

datatype flag_error = ErrHelp | Failf string

text \<open>How one argument reads: a flag has a name and, behind an equals sign, perhaps a value.\<close>

datatype flag_arg = NotFlag | Terminator | BadSyntax | FlagArg string "string option"

definition read_arg :: "string \<Rightarrow> flag_arg" where
  "read_arg s =
     (if length s < 2 \<or> s ! 0 \<noteq> CHR ''-'' then NotFlag
      else if s = ''--'' then Terminator
      else let name = drop (if s ! 1 = CHR ''-'' then 2 else 1) s in
           if name = [] \<or> name ! 0 = CHR ''-'' \<or> name ! 0 = CHR ''='' then BadSyntax
           else if CHR ''='' \<in> set name
           then FlagArg (takeWhile (\<lambda>c. c \<noteq> CHR ''='') name) (Some (drop 1 (dropWhile (\<lambda>c. c \<noteq> CHR ''='') name)))
           else FlagArg name None)"

definition unknown_flag :: "string \<Rightarrow> flag_error" where
  "unknown_flag name =
     (if name = ''help'' \<or> name = ''h'' then ErrHelp
      else Failf (Sprintf ''flag provided but not defined: -%s'' [FStr name]))"

definition bad_bool :: "string \<Rightarrow> string \<Rightarrow> flag_error" where
  "bad_bool value name = Failf (Sprintf ''invalid boolean value %q for -%s: parse error'' [FStr value, FStr name])"

fun Parse :: "'o flag_set \<Rightarrow> string list \<Rightarrow> 'o \<Rightarrow> flag_error + 'o \<times> string list" where
  "Parse flags [] opts = Inr (opts, [])"
| "Parse flags (s # args) opts =
     (case read_arg s of
        NotFlag \<Rightarrow> Inr (opts, s # args)
      | Terminator \<Rightarrow> Inr (opts, args)
      | BadSyntax \<Rightarrow> Inl (Failf (Sprintf ''bad flag syntax: %s'' [FStr s]))
      | FlagArg name given \<Rightarrow>
          (case map_of flags name of
             None \<Rightarrow> Inl (unknown_flag name)
           | Some (BoolFlag assign) \<Rightarrow>
               (case given of
                  None \<Rightarrow> Parse flags args (assign True opts)
                | Some value \<Rightarrow>
                    (case ParseBool value of
                       None \<Rightarrow> Inl (bad_bool value name)
                     | Some b \<Rightarrow> Parse flags args (assign b opts)))
           | Some (StringFlag assign) \<Rightarrow>
               (case given of
                  Some value \<Rightarrow> Parse flags args (assign value opts)
                | None \<Rightarrow>
                    (case args of
                       [] \<Rightarrow> Inl (Failf (Sprintf ''flag needs an argument: -%s'' [FStr name]))
                     | value # args' \<Rightarrow> Parse flags args' (assign value opts)))))"

section \<open>The parts of a command line\<close>

definition takes_next :: "'o flag_set \<Rightarrow> string \<Rightarrow> bool" where
  "takes_next flags s =
     (case read_arg s of
        FlagArg name None \<Rightarrow> (case map_of flags name of Some (StringFlag _) \<Rightarrow> True | _ \<Rightarrow> False)
      | _ \<Rightarrow> False)"

definition is_flag_arg :: "string \<Rightarrow> bool" where
  "is_flag_arg s = (case read_arg s of FlagArg _ _ \<Rightarrow> True | _ \<Rightarrow> False)"

fun flag_args :: "'o flag_set \<Rightarrow> string list \<Rightarrow> string list" where
  "flag_args flags [] = []"
| "flag_args flags (s # args) =
     (if \<not> is_flag_arg s then []
      else s # (if takes_next flags s then (case args of [] \<Rightarrow> [] | _ # args' \<Rightarrow> flag_args flags args')
                else flag_args flags args))"

fun other_args :: "'o flag_set \<Rightarrow> string list \<Rightarrow> string list" where
  "other_args flags [] = []"
| "other_args flags (s # args) =
     (if \<not> is_flag_arg s then s # args
      else if takes_next flags s then (case args of [] \<Rightarrow> [] | value # args' \<Rightarrow> value # other_args flags args')
      else other_args flags args)"

lemma set_args: "set args = set (flag_args flags args) \<union> set (other_args flags args)"
proof (induction flags args rule: flag_args.induct)
  case (2 flags s args)
  then show ?case by (cases args) auto
qed simp

end
