(* ===== verification/Startup.thy ===== *)
theory Startup
  imports Mapper Go_Flag
begin

text \<open>
  Start-up of the controller: \<^verbatim>\<open>cmd/discovery.go\<close> (the check that the cluster serves every API the
  controllers use) and \<^verbatim>\<open>cmd/main.go\<close>, with the registration of the API types in
  \<^verbatim>\<open>api/v1alpha1/groupversion_info.go\<close>.  Discovery, the scheme, the manager and its builder are parameters;
  the result of \<open>main\<close> is the exit code (0 when the manager stopped without an error) and the manager's state,
  \<open>None\<close> when no manager was made.  \<open>main_after_flags\<close> is \<^verbatim>\<open>main\<close> behind \<^verbatim>\<open>flag.Parse\<close>.  Libraries may register flags of
  their own; they are string flags named by a parameter.  The logger is not modelled.
\<close>

section \<open>Prerequisites\<close>

record APIResource =
  arName :: string
  arKind :: string
  arNamespaced :: bool
  arVerbs :: "string list"

type_synonym resourceDiscovery = "string \<Rightarrow> APIResource list result"

record requiredResource =
  reqName :: string
  reqKind :: string
  reqNamespaced :: bool
  reqVerbs :: "string list"

definition verbGet :: string where "verbGet = ''get''"
definition verbList :: string where "verbList = ''list''"
definition verbWatch :: string where "verbWatch = ''watch''"

fun require_verbs :: "string \<Rightarrow> requiredResource \<Rightarrow> APIResource \<Rightarrow> string list \<Rightarrow> goerr option" where
  "require_verbs groupVersion requirement resource [] = None"
| "require_verbs groupVersion requirement resource (verb # verbs) =
     (if verb \<notin> set (arVerbs resource)
      then Some (ErrMsg (Sprintf ''resource %s/%s is missing required verb %q'' [FStr groupVersion, FStr (reqName requirement), FStr verb]))
      else require_verbs groupVersion requirement resource verbs)"

definition require_one :: "string \<Rightarrow> (string \<rightharpoonup> APIResource) \<Rightarrow> requiredResource \<Rightarrow> goerr option" where
  "require_one groupVersion found requirement =
     (case found (reqName requirement) of
        None \<Rightarrow> Some (ErrMsg (Sprintf ''resource %s/%s is missing'' [FStr groupVersion, FStr (reqName requirement)]))
      | Some resource \<Rightarrow>
          (if arKind resource \<noteq> reqKind requirement
           then Some (ErrMsg (Sprintf ''resource %s/%s has kind %q, want %q''
                  [FStr groupVersion, FStr (reqName requirement), FStr (arKind resource), FStr (reqKind requirement)]))
           else if arNamespaced resource \<noteq> reqNamespaced requirement
           then Some (ErrMsg (Sprintf ''resource %s/%s has namespaced=%t, want %t''
                  [FStr groupVersion, FStr (reqName requirement), FBool (arNamespaced resource), FBool (reqNamespaced requirement)]))
           else require_verbs groupVersion requirement resource (reqVerbs requirement)))"

fun require_each :: "string \<Rightarrow> (string \<rightharpoonup> APIResource) \<Rightarrow> requiredResource list \<Rightarrow> goerr option" where
  "require_each groupVersion found [] = None"
| "require_each groupVersion found (requirement # requirements) =
     (case require_one groupVersion found requirement of
        Some e \<Rightarrow> Some e | None \<Rightarrow> require_each groupVersion found requirements)"

text \<open>The map by name: of two resources with one name the later wins.\<close>

definition found_resources :: "APIResource list \<Rightarrow> string \<rightharpoonup> APIResource" where
  "found_resources resources = foldl (\<lambda>found resource. found(arName resource \<mapsto> resource)) Map.empty resources"

definition requireResources :: "resourceDiscovery \<Rightarrow> string \<Rightarrow> requiredResource list \<Rightarrow> goerr option" where
  "requireResources discovery groupVersion required =
     (case discovery groupVersion of
        Inl e \<Rightarrow> Some (WrapErr (Sprintf ''discover %s: '' [FStr groupVersion]) e)
      | Inr resources \<Rightarrow> require_each groupVersion (found_resources resources) required)"

definition required_read :: "string \<Rightarrow> string \<Rightarrow> bool \<Rightarrow> requiredResource" where
  "required_read name kind namespaced =
     \<lparr>reqName = name, reqKind = kind, reqNamespaced = namespaced, reqVerbs = [verbGet, verbList, verbWatch]\<rparr>"

definition endpoint_resources :: "requiredResource list" where
  "endpoint_resources =
     [\<lparr>reqName = ''dnsendpoints'', reqKind = ''DNSEndpoint'', reqNamespaced = True,
       reqVerbs = [verbGet, verbList, verbWatch, ''create'', ''update'', ''patch'', ''delete'']\<rparr>]"

definition gateway_resources :: "requiredResource list" where
  "gateway_resources =
     [required_read ''httproutes'' ''HTTPRoute'' True, required_read ''tcproutes'' ''TCPRoute'' True,
      required_read ''udproutes'' ''UDPRoute'' True, required_read ''gateways'' ''Gateway'' True,
      required_read ''gatewayclasses'' ''GatewayClass'' False]"

definition grant_resources :: "requiredResource list" where
  "grant_resources = [required_read ''referencegrants'' ''ReferenceGrant'' True]"

definition wrap_error :: "string \<Rightarrow> goerr option \<Rightarrow> goerr option" where
  "wrap_error text err = map_option (WrapErr text) err"

definition checkPrerequisites :: "resourceDiscovery \<Rightarrow> bool \<Rightarrow> goerr option" where
  "checkPrerequisites discovery gatewayEnabled =
     (case requireResources discovery ''externaldns.k8s.io/v1alpha1'' endpoint_resources of
        Some e \<Rightarrow> Some (WrapErr ''DNSEndpoint prerequisite unavailable or incompatible; install the official ExternalDNS v0.21.0 CRD: '' e)
      | None \<Rightarrow>
          (if gatewayEnabled
           then (case requireResources discovery ''gateway.networking.k8s.io/v1'' gateway_resources of
                   Some e \<Rightarrow> Some (WrapErr ''gateway API support requested but v1 resources are unavailable: '' e)
                 | None \<Rightarrow>
                     (case requireResources discovery ''gateway.networking.k8s.io/v1beta1'' grant_resources of
                        Some e \<Rightarrow> Some (WrapErr ''gateway API support requested but ReferenceGrant is unavailable: '' e)
                      | None \<Rightarrow> None))
           else None))"

section \<open>main\<close>

record flags =
  metricsAddr :: string
  healthAddr :: string
  leaderElect :: bool
  secureMetrics :: bool
  metricsCertPath :: string
  metricsCertName :: string
  metricsCertKey :: string
  enableHTTP2 :: bool
  logLevel :: string
  enableGatewayAPI :: bool

definition default_flags :: flags where
  "default_flags =
     \<lparr>metricsAddr = ''0'', healthAddr = '':8081'', leaderElect = False, secureMetrics = True, metricsCertPath = '''',
      metricsCertName = ''tls.crt'', metricsCertKey = ''tls.key'', enableHTTP2 = False, logLevel = ''info'', enableGatewayAPI = False\<rparr>"

datatype log_level = LevelDebug | LevelInfo | LevelWarn | LevelError

definition parseLogLevel :: "string \<Rightarrow> log_level result" where
  "parseLogLevel value =
     (let level = ToLower value in
      if level = ''debug'' then Inr LevelDebug
      else if level = ''info'' then Inr LevelInfo
      else if level = ''warn'' \<or> level = ''warning'' then Inr LevelWarn
      else if level = ''error'' then Inr LevelError
      else Inl (ErrMsg (Sprintf ''invalid --log-level %q: use debug, info, warn, or error'' [FStr value])))"

text \<open>\<open>TLSProtos\<close> is what the TLS options set \<^verbatim>\<open>NextProtos\<close> to, if they do.\<close>

record metrics_options =
  BindAddress :: string
  SecureServing :: bool
  TLSProtos :: "string list option"
  Authenticated :: bool
  CertDir :: string
  CertName :: string
  KeyName :: string

definition metricsOptions :: "flags \<Rightarrow> metrics_options" where
  "metricsOptions f =
     (let cert = (\<lambda>value. if metricsCertPath f \<noteq> '''' then value else '''')
      in \<lparr>BindAddress = metricsAddr f, SecureServing = secureMetrics f,
          TLSProtos = (if enableHTTP2 f then None else Some [''http/1.1'']), Authenticated = secureMetrics f,
          CertDir = cert (metricsCertPath f), CertName = cert (metricsCertName f), KeyName = cert (metricsCertKey f)\<rparr>)"

record 'w main_env =
  newDiscovery :: "resourceDiscovery result"
  newManager :: "metrics_options \<Rightarrow> string \<Rightarrow> bool \<Rightarrow> string \<Rightarrow> 'w result"
  indexField :: "index_entry \<Rightarrow> 'w \<Rightarrow> goerr option \<times> 'w"
  completeSource :: "source_controller \<Rightarrow> 'w \<Rightarrow> goerr option \<times> 'w"
  completeLifecycle :: "string \<Rightarrow> bool \<Rightarrow> 'w \<Rightarrow> goerr option \<times> 'w"
  managerClient :: lister
  addHealthzCheck :: "string \<Rightarrow> 'w \<Rightarrow> goerr option \<times> 'w"
  addReadyzCheck :: "string \<Rightarrow> 'w \<Rightarrow> goerr option \<times> 'w"
  startManager :: "'w \<Rightarrow> goerr option \<times> 'w"

definition SetupLifecycle :: "'w main_env \<Rightarrow> bool \<Rightarrow> 'w \<Rightarrow> goerr option \<times> 'w" where
  "SetupLifecycle E gatewayEnabled w = completeLifecycle E ''dnsendpoint-lifecycle'' gatewayEnabled w"

type_synonym 'w exit = "nat \<times> 'w option"

definition or_exit :: "goerr option \<times> 'w \<Rightarrow> ('w \<Rightarrow> 'w exit) \<Rightarrow> 'w exit" where
  "or_exit r k = (case r of (Some e, w) \<Rightarrow> (1, Some w) | (None, w) \<Rightarrow> k w)"

definition main_after_flags :: "'w main_env \<Rightarrow> flags \<Rightarrow> 'w exit" where
  "main_after_flags E f =
     (case parseLogLevel (logLevel f) of
        Inl e \<Rightarrow> (2, None)
      | Inr level \<Rightarrow>
          (case newDiscovery E of
             Inl e \<Rightarrow> (1, None)
           | Inr discovery \<Rightarrow>
               (if checkPrerequisites discovery (enableGatewayAPI f) \<noteq> None then (1, None)
                else case newManager E (metricsOptions f) (healthAddr f) (leaderElect f) ''066b3aee.shednet.dev'' of
                       Inl e \<Rightarrow> (1, None)
                     | Inr w \<Rightarrow>
                         or_exit (Setup (indexField E) (completeSource E) (managerClient E) (enableGatewayAPI f) w) (\<lambda>w.
                         or_exit (SetupLifecycle E (enableGatewayAPI f) w) (\<lambda>w.
                         or_exit (addHealthzCheck E ''healthz'' w) (\<lambda>w.
                         or_exit (addReadyzCheck E ''readyz'' w) (\<lambda>w.
                         or_exit (startManager E w) (\<lambda>w. (0, Some w)))))))))"

text \<open>The flags of \<^verbatim>\<open>main\<close>, bound to their variables, and \<^verbatim>\<open>main\<close> from the command line on.\<close>

definition main_flags :: "flags flag_set" where
  "main_flags =
     [(''metrics-addr'', StringFlag (\<lambda>v f. f\<lparr>metricsAddr := v\<rparr>)),
      (''health-addr'', StringFlag (\<lambda>v f. f\<lparr>healthAddr := v\<rparr>)),
      (''leader-elect'', BoolFlag (\<lambda>b f. f\<lparr>leaderElect := b\<rparr>)),
      (''metrics-secure'', BoolFlag (\<lambda>b f. f\<lparr>secureMetrics := b\<rparr>)),
      (''metrics-cert-path'', StringFlag (\<lambda>v f. f\<lparr>metricsCertPath := v\<rparr>)),
      (''metrics-cert-name'', StringFlag (\<lambda>v f. f\<lparr>metricsCertName := v\<rparr>)),
      (''metrics-cert-key'', StringFlag (\<lambda>v f. f\<lparr>metricsCertKey := v\<rparr>)),
      (''enable-http2'', BoolFlag (\<lambda>b f. f\<lparr>enableHTTP2 := b\<rparr>)),
      (''log-level'', StringFlag (\<lambda>v f. f\<lparr>logLevel := v\<rparr>)),
      (''enable-gateway-api'', BoolFlag (\<lambda>b f. f\<lparr>enableGatewayAPI := b\<rparr>))]"

definition library_flags :: "string list \<Rightarrow> flags flag_set" where
  "library_flags names = map (\<lambda>name. (name, StringFlag (\<lambda>v f. f))) names"

definition command_line :: "string list \<Rightarrow> flags flag_set" where
  "command_line names = main_flags @ library_flags names"

definition main :: "'w main_env \<Rightarrow> string list \<Rightarrow> string list \<Rightarrow> 'w exit" where
  "main E names args =
     (case Parse (command_line names) args default_flags of
        Inl ErrHelp \<Rightarrow> (0, None)
      | Inl (Failf message) \<Rightarrow> (2, None)
      | Inr (f, rest) \<Rightarrow> main_after_flags E f)"

section \<open>The scheme\<close>

text \<open>A scheme is a registry of API types.  Registering a type under two names panics in the library; a step that
  fails makes \<^verbatim>\<open>utilruntime.Must\<close> panic.  \<open>Install\<close> registers the types of another package.\<close>

record 's scheme_library =
  NewScheme :: 's
  AddKnownTypes :: "string \<times> string \<Rightarrow> string list \<Rightarrow> 's \<Rightarrow> 's"
  AddToGroupVersion :: "string \<times> string \<Rightarrow> 's \<Rightarrow> 's"
  Install :: "string \<Rightarrow> 's \<Rightarrow> 's result"

definition GroupVersion :: "string \<times> string" where
  "GroupVersion = (''labdns.shednet.dev'', ''v1alpha1'')"

definition SchemeBuilder :: "'s scheme_library \<Rightarrow> 's \<Rightarrow> 's result" where
  "SchemeBuilder L scheme =
     Inr (AddToGroupVersion L GroupVersion (AddKnownTypes L GroupVersion [''DNSProvider'', ''DNSProviderList''] scheme))"

fun add_each :: "('s \<Rightarrow> 's result) list \<Rightarrow> 's \<Rightarrow> 's result" where
  "add_each [] scheme = Inr scheme"
| "add_each (add # adds) scheme = (case add scheme of Inl e \<Rightarrow> Inl e | Inr scheme' \<Rightarrow> add_each adds scheme')"

text \<open>The package's \<^verbatim>\<open>init\<close>; \<open>None\<close> when it panics.\<close>

definition init :: "'s scheme_library \<Rightarrow> 's option" where
  "init L =
     (case add_each
             [Install L ''clientgoscheme'', SchemeBuilder L, Install L ''externaldnsv1alpha1'', Install L ''gatewayv1'',
              Install L ''gatewayv1beta1''] (NewScheme L) of
        Inl e \<Rightarrow> None | Inr scheme \<Rightarrow> Some scheme)"

section \<open>What the check requires\<close>

text \<open>The named resource of a group version, with kind, scope and verbs as required; of several resources
  with one name the last counts.\<close>

definition served :: "resourceDiscovery \<Rightarrow> string \<Rightarrow> requiredResource \<Rightarrow> bool" where
  "served discovery groupVersion req \<longleftrightarrow>
     (\<exists>before r after. discovery groupVersion = Inr (before @ r # after) \<and> arName r = reqName req \<and> reqName req \<notin> arName ` set after \<and>
        arKind r = reqKind req \<and> arNamespaced r = reqNamespaced req \<and> set (reqVerbs req) \<subseteq> set (arVerbs r))"

definition prerequisites :: "bool \<Rightarrow> (string \<times> requiredResource) list" where
  "prerequisites gatewayEnabled =
     map (Pair ''externaldns.k8s.io/v1alpha1'') endpoint_resources @
     (if gatewayEnabled
      then map (Pair ''gateway.networking.k8s.io/v1'') gateway_resources @ map (Pair ''gateway.networking.k8s.io/v1beta1'') grant_resources
      else [])"

lemma found_resources_Some:
  "found_resources rs n = Some r \<longleftrightarrow> (\<exists>before after. rs = before @ r # after \<and> arName r = n \<and> n \<notin> arName ` set after)"
proof (induction rs rule: rev_induct)
  case (snoc x rs)
  have step: "found_resources (rs @ [x]) = (found_resources rs)(arName x \<mapsto> x)" by (simp add: found_resources_def)
  show ?case
  proof (cases "arName x = n")
    case True
    have "r = x" if "rs @ [x] = before @ r # after" "n \<notin> arName ` set after" for before after
      using that True by (cases after rule: rev_cases) auto
    with True show ?thesis unfolding step by fastforce
  next
    case False
    have "(\<exists>before after. rs @ [x] = before @ r # after \<and> arName r = n \<and> n \<notin> arName ` set after) \<longleftrightarrow>
        (\<exists>before after. rs = before @ r # after \<and> arName r = n \<and> n \<notin> arName ` set after)" (is "?l \<longleftrightarrow> ?r")
    proof
      assume ?l
      then obtain before after where *: "rs @ [x] = before @ r # after" "arName r = n" "n \<notin> arName ` set after" by blast
      then show ?r using False by (cases after rule: rev_cases) auto
    next
      assume ?r
      then obtain before after where "rs = before @ r # after" "arName r = n" "n \<notin> arName ` set after" by blast
      then show ?l using False by (intro exI [of _ before] exI [of _ "after @ [x]"]) auto
    qed
    with snoc.IH False show ?thesis unfolding step by simp
  qed
qed (simp add: found_resources_def)

lemma require_verbs_None: "require_verbs gv req r verbs = None \<longleftrightarrow> set verbs \<subseteq> set (arVerbs r)"
  by (induction verbs) auto

lemma require_each_None: "require_each gv found reqs = None \<longleftrightarrow> list_all (\<lambda>req. require_one gv found req = None) reqs"
  by (induction reqs) (auto split: option.split)

lemma requireResources_None:
  "reqs \<noteq> [] \<Longrightarrow> requireResources D gv reqs = None \<longleftrightarrow> list_all (served D gv) reqs"
proof (cases "D gv")
  case (Inl e)
  assume "reqs \<noteq> []"
  with Inl show ?thesis by (cases reqs) (auto simp: requireResources_def served_def)
next
  case (Inr rs)
  have "served D gv req \<longleftrightarrow> (\<exists>r. found_resources rs (reqName req) = Some r \<and> arKind r = reqKind req \<and>
      arNamespaced r = reqNamespaced req \<and> set (reqVerbs req) \<subseteq> set (arVerbs r))" for req
    unfolding served_def Inr found_resources_Some by blast
  then have "require_one gv (found_resources rs) req = None \<longleftrightarrow> served D gv req" for req
    by (auto simp: require_one_def require_verbs_None split: option.split)
  with Inr show ?thesis by (simp add: requireResources_def require_each_None)
qed

lemma checkPrerequisites_None:
  "checkPrerequisites D gatewayEnabled = None \<longleftrightarrow> list_all (\<lambda>(gv, req). served D gv req) (prerequisites gatewayEnabled)"
proof -
  have e: "requireResources D gv endpoint_resources = None \<longleftrightarrow> list_all (served D gv) endpoint_resources"
    and g: "requireResources D gv gateway_resources = None \<longleftrightarrow> list_all (served D gv) gateway_resources"
    and r: "requireResources D gv grant_resources = None \<longleftrightarrow> list_all (served D gv) grant_resources" for gv
    by (rule requireResources_None, simp add: endpoint_resources_def gateway_resources_def grant_resources_def)+
  have "checkPrerequisites D gatewayEnabled = None \<longleftrightarrow> requireResources D ''externaldns.k8s.io/v1alpha1'' endpoint_resources = None \<and>
      (gatewayEnabled \<longrightarrow> requireResources D ''gateway.networking.k8s.io/v1'' gateway_resources = None \<and>
        requireResources D ''gateway.networking.k8s.io/v1beta1'' grant_resources = None)"
    by (auto simp: checkPrerequisites_def split: option.split)
  then show ?thesis unfolding e g r by (simp add: prerequisites_def list.pred_map comp_def)
qed

lemma main_after_flags_checked:
  "checkPrerequisites D (enableGatewayAPI f) = None \<or>
   snd (main_after_flags (E\<lparr>newDiscovery := Inr D\<rparr>) f) = None \<and> fst (main_after_flags (E\<lparr>newDiscovery := Inr D\<rparr>) f) \<in> {1, 2}"
  by (auto simp: main_after_flags_def split: sum.split)

lemma main_checked:
  "snd (main (E\<lparr>newDiscovery := Inr D\<rparr>) names args) = None \<or>
   (\<exists>f rest. Parse (command_line names) args default_flags = Inr (f, rest) \<and> checkPrerequisites D (enableGatewayAPI f) = None)"
proof (cases "Parse (command_line names) args default_flags")
  case (Inl e)
  then show ?thesis by (cases e) (simp_all add: main_def)
next
  case (Inr r)
  then show ?thesis
    using main_after_flags_checked [of D "fst r" E] by (cases r) (auto simp: main_def)
qed

section \<open>Properties\<close>


end
