(* ===== verification/Inspect.thy ===== *)
theory Inspect
  imports Startup Writer
begin

text \<open>
  What the command line reads from a cluster: \<^verbatim>\<open>internal/cli/model.go\<close> and \<^verbatim>\<open>internal/cli/inspect.go\<close>.  The
  Kubernetes client and discovery are parameters (\<open>cli_client\<close>); a live DNS lookup is an argument of
  \<open>details\<close>.  A Go map is an association list with distinct keys.  \<open>cActiveTargets\<close> is \<open>None\<close> when the slice
  is nil, which is how the code says that the active targets are unknown.
\<close>

section \<open>The model\<close>

definition stateCurrent :: string where "stateCurrent = ''current''"
definition stateMissing :: string where "stateMissing = ''missing''"
definition stateObserved :: string where "stateObserved = ''observed''"
definition stateStale :: string where "stateStale = ''stale''"
definition stateInvalid :: string where "stateInvalid = ''invalid''"
definition stateUnsupported :: string where "stateUnsupported = ''unsupported''"
definition stateNXDomain :: string where "stateNXDomain = ''nxdomain''"
definition stateMatch :: string where "stateMatch = ''match''"
definition stateMismatch :: string where "stateMismatch = ''mismatch''"

record sourceRef =
  srKind :: string
  srNamespace :: string
  srName :: string
  srUID :: string

record objectRef =
  orNamespace :: string
  orName :: string

record retiringTarget =
  rtTarget :: string
  rtDeadline :: int

record cli_record =
  cDNSName :: string
  cRecordType :: string
  cTargets :: "string list"
  cActiveTargets :: "string list option"
  cTTL :: int
  cProvider :: string
  cSource :: sourceRef
  cDNSEndpoint :: objectRef
  cGeneration :: int
  cObserved :: int
  cExternalDNSState :: string
  cRetiring :: "retiringTarget list"
  cProperties :: "(string \<times> string list) list"
  cLifecycleError :: string

record providerDetail =
  pdFound :: bool
  pdZones :: "string list"
  pdIPv4Label :: string
  pdIPv6Label :: string
  pdDefaultTTL :: int

record sourceDetail =
  sdFound :: bool
  sdUIDMatches :: bool

record dnsLookup =
  dlServer :: string
  dlAnswers :: "string list"
  dlState :: string
  dlError :: string

record recordDetail =
  dRecord :: cli_record
  dProvider :: providerDetail
  dSource :: sourceDetail
  dDNS :: "dnsLookup option"

record recordDetails =
  dsQuery :: string
  dsItems :: "recordDetail list"

record prerequisite =
  preName :: string
  preAvailable :: bool
  preError :: string

record controllerStatus =
  csNamespace :: string
  csName :: string
  csDesired :: int
  csAvailable :: int
  csReadyPods :: int
  csGatewayAPI :: bool

record stateSummary =
  sumProviders :: int
  sumPublishingSources :: int
  sumDNSEndpoints :: int
  sumRecords :: int
  sumPendingTargets :: int
  sumObserved :: int
  sumStale :: int
  sumInvalid :: int

record cli_status =
  stOverall :: string
  stPrerequisites :: "prerequisite list"
  stControllers :: "controllerStatus list"
  stSummary :: stateSummary
  stWarnings :: "string list"

section \<open>Filters and the client\<close>

record filters =
  fNamespace :: string
  fProvider :: string
  fSourceKind :: string
  fRecordType :: string

definition sourceKindIngressFilter :: string where "sourceKindIngressFilter = ''Ingress''"
definition sourceKindHTTPRouteFilter :: string where "sourceKindHTTPRouteFilter = ''HTTPRoute''"
definition sourceKindTCPRouteFilter :: string where "sourceKindTCPRouteFilter = ''TCPRoute''"
definition sourceKindUDPRouteFilter :: string where "sourceKindUDPRouteFilter = ''UDPRoute''"
definition recordTypeAFilter :: string where "recordTypeAFilter = ''A''"
definition recordTypeAAAAFilter :: string where "recordTypeAAAAFilter = ''AAAA''"

definition no_filters :: filters where
  "no_filters = \<lparr>fNamespace = '''', fProvider = '''', fSourceKind = '''', fRecordType = ''''\<rparr>"

text \<open>\<^verbatim>\<open>strings.EqualFold\<close>, exact when one of the texts is ASCII, as the filters are.\<close>

definition EqualFold :: "string \<Rightarrow> string \<Rightarrow> bool" where
  "EqualFold s t \<longleftrightarrow> fold_name s = fold_name t"

record container =
  ctName :: string
  ctCommand :: "string list"
  ctArgs :: "string list"

record pod_template =
  ptAnnotations :: strmap
  ptContainers :: "container list"

record deployment =
  depNamespace :: string
  depName :: string
  depReplicas :: "int option"
  depSelector :: string
  depTemplate :: pod_template
  depAvailable :: int

text \<open>A Pod is its conditions: type and status.\<close>

type_synonym pod = "(string \<times> string) list"

text \<open>An empty namespace lists all namespaces.  \<open>cliSelector\<close> is \<^verbatim>\<open>metav1.LabelSelectorAsSelector\<close> on the text of
  a label selector.\<close>

record cli_client =
  cliReader :: reader
  cliEndpoints :: "string \<Rightarrow> (string \<times> string) list \<Rightarrow> DNSEndpoint list result"
  cliProviders :: "DNSProvider list result"
  cliDeployments :: "string \<Rightarrow> (string \<times> string) list \<Rightarrow> deployment list result"
  cliPods :: "string \<Rightarrow> string \<Rightarrow> pod list result"
  cliSelector :: "string \<Rightarrow> string result"
  cliDiscovery :: resourceDiscovery

section \<open>Records\<close>

definition observationState :: "int \<Rightarrow> int \<Rightarrow> string" where
  "observationState generation seen =
     (if seen = generation then stateObserved
      else if seen = 0 then ''unobserved''
      else if seen < generation then stateStale
      else stateInvalid)"

definition recordState :: "cli_record \<Rightarrow> string" where
  "recordState r =
     (if cLifecycleError r \<noteq> '''' \<or> cExternalDNSState r = stateInvalid then stateInvalid
      else if cExternalDNSState r = stateObserved then stateObserved
      else stateStale)"

definition add_property :: "(string \<times> string list) list \<Rightarrow> Property \<Rightarrow> (string \<times> string list) list" where
  "add_property properties property =
     AList.update (fst property)
       ((case map_of properties (fst property) of None \<Rightarrow> [] | Some vs \<Rightarrow> vs) @ [snd property]) properties"

definition record_properties :: "Property list \<Rightarrow> (string \<times> string list) list" where
  "record_properties ps = map (\<lambda>(name, vs). (name, sort vs)) (foldl add_property [] ps)"

definition annotated_ref :: "DNSEndpoint \<Rightarrow> sourceRef" where
  "annotated_ref object =
     \<lparr>srKind = get_str (mAnnotations object) SourceKindAnnotation,
      srNamespace = get_str (mAnnotations object) SourceNamespaceAnnotation,
      srName = get_str (mAnnotations object) SourceNameAnnotation, srUID = get_str (mAnnotations object) SourceUIDAnnotation\<rparr>"

definition record_of :: "DNSEndpoint \<Rightarrow> PendingTarget list result \<Rightarrow> endpoint \<Rightarrow> cli_record" where
  "record_of object inspected item =
     (let targets = sort (eTargets item);
          retiring = (case inspected of
             Inl e \<Rightarrow> []
           | Inr pending \<Rightarrow>
               map (\<lambda>target. \<lparr>rtTarget = tTarget target, rtDeadline = tDeadline target\<rparr>)
                 (filter (\<lambda>target. tDNSName target = eDNSName item \<and> tRecordType target = eRecordType item) pending))
      in \<lparr>cDNSName = eDNSName item, cRecordType = eRecordType item, cTargets = targets,
          cActiveTargets = (case inspected of
             Inl e \<Rightarrow> None
           | Inr pending \<Rightarrow> Some (filter (\<lambda>target. target \<notin> set (map rtTarget retiring)) targets)),
          cTTL = eRecordTTL item, cProvider = get_str (mLabels object) ProviderLabel, cSource = annotated_ref object,
          cDNSEndpoint = \<lparr>orNamespace = mNamespace object, orName = mName object\<rparr>,
          cGeneration = mGeneration object, cObserved = ObservedGeneration object,
          cExternalDNSState = (case inspected of
             Inl e \<Rightarrow> stateInvalid | Inr pending \<Rightarrow> observationState (mGeneration object) (ObservedGeneration object)),
          cRetiring = retiring, cProperties = record_properties (eProviderSpecific item),
          cLifecycleError = (case inspected of Inl e \<Rightarrow> Error e | Inr pending \<Rightarrow> '''')\<rparr>)"

definition wanted_type :: "string \<Rightarrow> endpoint \<Rightarrow> bool" where
  "wanted_type recordType item \<longleftrightarrow> recordType = '''' \<or> EqualFold (eRecordType item) recordType"

definition recordsFor :: "DNSEndpoint \<Rightarrow> string \<Rightarrow> cli_record list" where
  "recordsFor object recordType =
     map (record_of object (InspectLifecycle (get_str (mAnnotations object) LifecycleAnnotation)))
       (filter (wanted_type recordType) (List.map_filter id (SpecEndpoints object)))"

definition record_sort_key :: "cli_record \<Rightarrow> string" where
  "record_sort_key r =
     Join [cDNSName r, cProvider r, orNamespace (cDNSEndpoint r), srKind (cSource r), srName (cSource r), cRecordType r] NUL"

definition filtered :: "filters \<Rightarrow> DNSEndpoint \<Rightarrow> bool" where
  "filtered f object \<longleftrightarrow>
     (fProvider f = '''' \<or> get_str (mLabels object) ProviderLabel = fProvider f) \<and>
     (fSourceKind f = '''' \<or> EqualFold (get_str (mAnnotations object) SourceKindAnnotation) (fSourceKind f))"

definition records :: "cli_client \<Rightarrow> filters \<Rightarrow> cli_record list result" where
  "records C f =
     (case cliEndpoints C (fNamespace f) [(ManagedByLabel, ManagedByValue)] of
        Inl e \<Rightarrow> Inl (WrapErr ''list managed DNSEndpoints: '' e)
      | Inr objects \<Rightarrow>
          Inr (sort_key record_sort_key (concat (map (\<lambda>object. recordsFor object (fRecordType f)) (filter (filtered f) objects)))))"

section \<open>Details\<close>

definition no_provider :: providerDetail where
  "no_provider = \<lparr>pdFound = False, pdZones = [], pdIPv4Label = '''', pdIPv6Label = '''', pdDefaultTTL = 0\<rparr>"

definition provider_detail :: "cli_client \<Rightarrow> string \<Rightarrow> providerDetail result" where
  "provider_detail C name =
     (case get_provider (cliReader C) name of
        Inl e \<Rightarrow> (if IsNotFound e then Inr no_provider else Inl (WrapErr (Sprintf ''get DNSProvider %s: '' [FStr name]) e))
      | Inr provider \<Rightarrow>
          (let label = (\<lambda>src. case src of None \<Rightarrow> '''' | Some s \<Rightarrow> NodeLabel s); spec = dpSpec provider
           in Inr \<lparr>pdFound = True, pdZones = map zoneName (Zones spec), pdIPv4Label = label (ipv4 (ipSources spec)),
                   pdIPv6Label = label (ipv6 (ipSources spec)), pdDefaultTTL = defaultTTL (recordDefaults spec)\<rparr>))"

definition source_detail :: "cli_client \<Rightarrow> sourceRef \<Rightarrow> sourceDetail result" where
  "source_detail C ref =
     (let key = (srNamespace ref, srName ref); missing = \<lparr>sdFound = False, sdUIDMatches = False\<rparr>
      in if srKind ref \<notin> set [''Ingress'', ''HTTPRoute'', ''TCPRoute'', ''UDPRoute''] then Inr missing
         else case (if srKind ref = ''Ingress'' then map_sum id (\<lambda>ing. omUID (ingMeta ing)) (get_ingress (cliReader C) key)
                    else map_sum id GetUID (get_route (cliReader C) (srKind ref) key)) of
                Inl e \<Rightarrow>
                  (if IsNotFound e then Inr missing
                   else Inl (WrapErr (Sprintf ''get source %s %s/%s: '' [FStr (srKind ref), FStr (srNamespace ref), FStr (srName ref)]) e))
              | Inr uid \<Rightarrow> Inr \<lparr>sdFound = True, sdUIDMatches = (srUID ref \<noteq> '''' \<and> srUID ref = uid)\<rparr>)"

text \<open>\<open>lookup server name recordType targets\<close> is the live lookup.\<close>

type_synonym dns_lookup = "string \<Rightarrow> string \<Rightarrow> string \<Rightarrow> string list \<Rightarrow> dnsLookup"

definition detail_of :: "cli_client \<Rightarrow> dns_lookup \<Rightarrow> string \<Rightarrow> cli_record \<Rightarrow> recordDetail result" where
  "detail_of C lookup dnsServer r =
     (case provider_detail C (cProvider r) of
        Inl e \<Rightarrow> Inl e
      | Inr provider \<Rightarrow>
          (case source_detail C (cSource r) of
             Inl e \<Rightarrow> Inl e
           | Inr src \<Rightarrow>
               Inr \<lparr>dRecord = r, dProvider = provider, dSource = src,
                    dDNS = (if dnsServer \<noteq> '''' then Some (lookup dnsServer (cDNSName r) (cRecordType r) (cTargets r)) else None)\<rparr>))"

definition details :: "cli_client \<Rightarrow> dns_lookup \<Rightarrow> string \<Rightarrow> filters \<Rightarrow> string \<Rightarrow> recordDetails result" where
  "details C lookup name f dnsServer =
     (let normalized = ToLower (TrimSuffix (TrimSpace name) ''.'') in
      case records C f of
        Inl e \<Rightarrow> Inl e
      | Inr items \<Rightarrow>
          (case traverse (detail_of C lookup dnsServer) (filter (\<lambda>r. cDNSName r = normalized) items) of
             Inl e \<Rightarrow> Inl e
           | Inr ds \<Rightarrow>
               (if ds = [] then Inl (ErrMsg (Sprintf ''no managed record found for %q'' [FStr normalized]))
                else Inr \<lparr>dsQuery = normalized, dsItems = ds\<rparr>)))"

section \<open>Status\<close>

definition resourceAvailable :: "resourceDiscovery \<Rightarrow> string \<Rightarrow> string \<Rightarrow> bool \<times> goerr option" where
  "resourceAvailable discovery version resource =
     (case discovery version of
        Inl e \<Rightarrow> (False, Some e)
      | Inr resources \<Rightarrow>
          (if resource \<in> set (map arName resources) then (True, None)
           else (False, Some (ErrMsg (Sprintf ''resource %s not served in %s'' [FStr resource, FStr version])))))"

definition managerContainerName :: string where "managerContainerName = ''manager''"
definition defaultContainerAnnotation :: string where "defaultContainerAnnotation = ''kubectl.kubernetes.io/default-container''"

text \<open>\<^verbatim>\<open>path.Base\<close>.\<close>

definition path_Base :: "string \<Rightarrow> string" where
  "path_Base p =
     (if p = '''' then ''.''
      else let r = takeWhile (\<lambda>c. c \<noteq> CHR ''/'') (dropWhile (\<lambda>c. c = CHR ''/'') (rev p))
           in if r = '''' then ''/'' else rev r)"

definition commandIsManager :: "container \<Rightarrow> bool" where
  "commandIsManager c = (case ctCommand c of [] \<Rightarrow> False | command # args \<Rightarrow> path_Base command = managerContainerName)"

definition managerContainer :: "pod_template \<Rightarrow> container option" where
  "managerContainer template =
     (case find (\<lambda>c. ctName c = managerContainerName) (ptContainers template) of
        Some c \<Rightarrow> Some c
      | None \<Rightarrow>
          (let name = get_str (ptAnnotations template) defaultContainerAnnotation in
           case (if name \<noteq> '''' then find (\<lambda>c. ctName c = name \<and> commandIsManager c) (ptContainers template) else None) of
             Some c \<Rightarrow> Some c
           | None \<Rightarrow> find commandIsManager (ptContainers template)))"

fun gateway_arg :: "string list \<Rightarrow> string \<Rightarrow> bool \<Rightarrow> bool result" where
  "gateway_arg [] arg enabled = Inr enabled"
| "gateway_arg (flag # flags) arg enabled =
     (if arg = flag then Inr True
      else case CutPrefix arg (flag @ ''='') of
             (value, True) \<Rightarrow>
               (case ParseBool value of
                  None \<Rightarrow> Inl (WrapErr (Sprintf ''invalid enable-gateway-api value %q: '' [FStr value]) std_error)
                | Some parsed \<Rightarrow> Inr parsed)
           | (value, False) \<Rightarrow> gateway_arg flags arg enabled)"

fun gateway_args :: "string list \<Rightarrow> bool \<Rightarrow> bool result" where
  "gateway_args [] enabled = Inr enabled"
| "gateway_args (arg # args) enabled =
     (case gateway_arg [''--enable-gateway-api'', ''-enable-gateway-api''] arg enabled of
        Inl e \<Rightarrow> Inl e | Inr enabled' \<Rightarrow> gateway_args args enabled')"

definition gatewayAPIEnabled :: "string list \<Rightarrow> bool result" where
  "gatewayAPIEnabled args = gateway_args args False"

definition podReady :: "pod \<Rightarrow> bool" where
  "podReady conditions = (case find (\<lambda>(kind, _). kind = ''Ready'') conditions of None \<Rightarrow> False | Some (_, value) \<Rightarrow> value = ''True'')"

definition controller_of :: "cli_client \<Rightarrow> deployment \<Rightarrow> controllerStatus result" where
  "controller_of C deployment =
     (let about = [FStr (depNamespace deployment), FStr (depName deployment)] in
      case (case managerContainer (depTemplate deployment) of
              None \<Rightarrow> Inr False
            | Some manager \<Rightarrow>
                (case gatewayAPIEnabled (ctArgs manager) of
                   Inl e \<Rightarrow> Inl (WrapErr (Sprintf ''inspect Deployment %s/%s manager arguments: '' about) e)
                 | Inr enabled \<Rightarrow> Inr enabled)) of
        Inl e \<Rightarrow> Inl e
      | Inr gateway \<Rightarrow>
          (case cliSelector C (depSelector deployment) of
             Inl e \<Rightarrow> Inl (WrapErr (Sprintf ''parse Deployment %s/%s selector: '' about) e)
           | Inr selector \<Rightarrow>
               (case cliPods C (depNamespace deployment) selector of
                  Inl e \<Rightarrow> Inl (WrapErr (Sprintf ''list Pods for Deployment %s/%s: '' about) e)
                | Inr pods \<Rightarrow>
                    Inr \<lparr>csNamespace = depNamespace deployment, csName = depName deployment,
                         csDesired = (case depReplicas deployment of None \<Rightarrow> 1 | Some n \<Rightarrow> n), csAvailable = depAvailable deployment,
                         csReadyPods = int (length (filter podReady pods)), csGatewayAPI = gateway\<rparr>)))"

definition controllers :: "cli_client \<Rightarrow> string \<Rightarrow> string \<Rightarrow> controllerStatus list result" where
  "controllers C namespace name =
     (case cliDeployments C namespace (if name = '''' then [(''app.kubernetes.io/name'', ''labdns'')] else []) of
        Inl e \<Rightarrow> Inl (WrapErr ''discover labdns controller Deployments: '' e)
      | Inr deployments \<Rightarrow>
          map_sum id (sort_key (\<lambda>c. csNamespace c @ ''/'' @ csName c))
            (traverse (controller_of C) (filter (\<lambda>d. name = '''' \<or> depName d = name) deployments)))"

text \<open>The parts of \<^verbatim>\<open>status\<close>: each returns its warnings and whether it is a hard failure.\<close>

type_synonym health = "string list \<times> bool"

definition status_requirements :: "(string \<times> string \<times> string) list" where
  "status_requirements =
     [(''DNSProvider API'', ''labdns.shednet.dev/v1alpha1'', ''dnsproviders''),
      (''DNSEndpoint API'', ''externaldns.k8s.io/v1alpha1'', ''dnsendpoints'')]"

definition gateway_requirements :: "(string \<times> string) list" where
  "gateway_requirements =
     (let v1 = ''gateway.networking.k8s.io/v1''
      in [(v1, ''httproutes''), (v1, ''tcproutes''), (v1, ''udproutes''), (v1, ''gateways''), (v1, ''gatewayclasses''),
          (''gateway.networking.k8s.io/v1beta1'', ''referencegrants'')])"

definition check_requirements :: "cli_client \<Rightarrow> prerequisite list \<times> bool" where
  "check_requirements C =
     (let items = map (\<lambda>(name, version, resource).
            (case resourceAvailable (cliDiscovery C) version resource of
               (available, err) \<Rightarrow>
                 \<lparr>preName = name, preAvailable = available, preError = (case err of None \<Rightarrow> '''' | Some e \<Rightarrow> Error e)\<rparr>)) status_requirements;
          failed = list_ex (\<lambda>(name, version, resource). snd (resourceAvailable (cliDiscovery C) version resource) \<noteq> None) status_requirements
      in (items, failed))"

definition check_gateway :: "cli_client \<Rightarrow> health" where
  "check_gateway C =
     (let missing = filter (\<lambda>(version, resource).
            (case resourceAvailable (cliDiscovery C) version resource of (available, err) \<Rightarrow> err \<noteq> None \<or> \<not> available)) gateway_requirements
      in (map (\<lambda>(version, resource). ''Gateway API is enabled but '' @ resource @ '' is unavailable'') missing, missing \<noteq> []))"

definition check_controller :: "cli_client \<Rightarrow> controllerStatus \<Rightarrow> health" where
  "check_controller C c =
     (let (warnings, missing) = (if csGatewayAPI c then check_gateway C else ([], False))
      in (warnings, csAvailable c < csDesired c \<or> csDesired c = 0 \<or> missing))"

definition check_controllers :: "cli_client \<Rightarrow> controllerStatus list result \<Rightarrow> controllerStatus list \<times> health" where
  "check_controllers C found =
     (case found of
        Inl e \<Rightarrow> ([], [Error e], True)
      | Inr cs \<Rightarrow>
          (if cs = [] then ([], [''no labdns controller Deployment found''], True)
           else (cs, concat (map (fst \<circ> check_controller C) cs), list_ex (snd \<circ> check_controller C) cs)))"

definition empty_summary :: stateSummary where
  "empty_summary = \<lparr>sumProviders = 0, sumPublishingSources = 0, sumDNSEndpoints = 0, sumRecords = 0, sumPendingTargets = 0,
     sumObserved = 0, sumStale = 0, sumInvalid = 0\<rparr>"

definition check_providers :: "cli_client \<Rightarrow> stateSummary \<times> health" where
  "check_providers C =
     (case cliProviders C of
        Inl e \<Rightarrow> (empty_summary, [''list DNSProviders: '' @ Error e], True)
      | Inr providers \<Rightarrow> (empty_summary\<lparr>sumProviders := int (length providers)\<rparr>, [], False))"

definition tally :: "stateSummary \<Rightarrow> cli_record \<Rightarrow> stateSummary" where
  "tally s r =
     (let s = s\<lparr>sumRecords := sumRecords s + 1, sumPendingTargets := sumPendingTargets s + int (length (cRetiring r))\<rparr>
      in if recordState r = stateInvalid then s\<lparr>sumInvalid := sumInvalid s + 1\<rparr>
         else if recordState r = stateObserved then s\<lparr>sumObserved := sumObserved s + 1\<rparr>
         else s\<lparr>sumStale := sumStale s + 1\<rparr>)"

definition endpoint_text :: "cli_record \<Rightarrow> string" where
  "endpoint_text r = orNamespace (cDNSEndpoint r) @ ''/'' @ orName (cDNSEndpoint r)"

definition source_text :: "cli_record \<Rightarrow> string" where
  "source_text r = srKind (cSource r) @ ''/'' @ srNamespace (cSource r) @ ''/'' @ srName (cSource r)"

definition count_records :: "stateSummary \<Rightarrow> cli_record list \<Rightarrow> stateSummary" where
  "count_records s rs =
     (foldl tally s rs)\<lparr>sumDNSEndpoints := int (length (remdups (map endpoint_text rs))),
       sumPublishingSources := int (length (remdups (map source_text rs)))\<rparr>"

definition status :: "cli_client \<Rightarrow> string \<Rightarrow> string \<Rightarrow> cli_status \<times> bool" where
  "status C controllerNamespace controllerName =
     (let (prerequisites, fail1) = check_requirements C;
          (cs, warnings2, fail2) = check_controllers C (controllers C controllerNamespace controllerName);
          (summary3, warnings3, fail3) = check_providers C;
          (summary, warnings4, fail4, degraded) =
            (case records C no_filters of
               Inl e \<Rightarrow> (summary3, [Error e], True, False)
             | Inr rs \<Rightarrow>
                 (let s = count_records summary3 rs; bad = (sumStale s > 0 \<or> sumInvalid s > 0)
                  in (s, if bad then [''managed records include stale or invalid state''] else [], False, bad)));
          hardFailure = (fail1 \<or> fail2 \<or> fail3 \<or> fail4)
      in (\<lparr>stOverall = (if hardFailure then ''unhealthy'' else if degraded then ''degraded'' else ''healthy''),
           stPrerequisites = prerequisites, stControllers = cs, stSummary = summary,
           stWarnings = warnings2 @ warnings3 @ warnings4\<rparr>, hardFailure))"
section \<open>What the records show\<close>

definition shown_active :: "cli_record list \<Rightarrow> targetKey \<Rightarrow> bool" where
  "shown_active rs k \<longleftrightarrow>
     (\<exists>r \<in> set rs. \<exists>ts. cActiveTargets r = Some ts \<and> snd (snd k) \<in> set ts \<and> cDNSName r = fst k \<and> cRecordType r = fst (snd k))"

definition shown_retiring :: "cli_record list \<Rightarrow> targetKey \<Rightarrow> int \<Rightarrow> bool" where
  "shown_retiring rs k d \<longleftrightarrow>
     (\<exists>r \<in> set rs. \<lparr>rtTarget = snd (snd k), rtDeadline = d\<rparr> \<in> set (cRetiring r) \<and> cDNSName r = fst k \<and> cRecordType r = fst (snd k))"

definition inspected :: "pendingTarget \<Rightarrow> PendingTarget" where
  "inspected p = \<lparr>tDNSName = pDNSName p, tRecordType = pRecordType p, tTarget = pTarget p, tDeadline = deadline p\<rparr>"

lemma inspected_simps [simp]:
  "tDNSName (inspected p) = pDNSName p" "tRecordType (inspected p) = pRecordType p" "tTarget (inspected p) = pTarget p"
  "tDeadline (inspected p) = deadline p"
  by (simp_all add: inspected_def)

lemma InspectLifecycle_eq: "InspectLifecycle v = map_sum id (\<lambda>st. map inspected (Pending st)) (parseLifecycle v)"
  by (simp add: InspectLifecycle_def inspected_def [abs_def] split: sum.split)

lemma record_of_simps [simp]:
  "cDNSName (record_of obj i item) = eDNSName item" "cRecordType (record_of obj i item) = eRecordType item"
  by (simp_all add: record_of_def Let_def)

lemma record_of_retiring:
  "x \<in> set (cRetiring (record_of obj (Inr (map inspected ps)) item)) \<longleftrightarrow>
     (\<exists>p \<in> set ps. pDNSName p = eDNSName item \<and> pRecordType p = eRecordType item \<and> x = \<lparr>rtTarget = pTarget p, rtDeadline = deadline p\<rparr>)"
  by (auto simp: record_of_def Let_def filter_map image_image comp_def)

lemma record_of_active:
  "cActiveTargets (record_of obj (Inr (map inspected ps)) item) = Some ts \<Longrightarrow>
     a \<in> set ts \<longleftrightarrow> a \<in> set (eTargets item) \<and> (eDNSName item, eRecordType item, a) \<notin> pending_key ` set ps"
  by (auto simp: record_of_def Let_def filter_map comp_def image_image pending_key_def image_iff)

lemma record_of_active_known: "\<exists>ts. cActiveTargets (record_of obj (Inr ps) item) = Some ts"
  by (simp add: record_of_def Let_def)

lemma set_recordsFor_all:
  "set (recordsFor obj '''') = record_of obj (InspectLifecycle (get_str (mAnnotations obj) LifecycleAnnotation)) ` {e. Some e \<in> set (SpecEndpoints obj)}"
  by (simp add: recordsFor_def wanted_type_def set_map_filter_id)

lemma mem_obj_targets: "(n, t, a) \<in> obj_targets obj \<longleftrightarrow> (\<exists>e. Some e \<in> set (SpecEndpoints obj) \<and> eDNSName e = n \<and> eRecordType e = t \<and> a \<in> set (eTargets e))"
  by (auto simp: obj_targets_def spec_targets_def set_endpointTargets set_map_filter_id)

section \<open>The health verdict\<close>

definition tallied :: "stateSummary \<Rightarrow> int \<times> int \<times> int \<times> int" where
  "tallied s = (sumRecords s, sumObserved s, sumStale s, sumInvalid s)"

definition in_state :: "string \<Rightarrow> cli_record list \<Rightarrow> int" where
  "in_state state rs = int (length (filter (\<lambda>r. recordState r = state) rs))"

lemma recordState_range: "recordState r \<in> {stateInvalid, stateObserved, stateStale}"
  by (simp add: recordState_def)

lemma states_differ: "stateInvalid \<noteq> stateObserved" "stateInvalid \<noteq> stateStale" "stateObserved \<noteq> stateStale"
  by (simp_all add: stateInvalid_def stateObserved_def stateStale_def)

lemma foldl_tally:
  "sumRecords (foldl tally s rs) = sumRecords s + int (length rs) \<and>
   sumObserved (foldl tally s rs) = sumObserved s + in_state stateObserved rs \<and>
   sumStale (foldl tally s rs) = sumStale s + in_state stateStale rs \<and>
   sumInvalid (foldl tally s rs) = sumInvalid s + in_state stateInvalid rs \<and>
   sumPendingTargets (foldl tally s rs) = sumPendingTargets s + int (sum_list (map (length \<circ> cRetiring) rs))"
proof (induction rs arbitrary: s)
  case (Cons r rs)
  note ih = Cons.IH [of "tally s r"]
  consider "recordState r = stateInvalid" | "recordState r = stateObserved" | "recordState r = stateStale"
    using recordState_range [of r] by blast
  then show ?case
    using ih states_differ by cases (simp_all add: tally_def Let_def in_state_def)
qed (simp add: in_state_def)

lemma in_state_zero: "in_state state rs = 0 \<longleftrightarrow> list_all (\<lambda>r. recordState r \<noteq> state) rs"
  by (simp add: in_state_def filter_empty_conv list_all_iff)

lemma in_state_pos: "0 < in_state state rs \<longleftrightarrow> in_state state rs \<noteq> 0"
  by (simp add: in_state_def)

definition offers :: "cli_client \<Rightarrow> string \<times> string \<Rightarrow> bool" where
  "offers C requirement \<longleftrightarrow>
     (case cliDiscovery C (fst requirement) of Inl _ \<Rightarrow> False | Inr resources \<Rightarrow> snd requirement \<in> set (map arName resources))"

lemma resourceAvailable_offers:
  "(case resourceAvailable (cliDiscovery C) version resource of (available, err) \<Rightarrow> err \<noteq> None \<or> \<not> available) \<longleftrightarrow> \<not> offers C (version, resource)"
  "snd (resourceAvailable (cliDiscovery C) version resource) = None \<longleftrightarrow> offers C (version, resource)"
  "fst (resourceAvailable (cliDiscovery C) version resource) \<longleftrightarrow> offers C (version, resource)"
  by (auto simp: resourceAvailable_def offers_def split: sum.split)

definition controller_healthy :: "cli_client \<Rightarrow> controllerStatus \<Rightarrow> bool" where
  "controller_healthy C c \<longleftrightarrow>
     csDesired c \<noteq> 0 \<and> csDesired c \<le> csAvailable c \<and> (csGatewayAPI c \<longrightarrow> list_all (offers C) gateway_requirements)"

lemma check_controller_healthy: "snd (check_controller C c) \<longleftrightarrow> \<not> controller_healthy C c"
proof -
  have "snd (check_gateway C) \<longleftrightarrow> filter (\<lambda>r. \<not> offers C r) gateway_requirements \<noteq> []"
    unfolding check_gateway_def Let_def by (simp add: resourceAvailable_offers case_prod_unfold del: not_None_eq)
  then have "snd (check_gateway C) \<longleftrightarrow> \<not> list_all (offers C) gateway_requirements" by (simp add: filter_empty_conv list_all_iff)
  then show ?thesis by (auto simp: check_controller_def controller_healthy_def split: prod.split)
qed

definition cluster_healthy :: "cli_client \<Rightarrow> string \<Rightarrow> string \<Rightarrow> bool" where
  "cluster_healthy C namespace name \<longleftrightarrow>
     list_all (\<lambda>(_, requirement). offers C requirement) status_requirements \<and>
     (case controllers C namespace name of Inl _ \<Rightarrow> False | Inr cs \<Rightarrow> cs \<noteq> [] \<and> list_all (controller_healthy C) cs) \<and>
     \<not> isl (cliProviders C) \<and> \<not> isl (records C no_filters)"

lemma status_hard_failure: "snd (status C namespace name) \<longleftrightarrow> \<not> cluster_healthy C namespace name"
proof -
  have reqs: "snd (check_requirements C) \<longleftrightarrow> \<not> list_all (\<lambda>(_, requirement). offers C requirement) status_requirements"
    unfolding check_requirements_def Let_def snd_conv
    by (simp add: case_prod_unfold resourceAvailable_offers list_all_iff list_ex_iff)
  have ctrls: "snd (snd (check_controllers C found)) \<longleftrightarrow>
      \<not> (case found of Inl _ \<Rightarrow> False | Inr cs \<Rightarrow> cs \<noteq> [] \<and> list_all (controller_healthy C) cs)" for found
    by (auto simp: check_controllers_def check_controller_healthy list_all_iff list_ex_iff split: sum.split)
  have provs: "snd (snd (check_providers C)) \<longleftrightarrow> isl (cliProviders C)" by (simp add: check_providers_def split: sum.split)
  show ?thesis
    using reqs ctrls [of "controllers C namespace name"] provs
    by (auto simp: status_def Let_def cluster_healthy_def split: prod.splits sum.splits)
qed

lemma status_summary:
  assumes "records C no_filters = Inr rs"
  shows "stSummary (fst (status C namespace name)) = count_records (fst (check_providers C)) rs"
    and "stOverall (fst (status C namespace name)) =
      (if \<not> cluster_healthy C namespace name then ''unhealthy''
       else if list_all (\<lambda>r. recordState r = stateObserved) rs then ''healthy'' else ''degraded'')"
proof -
  let ?s = "count_records (fst (check_providers C)) rs"
  show sum: "stSummary (fst (status C namespace name)) = ?s"
    by (simp add: status_def Let_def assms split: prod.split)
  have start: "sumStale (fst (check_providers C)) = 0" "sumInvalid (fst (check_providers C)) = 0"
    by (simp_all add: check_providers_def empty_summary_def split: sum.split)
  have "sumStale ?s = in_state stateStale rs" "sumInvalid ?s = in_state stateInvalid rs"
    using foldl_tally [of "fst (check_providers C)" rs] start by (simp_all add: count_records_def)
  then have bad: "sumStale ?s > 0 \<or> sumInvalid ?s > 0 \<longleftrightarrow> \<not> list_all (\<lambda>r. recordState r = stateObserved) rs"
    using recordState_range states_differ by (fastforce simp: in_state_pos in_state_zero list_all_iff)
  have "stOverall (fst (status C namespace name)) =
      (if snd (status C namespace name) then ''unhealthy'' else if sumStale ?s > 0 \<or> sumInvalid ?s > 0 then ''degraded'' else ''healthy'')"
    by (simp add: status_def Let_def assms split: prod.split)
  then show "stOverall (fst (status C namespace name)) =
      (if \<not> cluster_healthy C namespace name then ''unhealthy''
       else if list_all (\<lambda>r. recordState r = stateObserved) rs then ''healthy'' else ''degraded'')"
    unfolding status_hard_failure bad by simp
qed

section \<open>Properties\<close>

text \<open>C5: the command line tells the truth about the targets.  For an object whose lifecycle annotation can
  be read, its records show a target as active exactly when the writer's state of the object has it active.
  They show it as retiring with a deadline exactly when the annotation lists it with that deadline and the
  object has a record of its name and type, even where the record itself no longer has the target: the
  command line does not compare the annotation with the records, as the writer does.  When every pending
  target is in the spec, which the writer demands of an object before it touches it, retiring with a
  deadline is exactly what the writer's state of the object says.  For an object whose annotation is corrupt,
  every record is shown as invalid, its active targets as unknown, and nothing as retiring.\<close>

theorem records_faithful:
  "case parseLifecycle (get_str (mAnnotations obj) LifecycleAnnotation) of
      Inl e \<Rightarrow> list_all (\<lambda>r. recordState r = stateInvalid \<and> cActiveTargets r = None \<and> cRetiring r = []) (recordsFor obj recordType)
    | Inr st \<Rightarrow> (shown_active (recordsFor obj '''') k \<longleftrightarrow> obj_status obj k = Some None) \<and>
        (shown_retiring (recordsFor obj '''') k d \<longleftrightarrow>
          (\<exists>e. Some e \<in> set (SpecEndpoints obj) \<and> eDNSName e = fst k \<and> eRecordType e = fst (snd k)) \<and>
          (\<exists>p \<in> set (Pending st). pending_key p = k \<and> deadline p = d)) \<and>
        (pending_key ` set (Pending st) \<subseteq> obj_targets obj \<longrightarrow>
          (shown_retiring (recordsFor obj '''') k d \<longleftrightarrow> obj_status obj k = Some (Some d)))"
proof (cases "parseLifecycle (get_str (mAnnotations obj) LifecycleAnnotation)")
  case (Inl e)
  then show ?thesis by (auto simp: recordsFor_def InspectLifecycle_eq record_of_def recordState_def Let_def list_all_iff)
next
  case (Inr st)
  let ?ps = "Pending st" and ?r = "record_of obj (Inr (map inspected (Pending st)))"
  obtain n t a where k: "k = (n, t, a)" by (cases k)
  have wf: "wf_pendings ?ps" using parseLifecycle_wf [OF Inr] by (simp add: wf_lifecycle_def)
  have ps: "obj_pending obj = ?ps" by (simp add: obj_pending_def Inr)
  have rs: "set (recordsFor obj '''') = ?r ` {e. Some e \<in> set (SpecEndpoints obj)}" by (simp add: set_recordsFor_all InspectLifecycle_eq Inr)
  have none: "pending_lookup ?ps k = None \<longleftrightarrow> k \<notin> pending_key ` set ?ps"
    by (simp add: pending_lookup_def map_of_eq_None_iff image_image)
  have "shown_active (recordsFor obj '''') k \<longleftrightarrow> k \<in> obj_targets obj \<and> k \<notin> pending_key ` set ?ps"
    unfolding shown_active_def rs k fst_conv snd_conv mem_obj_targets bex_simps
    using record_of_active record_of_active_known by auto (metis record_of_active record_of_active_known)+
  moreover have "obj_status obj k = Some None \<longleftrightarrow> k \<in> obj_targets obj \<and> k \<notin> pending_key ` set ?ps"
    by (simp add: obj_status_def ps none)
  moreover have retiring: "shown_retiring (recordsFor obj '''') k d \<longleftrightarrow>
      (\<exists>e. Some e \<in> set (SpecEndpoints obj) \<and> eDNSName e = n \<and> eRecordType e = t) \<and> (\<exists>p \<in> set ?ps. pending_key p = k \<and> deadline p = d)"
  proof -
    have "shown_retiring (recordsFor obj '''') k d \<longleftrightarrow>
        (\<exists>e. Some e \<in> set (SpecEndpoints obj) \<and> eDNSName e = n \<and> eRecordType e = t \<and>
          (\<exists>p \<in> set ?ps. pending_key p = k \<and> deadline p = d))"
      unfolding shown_retiring_def rs k by (auto simp: record_of_retiring pending_key_def)
    then show ?thesis by blast
  qed
  moreover have "obj_status obj k = Some (Some d) \<longleftrightarrow> k \<in> obj_targets obj \<and> (\<exists>p \<in> set ?ps. pending_key p = k \<and> deadline p = d)"
    using pending_lookup_mem [OF wf, of k] by (auto simp: obj_status_def ps)
  moreover have "k \<in> obj_targets obj" if "p \<in> set ?ps" "pending_key p = k" "pending_key ` set ?ps \<subseteq> obj_targets obj" for p
    using that by blast
  moreover have "k \<in> obj_targets obj \<Longrightarrow> \<exists>e. Some e \<in> set (SpecEndpoints obj) \<and> eDNSName e = n \<and> eRecordType e = t"
    using mem_obj_targets [of n t a obj] by (auto simp: k)
  ultimately show ?thesis unfolding Inr k fst_conv snd_conv by (simp only: sum.case) blast
qed

text \<open>C22: \<^verbatim>\<open>labdns status\<close> reports health faithfully.  It fails exactly when a required API is not served, no
  controller is found, a controller lacks replicas or (with Gateway support) an API, or a listing fails.
  When the records can be listed its counters partition them, and it says "healthy" only if besides every
  record has been observed by ExternalDNS.\<close>

theorem status_correct:
  "(snd (status C namespace name) \<longleftrightarrow> \<not> cluster_healthy C namespace name) \<and>
   (case records C no_filters of
      Inl _ \<Rightarrow> stOverall (fst (status C namespace name)) = ''unhealthy''
    | Inr rs \<Rightarrow>
        (let s = stSummary (fst (status C namespace name)) in
         sumRecords s = int (length rs) \<and> sumObserved s = in_state stateObserved rs \<and> sumStale s = in_state stateStale rs \<and>
         sumInvalid s = in_state stateInvalid rs \<and> sumRecords s = sumObserved s + sumStale s + sumInvalid s) \<and>
        stOverall (fst (status C namespace name)) =
          (if \<not> cluster_healthy C namespace name then ''unhealthy''
           else if list_all (\<lambda>r. recordState r = stateObserved) rs then ''healthy'' else ''degraded''))"
proof (cases "records C no_filters")
  case (Inl e)
  then have "stOverall (fst (status C namespace name)) = ''unhealthy''" by (simp add: status_def Let_def split: prod.split)
  with Inl show ?thesis by (simp add: status_hard_failure)
next
  case (Inr rs)
  have start: "tallied (fst (check_providers C)) = (0, 0, 0, 0)"
    by (simp add: check_providers_def empty_summary_def tallied_def split: sum.split)
  have split: "int (length rs) = in_state stateObserved rs + in_state stateStale rs + in_state stateInvalid rs"
  proof (induction rs)
    case (Cons r rs)
    then show ?case using recordState_range [of r] states_differ by (auto simp: in_state_def)
  qed (simp add: in_state_def)
  show ?thesis
    using foldl_tally [of "fst (check_providers C)" rs] start split
    by (simp add: status_hard_failure Inr status_summary [OF Inr] Let_def count_records_def tallied_def)
qed

theorem records_faithful_witness:
  "\<exists>obj. obj_status obj (''app.example.com'', ''A'', ''192.0.2.1'') = Some (Some (sample_now + 60000000000)) \<and>
     shown_retiring (recordsFor obj []) (''app.example.com'', ''A'', ''192.0.2.1'') (sample_now + 60000000000) \<and>
     \<not> shown_active (recordsFor obj []) (''app.example.com'', ''A'', ''192.0.2.1'')"
proof -
  let ?k = "(''app.example.com'', ''A'', ''192.0.2.1'')" and ?d = "sample_now + 60000000000"
  obtain obj where obj: "valid_object obj" "obj_status obj = [?k \<mapsto> Some ?d]" by (rule sample_retired)
  then have sub: "pending_key ` set (obj_pending obj) \<subseteq> obj_targets obj"
    and "\<exists>st. parseLifecycle (get_str (mAnnotations obj) LifecycleAnnotation) = Inr st" by (simp_all add: valid_object_def)
  then obtain st where st: "parseLifecycle (get_str (mAnnotations obj) LifecycleAnnotation) = Inr st" by blast
  with sub have "pending_key ` set (Pending st) \<subseteq> obj_targets obj" by (simp add: obj_pending_def)
  with records_faithful [of obj "[]" ?k ?d] st obj(2) show ?thesis by (intro exI [of _ obj]) auto
qed

end
