(* ===== verification/Dns.thy ===== *)
theory Dns
  imports Inspect Go_Netip
begin

text \<open>
  The live DNS lookup of the command line: \<^verbatim>\<open>internal/cli/dns.go\<close>, with what it uses of Go's \<^verbatim>\<open>net\<close>
  package.  The DNS library is a parameter: a client sends a question to an address over a network and
  returns a response or an error; \<open>Fqdn\<close> and \<open>RcodeToString\<close> are its helpers.
\<close>

section \<open>net\<close>

text \<open>The text before and after the last colon.\<close>

definition cut_last :: "char \<Rightarrow> string \<Rightarrow> (string \<times> string) option" where
  "cut_last c s =
     (if c \<notin> set s then None
      else let after = rev (takeWhile (\<lambda>d. d \<noteq> c) (rev s)) in Some (take (length s - length after - 1) s, after))"

definition index_byte :: "char \<Rightarrow> string \<Rightarrow> nat option" where
  "index_byte c s = (if c \<in> set s then Some (length (takeWhile (\<lambda>d. d \<noteq> c) s)) else None)"

definition SplitHostPort :: "string \<Rightarrow> (string \<times> string) option" where
  "SplitHostPort hostport =
     (case cut_last CHR '':'' hostport of
        None \<Rightarrow> None
      | Some (front, port) \<Rightarrow>
          (if prefix ''['' hostport
           then (case index_byte CHR '']'' hostport of
                   None \<Rightarrow> None
                 | Some stop \<Rightarrow>
                     (if stop + 1 \<noteq> length front then None
                      else if CHR ''['' \<in> set (drop 1 hostport) \<or> CHR '']'' \<in> set (drop (stop + 1) hostport) then None
                      else Some (take (stop - 1) (drop 1 hostport), port)))
           else if CHR '':'' \<in> set front then None
           else if CHR ''['' \<in> set hostport \<or> CHR '']'' \<in> set hostport then None
           else Some (front, port)))"

definition JoinHostPort :: "string \<Rightarrow> string \<Rightarrow> string" where
  "JoinHostPort host port = (if CHR '':'' \<in> set host then ''['' @ host @ '']:'' @ port else host @ '':'' @ port)"

text \<open>\<^verbatim>\<open>net.ParseIP\<close> accepts what \<^verbatim>\<open>netip.ParseAddr\<close> does, without a zone.\<close>

definition is_ip :: "string \<Rightarrow> bool" where
  "is_ip s = (case ParseAddr s of None \<Rightarrow> False | Some (Addr4 _) \<Rightarrow> True | Some (Addr6 _ zone) \<Rightarrow> zone = '''')"

text \<open>\<^verbatim>\<open>net.IP.String\<close> of a byte slice.\<close>

fun byte_groups :: "nat list \<Rightarrow> nat list" where
  "byte_groups (a # b # bs) = (a * 256 + b) # byte_groups bs"
| "byte_groups bs = []"

definition IP_String :: "nat list \<Rightarrow> string" where
  "IP_String ip =
     (if ip = [] then ''<nil>''
      else if length ip = 4 then string4 ip
      else if length ip = 16
      then (if take 12 ip = replicate 10 0 @ [255, 255] then string4 (drop 12 ip) else string6 (byte_groups ip))
      else ''?'' @ hex_encode (map byte ip))"

text \<open>\<^verbatim>\<open>strings.ToUpper\<close>, up to letters whose upper case is not ASCII.\<close>

fun ToUpper :: "string \<Rightarrow> string" where
  "ToUpper [] = []"
| "ToUpper (c # s) =
     (if c = CHR 0xC4 \<and> prefix [CHR 0xB1] s then CHR ''I'' # ToUpper (drop 1 s)
      else if c = CHR 0xC5 \<and> prefix [CHR 0xBF] s then CHR ''S'' # ToUpper (drop 1 s)
      else upper_byte c # ToUpper s)"

section \<open>The server address\<close>

definition dnsServerAddress :: "string \<Rightarrow> string result" where
  "dnsServerAddress value =
     (let value = TrimSpace value in
      if value = '''' then Inl (ErrMsg ''DNS server must not be empty'')
      else case SplitHostPort value of
             Some (host, port) \<Rightarrow>
               (if host = '''' \<or> port = '''' then Inl (ErrMsg (Sprintf ''invalid DNS server %q'' [FStr value]))
                else Inr (JoinHostPort host port))
           | None \<Rightarrow>
               (let value = (if HasPrefix value ''['' \<and> HasSuffix value '']'' then TrimSuffix (TrimPrefix value ''['') '']'' else value) in
                if is_ip value \<or> \<not> Contains value '':'' then Inr (JoinHostPort value ''53'')
                else Inl (ErrMsg (Sprintf ''invalid DNS server %q'' [FStr value]))))"

section \<open>The lookup\<close>

datatype answer = A "nat list" | AAAA "nat list" | OtherAnswer

record dns_response =
  Truncated :: bool
  Rcode :: int
  Answers :: "answer list"

type_synonym question = "string \<times> int"
type_synonym dns_client = "question \<Rightarrow> string \<Rightarrow> dns_response result"

record dns_library =
  Fqdn :: "string \<Rightarrow> string"
  RcodeToString :: "int \<Rightarrow> string"
  defaultDNSClientFactory :: "string \<Rightarrow> dns_client"

definition TypeA :: int where "TypeA = 1"
definition TypeAAAA :: int where "TypeAAAA = 28"
definition RcodeSuccess :: int where "RcodeSuccess = 0"
definition RcodeNameError :: int where "RcodeNameError = 3"

definition dnsStateError :: string where
  "dnsStateError = ''error''"

definition query_type :: "string \<Rightarrow> int option" where
  "query_type recordType = map_of [(''A'', TypeA), (''AAAA'', TypeAAAA)] (ToUpper recordType)"

fun answer_text :: "int \<Rightarrow> answer \<Rightarrow> string option" where
  "answer_text queryType (A ip) = (if queryType = TypeA then Some (IP_String ip) else None)"
| "answer_text queryType (AAAA ip) = (if queryType = TypeAAAA then Some (IP_String ip) else None)"
| "answer_text queryType OtherAnswer = None"

text \<open>The question over UDP, and again over TCP when the response was truncated.\<close>

definition exchange :: "(string \<Rightarrow> dns_client) \<Rightarrow> question \<Rightarrow> string \<Rightarrow> dns_response result" where
  "exchange clients question address =
     (case clients ''udp'' question address of
        Inl e \<Rightarrow> Inl e
      | Inr response \<Rightarrow> (if Truncated response then clients ''tcp'' question address else Inr response))"

definition lookupDNS :: "dns_library \<Rightarrow> (string \<Rightarrow> dns_client) option \<Rightarrow> string \<Rightarrow> string \<Rightarrow> string \<Rightarrow> string list \<Rightarrow> dnsLookup" where
  "lookupDNS L factory server name recordType expected =
     (let result = \<lparr>dlServer = server, dlAnswers = [], dlState = '''', dlError = ''''\<rparr>;
          failed = (\<lambda>text. result\<lparr>dlState := dnsStateError, dlError := text\<rparr>)
      in case dnsServerAddress server of
           Inl e \<Rightarrow> failed (Error e)
         | Inr address \<Rightarrow>
             (case query_type recordType of
                None \<Rightarrow> result\<lparr>dlState := stateUnsupported, dlError := Sprintf ''live lookup does not support record type %s'' [FStr recordType]\<rparr>
              | Some queryType \<Rightarrow>
                  (let clients = (case factory of None \<Rightarrow> defaultDNSClientFactory L | Some clients \<Rightarrow> clients) in
                   case exchange clients (Fqdn L name, queryType) address of
                     Inl e \<Rightarrow> failed (Error e)
                   | Inr response \<Rightarrow>
                       (if Rcode response = RcodeNameError then result\<lparr>dlState := stateNXDomain\<rparr>
                        else if Rcode response \<noteq> RcodeSuccess then failed (RcodeToString L (Rcode response))
                        else let answers = compact (sort (List.map_filter (answer_text queryType) (Answers response)));
                                 want = compact (sort expected)
                             in result\<lparr>dlAnswers := answers, dlState := (if answers = want then stateMatch else stateMismatch)\<rparr>))))"

definition lookupDNSDefault :: "dns_library \<Rightarrow> string \<Rightarrow> string \<Rightarrow> string \<Rightarrow> string list \<Rightarrow> dnsLookup" where
  "lookupDNSDefault L server name recordType expected =
     lookupDNS L (Some (defaultDNSClientFactory L)) server name recordType expected"

section \<open>Properties\<close>

lemma compact_sort_eq_iff: "compact (sort xs) = compact (sort ys) \<longleftrightarrow> set xs = set (ys :: string list)"
proof -
  have "compact (sort xs) = compact (sort ys) \<longleftrightarrow> set (compact (sort xs)) = set (compact (sort ys))"
    by (metis compact_sort distinct_remdups distinct_sort sorted_distinct_set_unique sorted_sort)
  then show ?thesis by (simp add: compact_sort)
qed

lemma states_distinct:
  "stateMatch \<noteq> dnsStateError" "stateMatch \<noteq> stateUnsupported" "stateMatch \<noteq> stateNXDomain" "stateMatch \<noteq> stateMismatch"
  by (simp_all add: stateMatch_def dnsStateError_def stateUnsupported_def stateNXDomain_def stateMismatch_def)

text \<open>The answers of the asked type in a response.\<close>

definition typed_answers :: "int \<Rightarrow> dns_response \<Rightarrow> string set" where
  "typed_answers queryType response = {s. \<exists>a \<in> set (Answers response). answer_text queryType a = Some s}"

lemma set_map_filter_some: "set (List.map_filter f xs) = {y. \<exists>x \<in> set xs. f x = Some y}"
  by (induction xs) (auto simp: map_filter_simps split: option.splits)

text \<open>A host and a port survive being joined and split again, when they hold no bracket and the port no
  colon.\<close>

lemma cut_last_append: "c \<notin> set after \<Longrightarrow> cut_last c (front @ c # after) = Some (front, after)"
proof -
  assume c: "c \<notin> set after"
  have "takeWhile (\<lambda>d. d \<noteq> c) (rev (front @ c # after)) = rev after"
    using c by (simp add: takeWhile_append)
  then show ?thesis by (simp add: cut_last_def)
qed

definition bracket_free :: "string \<Rightarrow> bool" where
  "bracket_free s \<longleftrightarrow> CHR ''['' \<notin> set s \<and> CHR '']'' \<notin> set s"

lemma SplitHostPort_JoinHostPort:
  assumes "bracket_free host" "bracket_free port" "CHR '':'' \<notin> set port"
  shows "SplitHostPort (JoinHostPort host port) = Some (host, port)"
proof (cases "CHR '':'' \<in> set host")
  case True
  let ?s = "''['' @ host @ '']:'' @ port"
  have cut: "cut_last CHR '':'' ?s = Some (''['' @ host @ '']'', port)"
    using cut_last_append [of "CHR '':''" port "''['' @ host @ '']''"] assms(3) by simp
  have "takeWhile (\<lambda>d. d \<noteq> CHR '']'') (host @ CHR '']'' # r) = host" for r
    using assms(1) by (simp add: takeWhile_append bracket_free_def)
  then have idx: "index_byte CHR '']'' ?s = Some (length host + 1)" by (simp add: index_byte_def)
  have "SplitHostPort ?s = Some (host, port)"
    using assms(1,2) by (simp add: SplitHostPort_def cut [simplified] idx [simplified] bracket_free_def)
  with True show ?thesis by (simp add: JoinHostPort_def)
next
  case False
  have "\<not> prefix ''['' (host @ '':'' @ port)" using assms(1) by (cases host) (auto simp: bracket_free_def)
  then show ?thesis
    using False assms cut_last_append [of "CHR '':''" port host]
    by (auto simp: JoinHostPort_def SplitHostPort_def bracket_free_def)
qed

lemma cut_last_Some: "cut_last c s = Some (front, after) \<Longrightarrow> s = front @ c # after \<and> c \<notin> set after"
proof -
  assume cut: "cut_last c s = Some (front, after)"
  then have "c \<in> set s" by (auto simp: cut_last_def split: if_splits)
  then obtain pre post where "s = pre @ c # post" "c \<notin> set post" by (metis split_list_last)
  with cut cut_last_append [of c post pre] show ?thesis by simp
qed

lemma SplitHostPort_clean:
  assumes "SplitHostPort s = Some (host, port)"
  shows "bracket_free host \<and> bracket_free port \<and> CHR '':'' \<notin> set port"
proof -
  obtain front after where cut: "cut_last CHR '':'' s = Some (front, after)"
    using assms by (auto simp: SplitHostPort_def split: option.splits)
  note s = cut_last_Some [OF cut]
  show ?thesis
  proof (cases "prefix ''['' s")
    case True
    then obtain stop where stop: "index_byte CHR '']'' s = Some stop" "stop + 1 = length front"
      and clean: "CHR ''['' \<notin> set (drop 1 s)" "CHR '']'' \<notin> set (drop (stop + 1) s)"
      and r: "host = take (stop - 1) (drop 1 s)" "port = after"
      using assms cut by (auto simp: SplitHostPort_def split: option.splits if_splits)
    have "stop = length (takeWhile (\<lambda>d. d \<noteq> CHR '']'') s)" using stop(1) by (simp add: index_byte_def split: if_splits)
    then have "take stop s = takeWhile (\<lambda>d. d \<noteq> CHR '']'') s" by (simp only: takeWhile_eq_take [symmetric])
    moreover have "host = drop 1 (take stop s)" by (simp add: r(1) drop_take)
    ultimately have "CHR '']'' \<notin> set host" by (auto dest: in_set_dropD set_takeWhileD)
    moreover have "CHR ''['' \<notin> set host" using clean(1) r(1) by (metis in_set_takeD)
    moreover have "drop (stop + 1) s = CHR '':'' # after" using s stop(2) by simp
    moreover have "set after \<subseteq> set (drop 1 s)" using s stop(2) by (cases front) auto
    ultimately show ?thesis using clean s r(2) unfolding bracket_free_def by auto
  next
    case False
    then show ?thesis using assms cut s by (auto simp: SplitHostPort_def bracket_free_def split: if_splits)
  qed
qed

text \<open>C23: a live lookup is judged by sets of addresses.  Its state is "match" exactly when the server
  address is usable, the record type is supported, the response (the one over TCP if the first was
  truncated) reports success and its answers of the asked type are, as a set, the published targets; the
  answers are shown sorted and once each.  The address that is dialled names the host and port that were
  given, or port 53.\<close>

theorem lookupDNS_correct:
  "(dlState (lookupDNS L factory server name recordType expected) = stateMatch \<longleftrightarrow>
      (\<exists>address queryType response. dnsServerAddress server = Inr address \<and> query_type recordType = Some queryType \<and>
         exchange (case factory of None \<Rightarrow> defaultDNSClientFactory L | Some clients \<Rightarrow> clients) (Fqdn L name, queryType) address = Inr response \<and>
         Rcode response = RcodeSuccess \<and> typed_answers queryType response = set expected)) \<and>
   sorted (dlAnswers (lookupDNS L factory server name recordType expected)) \<and>
   distinct (dlAnswers (lookupDNS L factory server name recordType expected)) \<and>
   (case dnsServerAddress server of
      Inl e \<Rightarrow> dlState (lookupDNS L factory server name recordType expected) = dnsStateError
    | Inr address \<Rightarrow>
        (case SplitHostPort (TrimSpace server) of
           Some (host, port) \<Rightarrow> SplitHostPort address = Some (host, port)
         | None \<Rightarrow> suffix '':53'' address))"
proof (intro conjI)
  let ?l = "lookupDNS L factory server name recordType expected"
  have rc: "RcodeNameError \<noteq> RcodeSuccess" by (simp add: RcodeNameError_def RcodeSuccess_def)
  have answers: "set (List.map_filter (answer_text q) (Answers r)) = typed_answers q r" for q r
    by (auto simp: set_map_filter_some typed_answers_def)
  show "dlState ?l = stateMatch \<longleftrightarrow>
      (\<exists>address queryType response. dnsServerAddress server = Inr address \<and> query_type recordType = Some queryType \<and>
         exchange (case factory of None \<Rightarrow> defaultDNSClientFactory L | Some clients \<Rightarrow> clients) (Fqdn L name, queryType) address = Inr response \<and>
         Rcode response = RcodeSuccess \<and> typed_answers queryType response = set expected)"
    using states_distinct rc
    by (auto simp: lookupDNS_def Let_def compact_sort_eq_iff answers split: sum.splits option.splits if_splits)
  show "sorted (dlAnswers ?l)" "distinct (dlAnswers ?l)"
    by (auto simp: lookupDNS_def Let_def compact_sort split: sum.split option.split)
  have "dlState ?l = dnsStateError" if "dnsServerAddress server = Inl e" for e by (simp add: lookupDNS_def Let_def that)
  moreover have "SplitHostPort address = Some (host, port)"
    if "dnsServerAddress server = Inr address" "SplitHostPort (TrimSpace server) = Some (host, port)" for address host port
    using that SplitHostPort_JoinHostPort SplitHostPort_clean by (auto simp: dnsServerAddress_def Let_def split: if_splits)
  moreover have "suffix '':53'' address" if "dnsServerAddress server = Inr address" "SplitHostPort (TrimSpace server) = None" for address
    using that by (auto simp: dnsServerAddress_def Let_def JoinHostPort_def suffix_def split: if_splits)
  ultimately show "case dnsServerAddress server of
      Inl e \<Rightarrow> dlState ?l = dnsStateError
    | Inr address \<Rightarrow>
        (case SplitHostPort (TrimSpace server) of
           Some (host, port) \<Rightarrow> SplitHostPort address = Some (host, port)
         | None \<Rightarrow> suffix '':53'' address)"
    by (simp split: sum.split option.split prod.split)
qed

text \<open>Two empty brackets are accepted, as the local host, although an empty server is not.\<close>

lemma empty_brackets_accepted: "dnsServerAddress ''[]'' = Inr '':53''"
  by code_simp

end
