(* ===== verification/Table.thy ===== *)
theory Table
  imports Errors Go_Utf8
begin

text \<open>
  The tables of \<^verbatim>\<open>internal/cli/output.go\<close>: cells of coloured segments, the elastic column widths of a block
  of rows, and the writes that print them.  A writer is a function from a text and its state to Go's
  \<^verbatim>\<open>(n, err)\<close>; an \<open>action\<close> is a computation that writes: \<open>None\<close> when it does not return (it panics or
  loops), otherwise its error and the state of the writer.
\<close>

section \<open>Actions\<close>

type_synonym 'w io_writer = "string \<Rightarrow> 'w \<Rightarrow> (int \<times> goerr option) \<times> 'w"
type_synonym 'w action = "'w \<Rightarrow> (goerr option \<times> 'w) option"

definition done_ok :: "'w action" where
  "done_ok w = Some (None, w)"

definition panic :: "'w action" where
  "panic w = None"

definition and_next :: "'w action \<Rightarrow> 'w action \<Rightarrow> 'w action" where
  "and_next a b w = Option.bind (a w) (\<lambda>(err, w'). case err of Some e \<Rightarrow> Some (Some e, w') | None \<Rightarrow> b w')"

fun each :: "('a \<Rightarrow> 'w action) \<Rightarrow> 'a list \<Rightarrow> 'w action" where
  "each f [] = done_ok"
| "each f (x # xs) = and_next (f x) (each f xs)"

definition ErrShortWrite :: goerr where
  "ErrShortWrite = ErrMsg ''short write''"

definition writeString :: "'w io_writer \<Rightarrow> string \<Rightarrow> 'w action" where
  "writeString W value w =
     (case W value w of
        ((written, Some e), w') \<Rightarrow> Some (Some e, w')
      | ((written, None), w') \<Rightarrow> Some (if written \<noteq> int (length value) then Some ErrShortWrite else None, w'))"

text \<open>\<^verbatim>\<open>strings.Repeat\<close> panics on a negative count.\<close>

definition Repeat :: "string \<Rightarrow> int \<Rightarrow> string option" where
  "Repeat s n = (if n < 0 then None else Some (concat (replicate (nat n) s)))"

section \<open>Cells\<close>

datatype ansiColor = ansiNone | ansiGreenColor | ansiYellowColor | ansiRedColor

definition esc :: string where "esc = [CHR 0x1B]"
definition ansiReset :: string where "ansiReset = esc @ ''[0m''"
definition ansiGreen :: string where "ansiGreen = esc @ ''[32m''"
definition ansiYellow :: string where "ansiYellow = esc @ ''[33m''"
definition ansiRed :: string where "ansiRed = esc @ ''[31m''"

record tableSegment =
  segText :: string
  segColor :: ansiColor

type_synonym tableCell = "tableSegment list"

text \<open>A row is \<open>None\<close> when the slice is nil: a blank line.\<close>

type_synonym tableRow = "tableCell list option"

definition plainCell :: "string \<Rightarrow> tableCell" where
  "plainCell text = [\<lparr>segText = text, segColor = ansiNone\<rparr>]"

definition coloured_cell :: "string \<Rightarrow> ansiColor \<Rightarrow> tableCell" where
  "coloured_cell text color = (if text = '''' \<or> color = ansiNone then plainCell text else [\<lparr>segText = text, segColor = color\<rparr>])"

fun colorCode :: "ansiColor \<Rightarrow> string" where
  "colorCode ansiGreenColor = ansiGreen"
| "colorCode ansiYellowColor = ansiYellow"
| "colorCode ansiRedColor = ansiRed"
| "colorCode ansiNone = ''''"

definition segment_rendered :: "bool \<Rightarrow> tableSegment \<Rightarrow> string" where
  "segment_rendered enabled segment =
     (if \<not> enabled \<or> segColor segment = ansiNone \<or> segText segment = '''' then segText segment
      else colorCode (segColor segment) @ segText segment @ ansiReset)"

definition cell_text :: "tableCell \<Rightarrow> string" where
  "cell_text cell = concat (map segText cell)"

definition cell_width :: "tableCell \<Rightarrow> nat" where
  "cell_width cell = RuneCount (cell_text cell)"

definition cell_rendered :: "bool \<Rightarrow> tableCell \<Rightarrow> string" where
  "cell_rendered enabled cell = concat (map (segment_rendered enabled) cell)"

section \<open>Column widths\<close>

text \<open>The scan of one contiguous run of rows that have the column, with the width it accumulates.\<close>

function run_scan :: "tableCell list list \<Rightarrow> nat \<Rightarrow> nat \<Rightarrow> nat \<Rightarrow> nat \<times> nat" where
  "run_scan rows column stop width =
     (if stop < length rows \<and> column + 1 < length (rows ! stop)
      then run_scan rows column (stop + 1) (max width (cell_width (rows ! stop ! column)))
      else (stop, width))"
  by pat_completeness auto
termination by (relation "measure (\<lambda>(rows, column, stop, width). length rows - stop)") auto

declare run_scan.simps [simp del]

definition set_width :: "nat \<Rightarrow> nat \<Rightarrow> nat \<Rightarrow> nat list list \<Rightarrow> nat list list" where
  "set_width column width row rowWidths = rowWidths[row := (rowWidths ! row)[column := width]]"

text \<open>\<^verbatim>\<open>for start := 0; start < len(rows);\<close> has no increment of its own: \<open>None\<close> if it does not end.\<close>

partial_function (option) column_loop :: "tableCell list list \<Rightarrow> nat \<Rightarrow> nat \<Rightarrow> nat list list \<Rightarrow> nat list list option" where
  "column_loop rows column start rowWidths =
     (if length rows \<le> start then Some rowWidths
      else if length (rows ! start) \<le> column + 1 then column_loop rows column (start + 1) rowWidths
      else let (stop, width) = run_scan rows column start 0
           in column_loop rows column stop (fold (set_width column width) [start..<stop] rowWidths))"

fun columns_loop :: "tableCell list list \<Rightarrow> nat list \<Rightarrow> nat list list \<Rightarrow> nat list list option" where
  "columns_loop rows [] rowWidths = Some rowWidths"
| "columns_loop rows (column # columns) rowWidths = Option.bind (column_loop rows column 0 rowWidths) (columns_loop rows columns)"

definition maxColumns :: "tableCell list list \<Rightarrow> nat" where
  "maxColumns rows = foldl (\<lambda>m row. max m (length row - 1)) 0 rows"

definition block_widths :: "tableCell list list \<Rightarrow> nat list list option" where
  "block_widths rows = columns_loop rows [0..<maxColumns rows] (map (\<lambda>row. replicate (length row - 1) 0) rows)"

section \<open>Printing\<close>

definition write_cell :: "'w io_writer \<Rightarrow> bool \<Rightarrow> nat list \<Rightarrow> tableCell list \<Rightarrow> nat \<Rightarrow> 'w action" where
  "write_cell W enabled widths row column =
     and_next (writeString W (cell_rendered enabled (row ! column)))
       (if column + 1 < length row
        then (case Repeat '' '' (int (widths ! column) - int (cell_width (row ! column)) + 2) of
                None \<Rightarrow> panic | Some spaces \<Rightarrow> writeString W spaces)
        else done_ok)"

definition write_row :: "'w io_writer \<Rightarrow> bool \<Rightarrow> nat list \<Rightarrow> tableCell list \<Rightarrow> 'w action" where
  "write_row W enabled widths row =
     and_next (each (write_cell W enabled widths row) [0..<length row]) (writeString W ''\<newline>'')"

definition writeTableBlock :: "'w io_writer \<Rightarrow> tableCell list list \<Rightarrow> bool \<Rightarrow> 'w action" where
  "writeTableBlock W rows enabled w =
     Option.bind (block_widths rows) (\<lambda>rowWidths.
       each (\<lambda>(rowIndex, row). write_row W enabled (rowWidths ! rowIndex) row) (enumerate 0 rows) w)"

function block_end :: "tableRow list \<Rightarrow> nat \<Rightarrow> nat" where
  "block_end rows stop = (if stop < length rows \<and> rows ! stop \<noteq> None then block_end rows (stop + 1) else stop)"
  by pat_completeness auto
termination by (relation "measure (\<lambda>(rows, stop). length rows - stop)") auto

declare block_end.simps [simp del]

partial_function (option) table_loop :: "'w io_writer \<Rightarrow> tableRow list \<Rightarrow> bool \<Rightarrow> nat \<Rightarrow> 'w \<Rightarrow> (goerr option \<times> 'w) option" where
  "table_loop W rows enabled start w =
     (if length rows \<le> start then Some (None, w)
      else let stop = (if rows ! start = None then start + 1 else block_end rows start)
           in Option.bind
                (if rows ! start = None then writeString W ''\<newline>'' w
                 else writeTableBlock W (map the (take (stop - start) (drop start rows))) enabled w)
                (\<lambda>(err, w'). case err of Some e \<Rightarrow> Some (Some e, w') | None \<Rightarrow> table_loop W rows enabled stop w'))"

declare column_loop.simps [code] table_loop.simps [code]

definition writeTable :: "'w io_writer \<Rightarrow> tableRow list \<Rightarrow> bool \<Rightarrow> 'w action" where
  "writeTable W rows enabled = table_loop W rows enabled 0"

section \<open>What the widths are\<close>

text \<open>Row \<open>i\<close> has the tab-terminated column \<open>c\<close>; its run is the rows around it without a gap that have it
  too.\<close>

definition has_column :: "tableCell list list \<Rightarrow> nat \<Rightarrow> nat \<Rightarrow> bool" where
  "has_column rows c i \<longleftrightarrow> i < length rows \<and> c + 1 < length (rows ! i)"

definition column_run :: "tableCell list list \<Rightarrow> nat \<Rightarrow> nat \<Rightarrow> nat set" where
  "column_run rows c i = {j. \<forall>k. min i j \<le> k \<and> k \<le> max i j \<longrightarrow> has_column rows c k}"

definition elastic_width :: "tableCell list list \<Rightarrow> nat \<Rightarrow> nat \<Rightarrow> nat" where
  "elastic_width rows c i = Max ((\<lambda>j. cell_width (rows ! j ! c)) ` column_run rows c i)"

lemma finite_column_run [simp]: "finite (column_run rows c i)"
proof (rule finite_subset)
  show "column_run rows c i \<subseteq> {..<length rows}" by (auto simp: column_run_def has_column_def)
qed simp

lemma column_run_self: "has_column rows c i \<Longrightarrow> i \<in> column_run rows c i"
  by (auto simp: column_run_def)

lemma elastic_width_ge: "has_column rows c i \<Longrightarrow> cell_width (rows ! i ! c) \<le> elastic_width rows c i"
  unfolding elastic_width_def by (intro Max_ge) (auto intro: column_run_self)

lemma column_run_interval:
  assumes "start \<le> i" "i < stop" "\<forall>k. start \<le> k \<and> k < stop \<longrightarrow> has_column rows c k"
    and "start = 0 \<or> \<not> has_column rows c (start - 1)" "\<not> has_column rows c stop"
  shows "column_run rows c i = {start..<stop}"
proof (intro set_eqI iffI)
  fix j
  assume j: "j \<in> column_run rows c i"
  have "j < stop"
  proof (rule ccontr)
    assume "\<not> j < stop"
    then have "min i j \<le> stop \<and> stop \<le> max i j" using assms(2) by auto
    with j assms(5) show False by (simp add: column_run_def)
  qed
  moreover have "start \<le> j"
  proof (rule ccontr)
    assume "\<not> start \<le> j"
    then have "min i j \<le> start - 1 \<and> start - 1 \<le> max i j" "start \<noteq> 0" using assms(1) by auto
    with j assms(4) show False by (simp add: column_run_def)
  qed
  ultimately show "j \<in> {start..<stop}" by simp
next
  fix j
  assume "j \<in> {start..<stop}"
  then have "start \<le> k \<and> k < stop" if "min i j \<le> k \<and> k \<le> max i j" for k using that assms(1,2) by auto
  then show "j \<in> column_run rows c i" using assms(3) by (simp add: column_run_def)
qed

text \<open>Neighbours in a run have the same width.\<close>

lemma elastic_width_next:
  assumes "has_column rows c i" "has_column rows c (i + 1)"
  shows "elastic_width rows c (i + 1) = elastic_width rows c i"
proof -
  have "column_run rows c (i + 1) = column_run rows c i"
  proof (intro set_eqI)
    fix j
    have "(\<forall>k. min (i + 1) j \<le> k \<and> k \<le> max (i + 1) j \<longrightarrow> has_column rows c k) \<longleftrightarrow>
        (\<forall>k. min i j \<le> k \<and> k \<le> max i j \<longrightarrow> has_column rows c k)"
    proof (cases "j \<le> i")
      case True
      then have "min (i + 1) j \<le> k \<and> k \<le> max (i + 1) j \<longleftrightarrow> (min i j \<le> k \<and> k \<le> max i j) \<or> k = i + 1" for k by auto
      then show ?thesis using assms by auto
    next
      case False
      then have "min i j \<le> k \<and> k \<le> max i j \<longleftrightarrow> (min (i + 1) j \<le> k \<and> k \<le> max (i + 1) j) \<or> k = i" for k by auto
      then show ?thesis using assms by auto
    qed
    then show "j \<in> column_run rows c (i + 1) \<longleftrightarrow> j \<in> column_run rows c i" by (simp add: column_run_def)
  qed
  then show ?thesis by (simp add: elastic_width_def)
qed

lemma run_scan_step:
  "has_column rows c start \<Longrightarrow> run_scan rows c start width = run_scan rows c (start + 1) (max width (cell_width (rows ! start ! c)))"
  "\<not> has_column rows c start \<Longrightarrow> run_scan rows c start width = (start, width)"
  by (subst run_scan.simps, simp add: has_column_def)+

lemma run_scan_correct:
  "run_scan rows c start width = (stop, width') \<Longrightarrow>
     start \<le> stop \<and> (\<forall>k. start \<le> k \<and> k < stop \<longrightarrow> has_column rows c k) \<and> \<not> has_column rows c stop \<and>
     width' = Max (insert width ((\<lambda>k. cell_width (rows ! k ! c)) ` {start..<stop}))"
proof (induction rows c start width rule: run_scan.induct)
  case (1 rows c start width)
  show ?case
  proof (cases "has_column rows c start")
    case True
    let ?w = "cell_width (rows ! start ! c)"
    have "start < length rows \<and> c + 1 < length (rows ! start)" using True by (simp add: has_column_def)
    from "1.IH" [OF this] "1.prems" True
    have ih: "start + 1 \<le> stop" "\<forall>k. start + 1 \<le> k \<and> k < stop \<longrightarrow> has_column rows c k" "\<not> has_column rows c stop"
      "width' = Max (insert (max width ?w) ((\<lambda>k. cell_width (rows ! k ! c)) ` {start + 1..<stop}))"
      by (simp_all add: run_scan_step(1))
    have "has_column rows c k" if "start \<le> k \<and> k < stop" for k
      using that ih(2) True by (cases "k = start") auto
    moreover have "Max (insert (max width ?w) A) = Max (insert width (insert ?w A))" if "finite A" for A
      using that by (cases "A = {}") (simp_all add: max.assoc)
    moreover have "{start..<stop} = insert start {start + 1..<stop}" using ih(1) by auto
    ultimately show ?thesis using ih(1,3,4) by simp
  next
    case False
    with "1.prems" show ?thesis by (simp add: run_scan_step(2)) linarith
  qed
qed

lemma fold_set_width:
  assumes "stop \<le> length rw"
  shows "length (fold (set_width c width) [start..<stop] rw) = length rw \<and>
    (\<forall>i < length rw. fold (set_width c width) [start..<stop] rw ! i = (if start \<le> i \<and> i < stop then (rw ! i)[c := width] else rw ! i))"
  using assms
proof (induction stop)
  case (Suc stop)
  then show ?case by (cases "start \<le> stop") (auto simp: set_width_def nth_list_update less_Suc_eq)
qed simp

text \<open>A column's loop ends, whatever the rows, and has set the width of the run of every row it passed.\<close>

lemma column_loop_correct:
  assumes "length rw = length rows" "start = 0 \<or> \<not> has_column rows c (start - 1) \<or> \<not> has_column rows c start"
  shows "\<exists>rw'. column_loop rows c start rw = Some rw' \<and> length rw' = length rows \<and>
    (\<forall>i < length rows. rw' ! i = (if start \<le> i \<and> has_column rows c i then (rw ! i)[c := elastic_width rows c i] else rw ! i))"
  using assms
proof (induction "length rows - start" arbitrary: start rw rule: less_induct)
  case less
  show ?case
  proof (cases "length rows \<le> start")
    case True
    then show ?thesis using less.prems(1) by (auto simp: column_loop.simps [of rows c start rw])
  next
    case in_range: False
    show ?thesis
    proof (cases "has_column rows c start")
      case False
      then have eq: "column_loop rows c start rw = column_loop rows c (start + 1) rw"
        using in_range by (simp add: column_loop.simps [of rows c start rw] has_column_def)
      have less: "length rows - (start + 1) < length rows - start" using in_range by simp
      obtain rw' where rw': "column_loop rows c (start + 1) rw = Some rw'" "length rw' = length rows"
        "\<forall>i < length rows. rw' ! i = (if start + 1 \<le> i \<and> has_column rows c i then (rw ! i)[c := elastic_width rows c i] else rw ! i)"
        using less.hyps [OF less, of rw] less.prems(1) False by auto
      have "start + 1 \<le> i \<longleftrightarrow> start \<le> i" if "has_column rows c i" for i
        using that False by (cases "i = start") auto
      then show ?thesis unfolding eq using rw' by (intro exI [of _ rw']) auto
    next
      case True
      obtain stop width where scan: "run_scan rows c start 0 = (stop, width)" by fastforce
      have run: "start \<le> stop" "\<forall>k. start \<le> k \<and> k < stop \<longrightarrow> has_column rows c k" "\<not> has_column rows c stop"
        "width = Max (insert 0 ((\<lambda>k. cell_width (rows ! k ! c)) ` {start..<stop}))"
        using run_scan_correct [OF scan] by simp_all
      have later: "start < stop" using run(1,3) True by (cases "start = stop") auto
      have "start \<le> stop - 1 \<and> stop - 1 < stop" using later by auto
      then have "has_column rows c (stop - 1)" using run(2) by blast
      then have stop_le: "stop \<le> length rows" unfolding has_column_def by linarith
      have left: "start = 0 \<or> \<not> has_column rows c (start - 1)" using less.prems(2) True by blast
      have width: "width = elastic_width rows c i" if "start \<le> i" "i < stop" for i
      proof -
        have "(\<lambda>k. cell_width (rows ! k ! c)) ` {start..<stop} \<noteq> {}" using later by simp
        then have "width = Max ((\<lambda>k. cell_width (rows ! k ! c)) ` {start..<stop})" unfolding run(4) by (subst Max_insert) auto
        then show ?thesis unfolding elastic_width_def column_run_interval [OF that run(2) left run(3)] .
      qed
      let ?rw = "fold (set_width c width) [start..<stop] rw"
      note upd = fold_set_width [of stop rw c width start, unfolded less.prems(1), OF stop_le]
      have eq: "column_loop rows c start rw = column_loop rows c stop ?rw"
        using in_range True by (simp add: column_loop.simps [of rows c start rw] has_column_def scan)
      have shorter: "length rows - stop < length rows - start" using later in_range by linarith
      obtain rw' where rw': "column_loop rows c stop ?rw = Some rw'" "length rw' = length rows"
        "\<forall>i < length rows. rw' ! i = (if stop \<le> i \<and> has_column rows c i then (?rw ! i)[c := elastic_width rows c i] else ?rw ! i)"
        using less.hyps [OF shorter, of ?rw] upd run(3) by auto
      have "rw' ! i = (if start \<le> i \<and> has_column rows c i then (rw ! i)[c := elastic_width rows c i] else rw ! i)" if i: "i < length rows" for i
      proof -
        consider "i < start" | "start \<le> i" "i < stop" | "stop \<le> i" by linarith
        then show ?thesis
          using rw'(3) i upd width [of i] run(2) later by cases auto
      qed
      then show ?thesis unfolding eq using rw'(1,2) by (intro exI [of _ rw']) simp
    qed
  qed
qed

lemma columns_loop_correct:
  assumes "length rw = length rows"
  shows "\<exists>rw'. columns_loop rows cs rw = Some rw' \<and> length rw' = length rows \<and>
    (\<forall>i < length rows. rw' ! i = fold (\<lambda>c ws. ws[c := elastic_width rows c i]) (filter (\<lambda>c. has_column rows c i) cs) (rw ! i))"
  using assms
proof (induction cs arbitrary: rw)
  case (Cons c cs)
  obtain rw1 where one: "column_loop rows c 0 rw = Some rw1" "length rw1 = length rows"
    "\<forall>i < length rows. rw1 ! i = (if has_column rows c i then (rw ! i)[c := elastic_width rows c i] else rw ! i)"
    using column_loop_correct [OF Cons.prems, of 0 c] by auto
  obtain rw2 where two: "columns_loop rows cs rw1 = Some rw2" "length rw2 = length rows"
    "\<forall>i < length rows. rw2 ! i = fold (\<lambda>c ws. ws[c := elastic_width rows c i]) (filter (\<lambda>c. has_column rows c i) cs) (rw1 ! i)"
    using Cons.IH [OF one(2)] by blast
  show ?case using one two by (intro exI [of _ rw2]) auto
qed simp

lemma fold_updates:
  "m \<le> n \<Longrightarrow> fold (\<lambda>c ws. ws[c := f c]) [0..<m] (replicate n 0) = map f [0..<m] @ replicate (n - m) (0 :: nat)"
proof (induction m)
  case (Suc m)
  then have "replicate (n - m) (0::nat) = 0 # replicate (n - Suc m) 0" by (metis Suc_diff_Suc Suc_le_lessD replicate_Suc)
  with Suc show ?case by (simp add: list_update_append)
qed simp

lemma maxColumns_ge:
  assumes "row \<in> set rows"
  shows "length row - 1 \<le> maxColumns rows"
proof -
  have "n \<le> foldl (\<lambda>m row. max m (length row - 1)) n rows \<and> (\<forall>row \<in> set rows. length row - 1 \<le> foldl (\<lambda>m row. max m (length row - 1)) n rows)" for n
  proof (induction rows arbitrary: n)
    case (Cons r rows)
    show ?case using Cons.IH [of "max n (length r - 1)"] by auto
  qed simp
  with assms show ?thesis by (auto simp: maxColumns_def)
qed

text \<open>The widths of a block.\<close>

lemma block_widths_eq:
  "block_widths rows = Some (map (\<lambda>i. map (\<lambda>c. elastic_width rows c i) [0..<length (rows ! i) - 1]) [0..<length rows])"
proof -
  obtain rw where rw: "block_widths rows = Some rw" "length rw = length rows"
    "\<forall>i < length rows. rw ! i = fold (\<lambda>c ws. ws[c := elastic_width rows c i]) (filter (\<lambda>c. has_column rows c i) [0..<maxColumns rows])
       (map (\<lambda>row. replicate (length row - 1) 0) rows ! i)"
    using columns_loop_correct [of "map (\<lambda>row. replicate (length row - 1) 0) rows" rows] by (auto simp: block_widths_def)
  have "rw ! i = map (\<lambda>c. elastic_width rows c i) [0..<length (rows ! i) - 1]" if i: "i < length rows" for i
  proof -
    let ?n = "length (rows ! i) - 1"
    have le: "?n \<le> maxColumns rows" using maxColumns_ge i nth_mem by blast
    have "filter (\<lambda>c. has_column rows c i) [0..<maxColumns rows] = filter (\<lambda>c. c < ?n) [0..<maxColumns rows]"
      using i by (intro filter_cong) (auto simp: has_column_def)
    also have "\<dots> = [0..<?n]"
    proof -
      have "[0..<maxColumns rows] = [0..<?n] @ [?n..<maxColumns rows]" using le by (metis le_add_diff_inverse upt_add_eq_append zero_le)
      then show ?thesis by simp
    qed
    finally show ?thesis using rw(3) i fold_updates [of ?n ?n "\<lambda>c. elastic_width rows c i"] by simp
  qed
  then show ?thesis using rw(1,2) by (auto intro: nth_equalityI)
qed
section \<open>What is written\<close>

text \<open>The texts handed to the writer, in order, and their delivery: up to the first failure.\<close>

fun write_all :: "'w io_writer \<Rightarrow> string list \<Rightarrow> 'w \<Rightarrow> goerr option \<times> 'w" where
  "write_all W [] w = (None, w)"
| "write_all W (s # ss) w =
     (case W s w of
        ((n, Some e), w') \<Rightarrow> (Some e, w')
      | ((n, None), w') \<Rightarrow> (if n \<noteq> int (length s) then (Some ErrShortWrite, w') else write_all W ss w'))"

definition spaces :: "nat \<Rightarrow> string" where
  "spaces n = replicate n CHR '' ''"

definition cell_chunks :: "tableCell list list \<Rightarrow> bool \<Rightarrow> nat \<Rightarrow> nat \<Rightarrow> string list" where
  "cell_chunks rows enabled i c =
     cell_rendered enabled (rows ! i ! c) #
     (if c + 1 < length (rows ! i) then [spaces (elastic_width rows c i - cell_width (rows ! i ! c) + 2)] else [])"

definition row_chunks :: "tableCell list list \<Rightarrow> bool \<Rightarrow> nat \<Rightarrow> string list" where
  "row_chunks rows enabled i = concat (map (cell_chunks rows enabled i) [0..<length (rows ! i)]) @ [''\<newline>'']"

definition block_chunks :: "tableCell list list \<Rightarrow> bool \<Rightarrow> string list" where
  "block_chunks rows enabled = concat (map (row_chunks rows enabled) [0..<length rows])"

function table_chunks :: "tableRow list \<Rightarrow> bool \<Rightarrow> string list" where
  "table_chunks [] enabled = []"
| "table_chunks (None # rows) enabled = ''\<newline>'' # table_chunks rows enabled"
| "table_chunks (Some row # rows) enabled =
     block_chunks (row # map the (takeWhile (\<lambda>r. r \<noteq> None) rows)) enabled @ table_chunks (dropWhile (\<lambda>r. r \<noteq> None) rows) enabled"
  by pat_completeness auto
termination by (relation "measure (\<lambda>(rows, _). length rows)") (auto simp: le_imp_less_Suc length_dropWhile_le)

definition writes :: "'w io_writer \<Rightarrow> string list \<Rightarrow> 'w action" where
  "writes W ss w = Some (write_all W ss w)"

lemma write_all_append:
  "write_all W (ss @ ts) w = (case write_all W ss w of (Some e, w') \<Rightarrow> (Some e, w') | (None, w') \<Rightarrow> write_all W ts w')"
  by (induction ss arbitrary: w) (auto split: prod.split option.split)

lemma writes_one: "writeString W s = writes W [s]"
  by (rule ext) (auto simp: writeString_def writes_def split: prod.split option.split)

lemma writes_none: "done_ok = writes W []"
  by (rule ext) (simp add: done_ok_def writes_def)

lemma writes_next: "and_next (writes W ss) (writes W ts) = writes W (ss @ ts)"
  by (rule ext) (auto simp: and_next_def writes_def write_all_append split: prod.split option.split)

lemma writes_each:
  assumes "\<And>x. x \<in> set xs \<Longrightarrow> f x = writes W (g x)"
  shows "each f xs = writes W (concat (map g xs))"
  using assms by (induction xs) (simp_all add: writes_none [symmetric] writes_next)

lemma Repeat_spaces: "w \<le> n \<Longrightarrow> Repeat '' '' (int n - int w + 2) = Some (spaces (n - w + 2))"
proof -
  assume "w \<le> n"
  then have "nat (int n - int w + 2) = n - w + 2" "0 \<le> int n - int w + 2" by (simp_all add: nat_add_distrib nat_diff_distrib)
  moreover have "concat (replicate k '' '') = replicate k (CHR '' '')" for k by (induction k) simp_all
  ultimately show ?thesis by (simp add: Repeat_def spaces_def)
qed

lemma write_row_eq:
  assumes "i < length rows"
  shows "write_row W enabled (map (\<lambda>c. elastic_width rows c i) [0..<length (rows ! i) - 1]) (rows ! i) = writes W (row_chunks rows enabled i)"
proof -
  have "write_cell W enabled (map (\<lambda>c. elastic_width rows c i) [0..<length (rows ! i) - 1]) (rows ! i) c = writes W (cell_chunks rows enabled i c)"
    if "c < length (rows ! i)" for c
  proof (cases "c + 1 < length (rows ! i)")
    case True
    then have "cell_width (rows ! i ! c) \<le> elastic_width rows c i" using assms by (intro elastic_width_ge) (simp add: has_column_def)
    with True show ?thesis
      by (simp add: write_cell_def cell_chunks_def Repeat_spaces writes_one writes_next less_diff_conv)
  next
    case False
    then show ?thesis by (simp add: write_cell_def cell_chunks_def writes_one writes_none [of W] writes_next)
  qed
  then have "each (write_cell W enabled (map (\<lambda>c. elastic_width rows c i) [0..<length (rows ! i) - 1]) (rows ! i)) [0..<length (rows ! i)] =
      writes W (concat (map (cell_chunks rows enabled i) [0..<length (rows ! i)]))"
    by (intro writes_each) simp
  then show ?thesis unfolding write_row_def row_chunks_def by (simp only: writes_one writes_next)
qed

lemma enumerate_map: "enumerate 0 xs = map (\<lambda>i. (i, xs ! i)) [0..<length xs]"
  by (rule nth_equalityI) (simp_all add: nth_enumerate_eq)

lemma each_map: "each f (map g xs) = each (f \<circ> g) xs"
  by (induction xs) simp_all

lemma each_cong: "(\<And>x. x \<in> set xs \<Longrightarrow> f x = g x) \<Longrightarrow> each f xs = each g xs"
  by (induction xs) simp_all

lemma writeTableBlock_eq: "writeTableBlock W rows enabled = writes W (block_chunks rows enabled)"
proof (rule ext)
  fix w
  let ?ws = "map (\<lambda>i. map (\<lambda>c. elastic_width rows c i) [0..<length (rows ! i) - 1]) [0..<length rows]"
  have "each (\<lambda>(rowIndex, row). write_row W enabled (?ws ! rowIndex) row) (enumerate 0 rows) =
      each (\<lambda>i. write_row W enabled (?ws ! i) (rows ! i)) [0..<length rows]"
    by (simp add: enumerate_map each_map comp_def)
  also have "\<dots> = writes W (block_chunks rows enabled)"
    unfolding block_chunks_def by (rule writes_each) (simp add: write_row_eq [unfolded One_nat_def])
  finally show "writeTableBlock W rows enabled w = writes W (block_chunks rows enabled) w"
    by (simp add: writeTableBlock_def block_widths_eq)
qed

lemma block_end_eq: "block_end rows start = start + length (takeWhile (\<lambda>r. r \<noteq> None) (drop start rows))"
proof (induction rows start rule: block_end.induct)
  case (1 rows start)
  show ?case
  proof (cases "start < length rows")
    case True
    then have "drop start rows = rows ! start # drop (start + 1) rows" using Cons_nth_drop_Suc by fastforce
    with 1 True show ?thesis by (subst block_end.simps) simp
  next
    case False
    then show ?thesis by (subst block_end.simps) simp
  qed
qed

text \<open>\<^verbatim>\<open>writeTable\<close> never panics and always ends.\<close>

lemma table_loop_eq: "table_loop W rows enabled start w = Some (write_all W (table_chunks (drop start rows) enabled) w)"
proof (induction "length rows - start" arbitrary: start w rule: less_induct)
  case less
  note step = table_loop.simps [of W rows enabled start w]
  show ?case
  proof (cases "length rows \<le> start")
    case True
    then show ?thesis unfolding step by (simp only: if_True drop_all table_chunks.simps write_all.simps)
  next
    case False
    then have d: "drop start rows = rows ! start # drop (start + 1) rows" by (metis Cons_nth_drop_Suc Suc_eq_plus1 not_le)
    define stop where "stop = (if rows ! start = None then start + 1 else block_end rows start)"
    have later: "start < stop"
      using d by (auto simp: stop_def block_end_eq)
    then have ih: "table_loop W rows enabled stop w' = Some (write_all W (table_chunks (drop stop rows) enabled) w')" for w'
      using False by (intro less.hyps) auto
    define chunks where "chunks = (if rows ! start = None then [''\<newline>''] else block_chunks (map the (take (stop - start) (drop start rows))) enabled)"
    have one: "(if rows ! start = None then writeString W ''\<newline>'' w else writeTableBlock W (map the (take (stop - start) (drop start rows))) enabled w) =
        Some (write_all W chunks w)" for w
      by (simp add: chunks_def writes_one writeTableBlock_eq writes_def)
    have "table_chunks (drop start rows) enabled = chunks @ table_chunks (drop stop rows) enabled"
    proof (cases "rows ! start")
      case None
      then show ?thesis by (simp add: d chunks_def stop_def)
    next
      case (Some row)
      let ?t = "takeWhile (\<lambda>r. r \<noteq> None) (drop (start + 1) rows)"
      have stop: "stop = start + 1 + length ?t" using Some by (simp add: stop_def block_end_eq d)
      have n: "stop - start = Suc (length ?t)" using stop by simp
      have "drop stop rows = drop (length ?t) (drop (start + 1) rows)" unfolding stop by (simp add: add.commute)
      then have rest: "drop stop rows = dropWhile (\<lambda>r. r \<noteq> None) (drop (start + 1) rows)" unfolding dropWhile_eq_drop .
      have "chunks = block_chunks (row # map the (take (length ?t) (drop (start + 1) rows))) enabled"
        unfolding chunks_def d n using Some by simp
      then have "chunks = block_chunks (row # map the ?t) enabled" unfolding takeWhile_eq_take [symmetric] .
      then show ?thesis unfolding d rest Some by (simp only: table_chunks.simps)
    qed
    moreover have "table_loop W rows enabled start w = Option.bind (Some (write_all W chunks w))
        (\<lambda>(err, w'). case err of Some e \<Rightarrow> Some (Some e, w') | None \<Rightarrow> Some (write_all W (table_chunks (drop stop rows) enabled) w'))"
      unfolding step Let_def stop_def [symmetric] one ih using False by (simp only: if_False)
    ultimately show ?thesis by (simp add: write_all_append split: prod.split option.split)
  qed
qed

lemma writeTable_eq: "writeTable W rows enabled w = Some (write_all W (table_chunks rows enabled) w)"
  by (simp add: writeTable_def table_loop_eq)

section \<open>Alignment\<close>

lemma valid_len_append: "valid_len s \<noteq> 0 \<Longrightarrow> valid_len (s @ t) = valid_len s"
proof -
  assume v: "valid_len s \<noteq> 0"
  consider "s = []" | a where "s = [a]" | a b where "s = [a, b]" | a b c where "s = [a, b, c]" | a b c d r where "s = a # b # c # d # r"
    by (metis list.exhaust)
  then show ?thesis
  proof cases
    case (2 a) with v show ?thesis by (cases "code a < 128") (simp_all add: valid_len_def)
  next
    case (3 a b) with v show ?thesis by (cases "code a < 128"; cases "within a 194 223") (simp_all add: valid_len_def)
  next
    case (4 a b c) with v show ?thesis
      by (cases "code a < 128"; cases "within a 194 223"; cases "within a 224 239") (simp_all add: valid_len_def)
  next
    case 5 then show ?thesis by (simp add: valid_len_def)
  qed (use v in \<open>simp add: valid_len_def\<close>)
qed

lemma valid_len_le: "valid_len s \<le> length s"
  by (auto simp: valid_len_def split: list.splits)

lemma runes_append: "valid_utf8 s \<Longrightarrow> runes (s @ t) = runes s @ runes t"
proof (induction s rule: runes.induct)
  case (1 s)
  show ?case
  proof (cases "s = []")
    case False
    then have v: "valid_len s \<noteq> 0" "valid_utf8 (drop (rune_len s) s)" using "1.prems" by (simp_all add: valid_utf8.simps [of s])
    have "rune_len (s @ t) = rune_len s" "rune_text (s @ t) = rune_text s" "drop (rune_len s) (s @ t) = drop (rune_len s) s @ t"
      using v(1) valid_len_le [of s] by (simp_all add: rune_len_def rune_text_def valid_len_append)
    then show ?thesis
      using "1.IH" [OF False v(2)] False by (simp add: runes.simps [of s] runes.simps [of "s @ t"])
  qed simp
qed

lemma RuneCount_append: "valid_utf8 s \<Longrightarrow> RuneCount (s @ t) = RuneCount s + RuneCount t"
  by (simp add: RuneCount_def runes_append)

lemma valid_utf8_append: "valid_utf8 s \<Longrightarrow> valid_utf8 t \<Longrightarrow> valid_utf8 (s @ t)"
proof (induction s rule: runes.induct)
  case (1 s)
  show ?case
  proof (cases "s = []")
    case False
    then have v: "valid_len s \<noteq> 0" "valid_utf8 (drop (rune_len s) s)" using "1.prems" by (simp_all add: valid_utf8.simps [of s])
    have "rune_len (s @ t) = rune_len s" "drop (rune_len s) (s @ t) = drop (rune_len s) s @ t"
      using v(1) valid_len_le [of s] by (simp_all add: rune_len_def valid_len_append)
    then show ?thesis using "1.IH" [OF False v(2) "1.prems"(2)] v(1) False by (simp add: valid_utf8.simps [of "s @ t"] valid_len_append)
  qed (use 1 in simp)
qed

lemma valid_utf8_ascii: "\<forall>c \<in> set s. is_ascii c \<Longrightarrow> valid_utf8 s"
proof (induction s)
  case (Cons c s)
  then show ?case by (subst valid_utf8.simps) (simp add: valid_len_ascii rune_len_def)
qed (simp add: valid_utf8.simps)

lemma spaces_runes [simp]: "valid_utf8 (spaces n)" "RuneCount (spaces n) = n"
proof -
  have a: "\<forall>c \<in> set (spaces n). is_ascii c" by (simp add: spaces_def is_ascii_def)
  then show "valid_utf8 (spaces n)" by (rule valid_utf8_ascii)
  from RuneCount_ascii [OF a] show "RuneCount (spaces n) = n" by (simp add: spaces_def)
qed

lemma cell_rendered_plain [simp]: "cell_rendered False cell = cell_text cell"
  by (simp add: cell_rendered_def cell_text_def segment_rendered_def [abs_def])

text \<open>The text of a row in front of its column \<open>k\<close>.\<close>

definition row_start :: "tableCell list list \<Rightarrow> nat \<Rightarrow> nat \<Rightarrow> string" where
  "row_start rows i k = concat (concat (map (cell_chunks rows False i) [0..<k]))"

definition printable_rows :: "tableCell list list \<Rightarrow> bool" where
  "printable_rows rows \<longleftrightarrow> (\<forall>row \<in> set rows. \<forall>cell \<in> set row. valid_utf8 (cell_text cell))"

lemma row_start_runes:
  assumes "printable_rows rows" "i < length rows" "k < length (rows ! i)"
  shows "valid_utf8 (row_start rows i k) \<and> RuneCount (row_start rows i k) = (\<Sum>c<k. elastic_width rows c i + 2)"
  using assms(3)
proof (induction k)
  case 0
  show ?case by (simp add: row_start_def RuneCount_def valid_utf8.simps)
next
  case (Suc k)
  have "rows ! i \<in> set rows" "rows ! i ! k \<in> set (rows ! i)" using assms(2) Suc.prems by simp_all
  then have cell: "valid_utf8 (cell_text (rows ! i ! k))" using assms(1) by (simp add: printable_rows_def)
  have "has_column rows k i" using assms(2) Suc.prems by (simp add: has_column_def)
  then have w: "RuneCount (cell_text (rows ! i ! k)) \<le> elastic_width rows k i" using elastic_width_ge by (simp add: cell_width_def)
  let ?pad = "spaces (elastic_width rows k i - cell_width (rows ! i ! k) + 2)"
  have "row_start rows i (Suc k) = row_start rows i k @ cell_text (rows ! i ! k) @ ?pad"
    using Suc.prems by (simp add: row_start_def cell_chunks_def)
  then show ?case using Suc cell w by (simp add: valid_utf8_append RuneCount_append cell_width_def)
qed

lemma row_chunks_split:
  assumes "k < length (rows ! i)"
  shows "\<exists>after. concat (row_chunks rows False i) = row_start rows i k @ cell_text (rows ! i ! k) @ after"
proof -
  have "[0..<length (rows ! i)] = [0..<k] @ k # [Suc k..<length (rows ! i)]"
    using assms by (metis less_imp_le upt_conv_Cons upt_add_eq_append le_add_diff_inverse zero_le)
  then show ?thesis by (simp add: row_chunks_def row_start_def cell_chunks_def)
qed

text \<open>A \<^verbatim>\<open>strings.Builder\<close> accepts every write.\<close>

definition buffer :: "string io_writer" where
  "buffer s w = ((int (length s), None), w @ s)"

lemma write_all_buffer: "write_all buffer ss w = (None, w @ concat ss)"
  by (induction ss arbitrary: w) (simp_all add: buffer_def)

lemma table_chunks_block: "table_chunks (map Some rows) enabled = block_chunks rows enabled"
proof (cases rows)
  case Nil
  then show ?thesis by (simp add: block_chunks_def)
next
  case (Cons row rest)
  have "takeWhile (\<lambda>r. r \<noteq> None) (map Some rest) = map Some rest" "dropWhile (\<lambda>r. r \<noteq> None) (map Some rest) = []" for rest :: "tableCell list list"
    by auto
  then show ?thesis by (simp only: Cons list.map table_chunks.simps map_map comp_def option.sel map_ident append_Nil2)
qed

lemma concat_concat: "concat (concat xss) = concat (map concat xss)"
  by (induction xss) simp_all

section \<open>Properties\<close>

text \<open>The plain text of a block.\<close>

lemma block_aligned:
  assumes "printable_rows rows"
  shows "\<exists>lines start. writeTable buffer (map Some rows) False [] = Some (None, concat lines) \<and> length lines = length rows \<and>
    (\<forall>i k. i < length rows \<longrightarrow> k < length (rows ! i) \<longrightarrow>
       (\<exists>after. lines ! i = start i k @ cell_text (rows ! i ! k) @ after) \<and> (k \<noteq> 0 \<longrightarrow> suffix (spaces 2) (start i k))) \<and>
    (\<forall>i k. i + 1 < length rows \<longrightarrow> k < length (rows ! i) \<longrightarrow> k < length (rows ! (i + 1)) \<longrightarrow>
       RuneCount (start (i + 1) k) = RuneCount (start i k))"
proof -
  let ?lines = "map (\<lambda>i. concat (row_chunks rows False i)) [0..<length rows]"
  have lines: "writeTable buffer (map Some rows) False [] = Some (None, concat ?lines)" "length ?lines = length rows"
    by (simp_all add: writeTable_eq table_chunks_block write_all_buffer block_chunks_def concat_concat comp_def)
  have cells: "\<exists>after. ?lines ! i = row_start rows i k @ cell_text (rows ! i ! k) @ after" if "i < length rows" "k < length (rows ! i)" for i k
    using that row_chunks_split by simp
  have gap: "suffix (spaces 2) (row_start rows i k)" if "k < length (rows ! i)" "k \<noteq> 0" for i k
  proof -
    obtain c where c: "k = Suc c" using \<open>k \<noteq> 0\<close> by (cases k) auto
    have "spaces (n + 2) = spaces n @ spaces 2" for n by (simp add: spaces_def replicate_add [symmetric])
    then show ?thesis using that by (simp add: c row_start_def cell_chunks_def suffix_def)
  qed
  have aligned: "RuneCount (row_start rows (i + 1) k) = RuneCount (row_start rows i k)"
    if "i + 1 < length rows" "k < length (rows ! i)" "k < length (rows ! (i + 1))" for i k
  proof -
    have "elastic_width rows c (i + 1) = elastic_width rows c i" if "c < k" for c
      using \<open>i + 1 < length rows\<close> \<open>k < length (rows ! i)\<close> \<open>k < length (rows ! (i + 1))\<close> that
      by (intro elastic_width_next) (auto simp: has_column_def)
    then have "(\<Sum>c<k. elastic_width rows c (i + 1) + 2) = (\<Sum>c<k. elastic_width rows c i + 2)" by simp
    then show ?thesis using row_start_runes [OF assms, of "i + 1" k] row_start_runes [OF assms, of i k] that by simp
  qed
  show ?thesis
    by (rule exI [of _ ?lines], rule exI [of _ "row_start rows"]) (use lines cells gap aligned in blast)
qed

text \<open>What a terminal shows: the text without its escape sequences.\<close>

function strip_ansi :: "string \<Rightarrow> string" where
  "strip_ansi s =
     (case s of
        [] \<Rightarrow> []
      | c # r \<Rightarrow> (if c = CHR 0x1B then strip_ansi (drop 1 (dropWhile (\<lambda>d. d \<noteq> CHR ''m'') r)) else c # strip_ansi r))"
  by pat_completeness auto
termination
  by (relation "measure length") (auto intro!: le_imp_less_Suc le_trans [OF diff_le_self length_dropWhile_le])

declare strip_ansi.simps [simp del]

definition shows_as :: "string \<Rightarrow> string \<Rightarrow> bool" where
  "shows_as s t \<longleftrightarrow> (\<forall>rest. strip_ansi (s @ rest) = t @ strip_ansi rest)"

lemma shows_as_append: "shows_as s t \<Longrightarrow> shows_as s' t' \<Longrightarrow> shows_as (s @ s') (t @ t')"
  by (simp add: shows_as_def)

lemma shows_as_concat: "list_all2 shows_as ss ts \<Longrightarrow> shows_as (concat ss) (concat ts)"
  by (induction rule: list_all2_induct) (simp_all add: shows_as_append, simp add: shows_as_def)

lemma shows_as_plain: "CHR 0x1B \<notin> set s \<Longrightarrow> shows_as s s"
proof (induction s)
  case (Cons c s)
  then have "strip_ansi (c # s @ rest) = c # strip_ansi (s @ rest)" for rest by (subst strip_ansi.simps) auto
  with Cons show ?case by (simp add: shows_as_def)
qed (simp add: shows_as_def)

lemma shows_as_code: "CHR ''m'' \<notin> set s \<Longrightarrow> shows_as (CHR 0x1B # s @ ''m'') []"
proof -
  assume s: "CHR ''m'' \<notin> set s"
  have "dropWhile (\<lambda>d. d \<noteq> CHR ''m'') (s @ ''m'' @ rest) = ''m'' @ rest" for rest using s by (induction s) auto
  then show ?thesis by (simp add: shows_as_def strip_ansi.simps [of "CHR 0x1B # _"])
qed

lemma shows_as_codes: "color \<noteq> ansiNone \<Longrightarrow> shows_as (colorCode color) []" "shows_as ansiReset []"
proof -
  have "shows_as (esc @ ''[32m'') []" "shows_as (esc @ ''[33m'') []" "shows_as (esc @ ''[31m'') []" "shows_as (esc @ ''[0m'') []"
    using shows_as_code [of "''[32''"] shows_as_code [of "''[33''"] shows_as_code [of "''[31''"] shows_as_code [of "''[0''"] by (simp_all add: esc_def)
  then show "color \<noteq> ansiNone \<Longrightarrow> shows_as (colorCode color) []" "shows_as ansiReset []"
    by (cases color; simp add: ansiGreen_def ansiYellow_def ansiRed_def ansiReset_def)+
qed

definition plain_cell_text :: "tableCell \<Rightarrow> bool" where
  "plain_cell_text cell \<longleftrightarrow> CHR 0x1B \<notin> set (cell_text cell)"

lemma cell_shows: "plain_cell_text cell \<Longrightarrow> shows_as (cell_rendered True cell) (cell_rendered False cell)"
proof -
  assume plain: "plain_cell_text cell"
  have "shows_as (segment_rendered True seg) (segment_rendered False seg)" if seg: "seg \<in> set cell" for seg
  proof -
    have body: "shows_as (segText seg) (segText seg)" using seg plain by (intro shows_as_plain) (auto simp: plain_cell_text_def cell_text_def)
    then have "shows_as (colorCode (segColor seg) @ segText seg @ ansiReset) ([] @ segText seg @ [])" if "segColor seg \<noteq> ansiNone"
      using that by (intro shows_as_append shows_as_codes)
    then show ?thesis using body by (simp add: segment_rendered_def)
  qed
  then show ?thesis unfolding cell_rendered_def by (intro shows_as_concat) (simp add: list_all2_conv_all_nth)
qed

lemma row_shows:
  assumes "\<forall>cell \<in> set (rows ! i). plain_cell_text cell"
  shows "list_all2 shows_as (row_chunks rows True i) (row_chunks rows False i)"
proof -
  have sp: "shows_as (spaces n) (spaces n)" "shows_as ''\<newline>'' ''\<newline>''" for n by (rule shows_as_plain, simp add: spaces_def)+
  have "list_all2 shows_as (cell_chunks rows True i c) (cell_chunks rows False i c)" if "c < length (rows ! i)" for c
    using that assms cell_shows [of "rows ! i ! c"] sp(1) by (simp add: cell_chunks_def)
  then have "list_all2 shows_as (concat (map (cell_chunks rows True i) cs)) (concat (map (cell_chunks rows False i) cs))"
    if "\<forall>c \<in> set cs. c < length (rows ! i)" for cs
    using that by (induction cs) (auto intro: list_all2_appendI)
  from this [of "[0..<length (rows ! i)]"] have "list_all2 shows_as (concat (map (cell_chunks rows True i) [0..<length (rows ! i)]))
      (concat (map (cell_chunks rows False i) [0..<length (rows ! i)]))" by auto
  then show ?thesis unfolding row_chunks_def by (rule list_all2_appendI) (simp add: sp(2))
qed

lemma block_shows:
  assumes "\<forall>row \<in> set rows. \<forall>cell \<in> set row. plain_cell_text cell"
  shows "list_all2 shows_as (block_chunks rows True) (block_chunks rows False)"
proof -
  have "list_all2 shows_as (concat (map (row_chunks rows True) ns)) (concat (map (row_chunks rows False) ns))"
    if "\<forall>n \<in> set ns. n < length rows" for ns
    using that assms by (induction ns) (auto intro!: list_all2_appendI row_shows)
  from this [of "[0..<length rows]"] show ?thesis unfolding block_chunks_def by auto
qed

definition plain_rows :: "tableRow list \<Rightarrow> bool" where
  "plain_rows rows \<longleftrightarrow> (\<forall>r \<in> set rows. \<forall>row. r = Some row \<longrightarrow> (\<forall>cell \<in> set row. plain_cell_text cell))"

lemma table_shows: "plain_rows rows \<Longrightarrow> list_all2 shows_as (table_chunks rows True) (table_chunks rows False)"
proof (induction rows True rule: table_chunks.induct)
  case (2 rows)
  moreover have "shows_as ''\<newline>'' ''\<newline>''" by (rule shows_as_plain) simp
  ultimately show ?case by (simp add: plain_rows_def)
next
  case (3 row rows)
  let ?b = "row # map the (takeWhile (\<lambda>r. r \<noteq> None) rows)"
  have "\<forall>row \<in> set ?b. \<forall>cell \<in> set row. plain_cell_text cell"
    using "3.prems" unfolding plain_rows_def by (fastforce dest: set_takeWhileD)
  then have "list_all2 shows_as (block_chunks ?b True) (block_chunks ?b False)" by (rule block_shows)
  moreover have "list_all2 shows_as (table_chunks (dropWhile (\<lambda>r. r \<noteq> None) rows) True) (table_chunks (dropWhile (\<lambda>r. r \<noteq> None) rows) False)"
    using "3.prems" unfolding plain_rows_def by (intro "3.hyps") (auto simp: plain_rows_def dest: set_dropWhileD)
  ultimately show ?case by (simp only: table_chunks.simps list_all2_appendI)
qed simp

text \<open>Colour never changes what a terminal shows.\<close>

lemma coloured_table:
  assumes "plain_rows rows"
  shows "\<exists>coloured plain. writeTable buffer rows True [] = Some (None, coloured) \<and> writeTable buffer rows False [] = Some (None, plain) \<and>
    strip_ansi coloured = plain"
proof -
  have "shows_as (concat (table_chunks rows True)) (concat (table_chunks rows False))" by (intro shows_as_concat table_shows assms)
  then have "strip_ansi (concat (table_chunks rows True) @ []) = concat (table_chunks rows False) @ strip_ansi []"
    unfolding shows_as_def by blast
  then show ?thesis by (simp add: writeTable_eq write_all_buffer strip_ansi.simps [of "[]"])
qed

text \<open>C25: tables are aligned, and colour never changes them.  In the plain text of a block, a column starts
  after the same number of runes in two adjacent rows that have it, and at least two spaces separate it from
  the previous cell; and what a terminal shows of the coloured text is byte for byte the plain text, when no
  cell contains an escape character itself.\<close>

theorem table_layout:
  assumes "printable_rows rows" "plain_rows (map Some rows)"
  shows "\<exists>lines start coloured. writeTable buffer (map Some rows) False [] = Some (None, concat lines) \<and> length lines = length rows \<and>
    (\<forall>i k. i < length rows \<longrightarrow> k < length (rows ! i) \<longrightarrow>
       (\<exists>after. lines ! i = start i k @ cell_text (rows ! i ! k) @ after) \<and> (k \<noteq> 0 \<longrightarrow> suffix (spaces 2) (start i k))) \<and>
    (\<forall>i k. i + 1 < length rows \<longrightarrow> k < length (rows ! i) \<longrightarrow> k < length (rows ! (i + 1)) \<longrightarrow>
       RuneCount (start (i + 1) k) = RuneCount (start i k)) \<and>
    writeTable buffer (map Some rows) True [] = Some (None, coloured) \<and> strip_ansi coloured = concat lines"
proof -
  obtain lines start where plain: "writeTable buffer (map Some rows) False [] = Some (None, concat lines)" and
    rest: "length lines = length rows"
    "\<forall>i k. i < length rows \<longrightarrow> k < length (rows ! i) \<longrightarrow>
       (\<exists>after. lines ! i = start i k @ cell_text (rows ! i ! k) @ after) \<and> (k \<noteq> 0 \<longrightarrow> suffix (spaces 2) (start i k))"
    "\<forall>i k. i + 1 < length rows \<longrightarrow> k < length (rows ! i) \<longrightarrow> k < length (rows ! (i + 1)) \<longrightarrow>
       RuneCount (start (i + 1) k) = RuneCount (start i k)"
    using block_aligned [OF assms(1)] by blast
  obtain coloured where "writeTable buffer (map Some rows) True [] = Some (None, coloured)" "strip_ansi coloured = concat lines"
    using coloured_table [OF assms(2)] plain by auto
  with plain rest show ?thesis by blast
qed

definition sample_rows :: "tableCell list list" where
  "sample_rows = [[plainCell ''NAME'', plainCell ''STATE''], [plainCell ''web'', coloured_cell ''observed'' ansiGreenColor]]"

lemma sample_rows_texts: "row \<in> set sample_rows \<Longrightarrow> cell \<in> set row \<Longrightarrow> c \<in> set (cell_text cell) \<Longrightarrow> is_ascii c \<and> c \<noteq> CHR 0x1B"
  by (auto simp: sample_rows_def plainCell_def coloured_cell_def cell_text_def is_ascii_def)

theorem table_layout_witness:
  "\<exists>lines start coloured. writeTable buffer (map Some sample_rows) False [] = Some (None, concat lines) \<and>
     RuneCount (start 1 1) = RuneCount (start (0::nat) (1::nat)) \<and> (\<exists>after. lines ! 1 = start 1 1 @ ''observed'' @ after) \<and>
     writeTable buffer (map Some sample_rows) True [] = Some (None, coloured) \<and> strip_ansi coloured = concat lines"
proof -
  have "valid_utf8 (cell_text cell)" if "row \<in> set sample_rows" "cell \<in> set row" for row cell
    by (rule valid_utf8_ascii) (use sample_rows_texts [OF that] in blast)
  then have printable: "printable_rows sample_rows" by (simp add: printable_rows_def)
  have plain: "plain_rows (map Some sample_rows)" by (auto simp: plain_rows_def plain_cell_text_def dest: sample_rows_texts)
  from table_layout [OF printable plain] obtain lines start coloured
    where *: "writeTable buffer (map Some sample_rows) False [] = Some (None, concat lines)"
    "\<forall>i k. i < length sample_rows \<longrightarrow> k < length (sample_rows ! i) \<longrightarrow>
       (\<exists>after. lines ! i = start i k @ cell_text (sample_rows ! i ! k) @ after) \<and> (k \<noteq> 0 \<longrightarrow> suffix (spaces 2) (start i k))"
    "\<forall>i k. i + 1 < length sample_rows \<longrightarrow> k < length (sample_rows ! i) \<longrightarrow> k < length (sample_rows ! (i + 1)) \<longrightarrow>
       RuneCount (start (i + 1) k) = RuneCount (start i k)"
    "writeTable buffer (map Some sample_rows) True [] = Some (None, coloured)" "strip_ansi coloured = concat lines" by blast
  have shape: "length sample_rows = 2" "length (sample_rows ! 0) = 2" "length (sample_rows ! 1) = 2" "cell_text (sample_rows ! 1 ! 1) = ''observed''"
    by (simp_all add: sample_rows_def plainCell_def coloured_cell_def cell_text_def)
  have "RuneCount (start 1 1) = RuneCount (start 0 1)" using *(3) [rule_format, of 0 1] shape by simp
  moreover have "\<exists>after. lines ! 1 = start 1 1 @ ''observed'' @ after" using *(2) [rule_format, of 1 1] shape by simp
  ultimately show ?thesis using *(1,4,5) by blast
qed

end
