(* ===== verification/Output.thy ===== *)
theory Output
  imports Dns Table
begin

text \<open>
  How the command line prints: the tables of \<^verbatim>\<open>internal/cli/output.go\<close> and its JSON, which is Go's
  \<^verbatim>\<open>json.Encoder\<close> with an indent of two spaces on the types of \<^verbatim>\<open>model.go\<close> with their tags.  A nil slice
  prints as null; an endpoint without targets is taken to have the nil slice.
\<close>

section \<open>Colours and states\<close>

definition colorForState :: "string \<Rightarrow> ansiColor" where
  "colorForState state =
     (let s = ToLower state in
      if s \<in> set [''healthy'', stateCurrent, stateObserved, stateMatch] then ansiGreenColor
      else if s \<in> set [''unobserved'', stateStale, ''pending'', ''degraded'', ''warning'', ''retiring''] then ansiYellowColor
      else if s \<in> set [''unhealthy'', stateInvalid, stateMissing, ''uid mismatch'', stateMismatch, stateNXDomain, stateUnsupported,
                        ''error'', ''unavailable'', ''failed''] then ansiRedColor
      else ansiNone)"

definition colorForDNSState :: "string \<Rightarrow> ansiColor" where
  "colorForDNSState state =
     (let s = ToLower state in
      if s = stateMatch then ansiGreenColor
      else if s \<in> set [stateMismatch, stateNXDomain, stateUnsupported, ''error'', ''failed''] then ansiRedColor
      else ansiNone)"

definition state_cell :: "string \<Rightarrow> tableCell" where
  "state_cell text = coloured_cell text (colorForState text)"

definition nonZeroCell :: "int \<Rightarrow> ansiColor \<Rightarrow> tableCell" where
  "nonZeroCell value color = (if value = 0 then plainCell (Itoa value) else coloured_cell (Itoa value) color)"

definition controllerAvailabilityColor :: "int \<Rightarrow> int \<Rightarrow> ansiColor" where
  "controllerAvailabilityColor available desired =
     (if desired > 0 \<and> available \<ge> desired then ansiGreenColor
      else if desired > 0 \<and> available > 0 then ansiYellowColor
      else ansiRedColor)"

definition readyPodsColor :: "int \<Rightarrow> int \<Rightarrow> ansiColor" where
  "readyPodsColor ready desired =
     (if desired > 0 \<and> ready \<ge> desired then ansiGreenColor
      else if desired > 0 \<and> ready > 0 then ansiYellowColor
      else ansiRedColor)"

definition foundState :: "bool \<Rightarrow> bool \<Rightarrow> string" where
  "foundState found uidMatches = (if \<not> found then stateMissing else if \<not> uidMatches then ''UID mismatch'' else stateCurrent)"

definition presentState :: "bool \<Rightarrow> string" where
  "presentState found = (if found then stateCurrent else stateMissing)"

definition formatProperties :: "(string \<times> string list) list \<Rightarrow> string" where
  "formatProperties properties =
     Join (sort (concat (map (\<lambda>(name, vs). map (\<lambda>value. name @ ''='' @ value) vs) properties))) '', ''"

definition FormatBool :: "bool \<Rightarrow> string" where
  "FormatBool b = (if b then ''true'' else ''false'')"

section \<open>Records\<close>

definition record_row :: "cli_record \<Rightarrow> tableRow" where
  "record_row item =
     (let n = Itoa (int (length (cRetiring item)))
      in Some [plainCell (orNamespace (cDNSEndpoint item)), plainCell (cDNSName item), plainCell (cRecordType item),
               plainCell (Join (cTargets item) '',''), plainCell (Itoa (cTTL item)), plainCell (cProvider item),
               plainCell (source_text item), state_cell (cExternalDNSState item),
               if cRetiring item = [] then plainCell n else coloured_cell n ansiYellowColor])"

definition record_rows :: "cli_record list \<Rightarrow> tableRow list" where
  "record_rows items =
     Some (map plainCell [''NAMESPACE'', ''DNS NAME'', ''TYPE'', ''TARGETS'', ''TTL'', ''PROVIDER'', ''SOURCE'', ''EXTERNALDNS'', ''RETIRING'']) #
     map record_row items"

definition writeRecords :: "'w io_writer \<Rightarrow> cli_record list \<Rightarrow> bool \<Rightarrow> 'w action" where
  "writeRecords W items enabled = writeTable W (record_rows items) enabled"

definition writeRecordsDefault :: "'w io_writer \<Rightarrow> cli_record list \<Rightarrow> 'w action" where
  "writeRecordsDefault W items = writeRecords W items False"

section \<open>Details\<close>

definition externalDNSCell :: "string \<Rightarrow> int \<Rightarrow> int \<Rightarrow> tableCell" where
  "externalDNSCell state generation seen =
     [\<lparr>segText = state, segColor = colorForState state\<rparr>,
      \<lparr>segText = Sprintf '' (generation %d, observed %d)'' [FInt generation, FInt seen], segColor = ansiNone\<rparr>]"

definition dnsLookupCell :: "dnsLookup \<Rightarrow> tableCell" where
  "dnsLookupCell lookup =
     [\<lparr>segText = Join (dlAnswers lookup) '', '' @ '' via '', segColor = ansiNone\<rparr>,
      \<lparr>segText = dlServer lookup, segColor = ansiNone\<rparr>, \<lparr>segText = '' ('', segColor = ansiNone\<rparr>,
      \<lparr>segText = dlState lookup, segColor = colorForDNSState (dlState lookup)\<rparr>, \<lparr>segText = '')'', segColor = ansiNone\<rparr>]"

text \<open>RFC 3339 without the fraction of the second.\<close>

definition format_seconds :: "int \<Rightarrow> string" where
  "format_seconds t = FormatRFC3339 (t div 10 ^ 9 * 10 ^ 9)"

definition pair_row :: "string \<Rightarrow> tableCell \<Rightarrow> tableRow" where
  "pair_row title cell = Some [plainCell title, cell]"

definition detailRows :: "recordDetail \<Rightarrow> tableRow list" where
  "detailRows detail =
     (let item = dRecord detail; plain = (\<lambda>title text. pair_row title (plainCell text));
          active = (if cLifecycleError item \<noteq> '''' then ''unknown''
                    else Join (case cActiveTargets item of None \<Rightarrow> [] | Some ts \<Rightarrow> ts) '', '')
      in [plain ''DNS name:'' (cDNSName item), plain ''Type:'' (cRecordType item), plain ''Provider:'' (cProvider item),
          plain ''Source:'' (source_text item),
          pair_row ''Source state:'' (state_cell (foundState (sdFound (dSource detail)) (sdUIDMatches (dSource detail)))),
          plain ''DNSEndpoint:'' (endpoint_text item), plain ''Targets:'' (Join (cTargets item) '', ''),
          plain ''Active targets:'' active, plain ''TTL:'' (Itoa (cTTL item)),
          pair_row ''ExternalDNS:'' (externalDNSCell (cExternalDNSState item) (cGeneration item) (cObserved item)),
          pair_row ''Provider state:'' (state_cell (presentState (pdFound (dProvider detail)))),
          plain ''Provider zones:'' (Join (pdZones (dProvider detail)) '', ''),
          plain ''Provider IPv4 label:'' (pdIPv4Label (dProvider detail)), plain ''Provider IPv6 label:'' (pdIPv6Label (dProvider detail)),
          plain ''Provider properties:'' (formatProperties (cProperties item))] @
         map (\<lambda>r. plain ''Retiring target:'' (rtTarget r @ '' at '' @ format_seconds (rtDeadline r))) (cRetiring item) @
         (if cLifecycleError item \<noteq> '''' then [pair_row ''Lifecycle error:'' (coloured_cell (cLifecycleError item) ansiRedColor)] else []) @
         (case dDNS detail of
            None \<Rightarrow> []
          | Some lookup \<Rightarrow>
              pair_row ''DNS lookup:'' (dnsLookupCell lookup) #
              (if dlError lookup \<noteq> '''' then [pair_row ''DNS error:'' (coloured_cell (dlError lookup) ansiRedColor)] else [])))"

fun write_details :: "'w io_writer \<Rightarrow> bool \<Rightarrow> nat \<Rightarrow> recordDetail list \<Rightarrow> 'w action" where
  "write_details W enabled index [] = done_ok"
| "write_details W enabled index (detail # ds) =
     and_next (if index \<noteq> 0 then writeString W ''\<newline>'' else done_ok)
       (and_next (writeTable W (detailRows detail) enabled) (write_details W enabled (index + 1) ds))"

definition writeDetails :: "'w io_writer \<Rightarrow> recordDetails \<Rightarrow> bool \<Rightarrow> 'w action" where
  "writeDetails W ds enabled = write_details W enabled 0 (dsItems ds)"

definition writeDetailsDefault :: "'w io_writer \<Rightarrow> recordDetails \<Rightarrow> 'w action" where
  "writeDetailsDefault W ds = writeDetails W ds False"

section \<open>Status\<close>

definition prerequisite_row :: "prerequisite \<Rightarrow> tableRow" where
  "prerequisite_row item =
     Some [plainCell (preName item), coloured_cell (FormatBool (preAvailable item)) (if preAvailable item then ansiGreenColor else ansiRedColor),
           if preError item \<noteq> '''' then coloured_cell (preError item) ansiRedColor else plainCell (preError item)]"

definition controller_row :: "controllerStatus \<Rightarrow> tableRow" where
  "controller_row item =
     Some [plainCell (csNamespace item @ ''/'' @ csName item),
           coloured_cell (Sprintf ''%d/%d'' [FInt (csAvailable item), FInt (csDesired item)]) (controllerAvailabilityColor (csAvailable item) (csDesired item)),
           coloured_cell (Itoa (csReadyPods item)) (readyPodsColor (csReadyPods item) (csDesired item)),
           plainCell (FormatBool (csGatewayAPI item))]"

definition summary_row :: "stateSummary \<Rightarrow> tableRow" where
  "summary_row s =
     Some [plainCell (Itoa (sumProviders s)), plainCell (Itoa (sumPublishingSources s)), plainCell (Itoa (sumDNSEndpoints s)),
           plainCell (Itoa (sumRecords s)), nonZeroCell (sumPendingTargets s) ansiYellowColor, nonZeroCell (sumObserved s) ansiGreenColor,
           nonZeroCell (sumStale s) ansiYellowColor, nonZeroCell (sumInvalid s) ansiRedColor]"

definition status_rows :: "cli_status \<Rightarrow> tableRow list" where
  "status_rows st =
     [Some [plainCell ''OVERALL'', state_cell (ToUpper (stOverall st))], None,
      Some (map plainCell [''PREREQUISITE'', ''AVAILABLE'', ''ERROR''])] @
     map prerequisite_row (stPrerequisites st) @
     [None, Some (map plainCell [''CONTROLLER'', ''AVAILABLE'', ''READY PODS'', ''GATEWAY API''])] @
     map controller_row (stControllers st) @
     [None, Some (map plainCell [''PROVIDERS'', ''SOURCES'', ''DNSENDPOINTS'', ''RECORDS'', ''PENDING'', ''OBSERVED'', ''STALE'', ''INVALID'']),
      summary_row (stSummary st)] @
     map (\<lambda>warning. Some [plainCell ''WARNING'', coloured_cell warning ansiYellowColor]) (stWarnings st)"

definition writeStatus :: "'w io_writer \<Rightarrow> cli_status \<Rightarrow> bool \<Rightarrow> 'w action" where
  "writeStatus W st enabled = writeTable W (status_rows st) enabled"

definition writeStatusDefault :: "'w io_writer \<Rightarrow> cli_status \<Rightarrow> 'w action" where
  "writeStatusDefault W st = writeStatus W st False"

section \<open>JSON\<close>

definition json_line :: "nat \<Rightarrow> string" where
  "json_line depth = ''\<newline>'' @ concat (replicate depth ''  '')"

fun indent_json :: "nat \<Rightarrow> json \<Rightarrow> string" where
  "indent_json depth (JArr vs) =
     (if vs = [] then ''[]''
      else ''['' @ Join (map (\<lambda>v. json_line (depth + 1) @ indent_json (depth + 1) v) vs) '','' @ json_line depth @ '']'')"
| "indent_json depth (JObj ms) =
     (if ms = [] then ''{}''
      else ''{'' @ Join (map (\<lambda>(k, v). json_line (depth + 1) @ json_quote k @ '': '' @ indent_json (depth + 1) v) ms) '','' @ json_line depth @ ''}'')"
| "indent_json depth v = print_json v"

text \<open>\<^verbatim>\<open>Encoder.Encode\<close> makes one call of \<^verbatim>\<open>Write\<close>, with the line break, and returns its error; unlike
  \<open>writeString\<close> it does not look at the count.\<close>

definition writeJSON :: "'w io_writer \<Rightarrow> json \<Rightarrow> 'w action" where
  "writeJSON W value w = (case W (indent_json 0 value @ ''\<newline>'') w of ((written, err), w') \<Rightarrow> Some (err, w'))"

text \<open>A field with \<^verbatim>\<open>omitempty\<close>.\<close>

definition omit :: "bool \<Rightarrow> string \<Rightarrow> json \<Rightarrow> (string \<times> json) list" where
  "omit unset name value = (if unset then [] else [(name, value)])"

definition json_int :: "int \<Rightarrow> json" where
  "json_int n = JNum (Itoa n)"

definition json_strings :: "string list \<Rightarrow> json" where
  "json_strings ss = JArr (map JStr ss)"

definition source_json :: "sourceRef \<Rightarrow> json" where
  "source_json r =
     JObj ([(''kind'', JStr (srKind r)), (''namespace'', JStr (srNamespace r)), (''name'', JStr (srName r))] @
           omit (srUID r = '''') ''uid'' (JStr (srUID r)))"

definition object_json :: "objectRef \<Rightarrow> json" where
  "object_json r = JObj [(''namespace'', JStr (orNamespace r)), (''name'', JStr (orName r))]"

definition retiring_json :: "retiringTarget \<Rightarrow> json" where
  "retiring_json r = JObj [(''target'', JStr (rtTarget r)), (''deadline'', JStr (FormatRFC3339 (rtDeadline r)))]"

definition record_json :: "cli_record \<Rightarrow> json" where
  "record_json r =
     JObj ([(''dnsName'', JStr (cDNSName r)), (''recordType'', JStr (cRecordType r)),
            (''targets'', if cTargets r = [] then JNull else json_strings (cTargets r)),
            (''activeTargets'', case cActiveTargets r of None \<Rightarrow> JNull | Some ts \<Rightarrow> json_strings ts),
            (''ttl'', json_int (cTTL r)), (''provider'', JStr (cProvider r)), (''source'', source_json (cSource r)),
            (''dnsEndpoint'', object_json (cDNSEndpoint r)), (''generation'', json_int (cGeneration r)),
            (''observedGeneration'', json_int (cObserved r)), (''externalDNSState'', JStr (cExternalDNSState r))] @
           omit (cRetiring r = []) ''retiringTargets'' (JArr (map retiring_json (cRetiring r))) @
           omit (cProperties r = []) ''properties'' (JObj (map (\<lambda>(n, vs). (n, json_strings vs)) (sort_key fst (cProperties r)))) @
           omit (cLifecycleError r = '''') ''lifecycleError'' (JStr (cLifecycleError r)))"

definition records_json :: "cli_record list \<Rightarrow> json" where
  "records_json items = JObj [(''items'', JArr (map record_json items))]"

definition provider_json :: "providerDetail \<Rightarrow> json" where
  "provider_json p =
     JObj ([(''found'', JBool (pdFound p))] @ omit (pdZones p = []) ''zones'' (json_strings (pdZones p)) @
           omit (pdIPv4Label p = '''') ''ipv4NodeLabel'' (JStr (pdIPv4Label p)) @
           omit (pdIPv6Label p = '''') ''ipv6NodeLabel'' (JStr (pdIPv6Label p)) @
           omit (pdDefaultTTL p = 0) ''defaultTTL'' (json_int (pdDefaultTTL p)))"

definition lookup_json :: "dnsLookup \<Rightarrow> json" where
  "lookup_json l =
     JObj ([(''server'', JStr (dlServer l))] @ omit (dlAnswers l = []) ''answers'' (json_strings (dlAnswers l)) @
           [(''state'', JStr (dlState l))] @ omit (dlError l = '''') ''error'' (JStr (dlError l)))"

definition detail_json :: "recordDetail \<Rightarrow> json" where
  "detail_json d =
     JObj ([(''record'', record_json (dRecord d)), (''providerDetail'', provider_json (dProvider d)),
            (''sourceDetail'', JObj [(''found'', JBool (sdFound (dSource d))), (''uidMatches'', JBool (sdUIDMatches (dSource d)))])] @
           (case dDNS d of None \<Rightarrow> [] | Some l \<Rightarrow> [(''dnsLookup'', lookup_json l)]))"

definition details_json :: "recordDetails \<Rightarrow> json" where
  "details_json ds = JObj [(''query'', JStr (dsQuery ds)), (''items'', JArr (map detail_json (dsItems ds)))]"

definition prerequisite_json :: "prerequisite \<Rightarrow> json" where
  "prerequisite_json p =
     JObj ([(''name'', JStr (preName p)), (''available'', JBool (preAvailable p))] @ omit (preError p = '''') ''error'' (JStr (preError p)))"

definition controller_json :: "controllerStatus \<Rightarrow> json" where
  "controller_json c =
     JObj [(''namespace'', JStr (csNamespace c)), (''name'', JStr (csName c)), (''desiredReplicas'', json_int (csDesired c)),
           (''availableReplicas'', json_int (csAvailable c)), (''readyPods'', json_int (csReadyPods c)),
           (''gatewayAPIEnabled'', JBool (csGatewayAPI c))]"

definition summary_json :: "stateSummary \<Rightarrow> json" where
  "summary_json s =
     JObj [(''providers'', json_int (sumProviders s)), (''publishingSources'', json_int (sumPublishingSources s)),
           (''dnsEndpoints'', json_int (sumDNSEndpoints s)), (''records'', json_int (sumRecords s)),
           (''pendingTargets'', json_int (sumPendingTargets s)), (''observed'', json_int (sumObserved s)),
           (''stale'', json_int (sumStale s)), (''invalid'', json_int (sumInvalid s))]"

definition status_json :: "cli_status \<Rightarrow> json" where
  "status_json st =
     JObj ([(''overall'', JStr (stOverall st)), (''prerequisites'', JArr (map prerequisite_json (stPrerequisites st))),
            (''controllers'', JArr (map controller_json (stControllers st))), (''summary'', summary_json (stSummary st))] @
           omit (stWarnings st = []) ''warnings'' (json_strings (stWarnings st)))"

end
