(* ===== verification/Command.thy ===== *)
theory Command
  imports Output
begin

text \<open>
  The commands of the command line: \<^verbatim>\<open>internal/cli/command.go\<close> and \<^verbatim>\<open>cmd/labdns/main.go\<close>.  Cobra (its
  parsing of flags and the dispatch to a command) and the Kubernetes libraries that \<open>prepare\<close> calls are parameters;
  the definitions start from the parsed flags and arguments.  A command is an action on its output.
\<close>

section \<open>Colour\<close>

definition colorAuto :: string where "colorAuto = ''auto''"
definition colorAlways :: string where "colorAlways = ''always''"
definition colorNever :: string where "colorNever = ''never''"

definition colorMode_Set :: "string \<Rightarrow> string result" where
  "colorMode_Set value =
     (if value \<in> set [colorAuto, colorAlways, colorNever] then Inr value
      else Inl (ErrMsg (Sprintf ''invalid color mode %q: use auto, always, or never'' [FStr value])))"

definition colorMode_String :: "string option \<Rightarrow> string" where
  "colorMode_String m = (case m of None \<Rightarrow> '''' | Some s \<Rightarrow> s)"

definition colorMode_Type :: "string option \<Rightarrow> string" where
  "colorMode_Type m = ''string''"

text \<open>\<open>getenv\<close> and \<open>isTerminal\<close> may be absent; the terminal is the output's.\<close>

record displayOptions =
  optOutput :: string
  optColor :: string
  optGetenv :: "(string \<Rightarrow> string option) option"
  optIsTerminal :: "bool option"

definition colorizer :: "displayOptions \<Rightarrow> bool" where
  "colorizer o' =
     (if EqualFold (optOutput o') ''json'' then False
      else if optColor o' = colorNever then False
      else if optColor o' = colorAlways then True
      else if optColor o' = colorAuto
      then (let quiet = (case optGetenv o' of
                  None \<Rightarrow> False
                | Some getenv \<Rightarrow>
                    (case getenv ''NO_COLOR'' of Some value \<Rightarrow> value \<noteq> '''' | None \<Rightarrow> False) \<or>
                    (case getenv ''TERM'' of Some value \<Rightarrow> EqualFold value ''dumb'' | None \<Rightarrow> False))
            in \<not> quiet \<and> optIsTerminal o' = Some True)
      else False)"

section \<open>Filters\<close>

record recordFilterOptions =
  optProvider :: string
  optSourceKind :: string
  optRecordType :: string

definition canonicalFilterValue :: "string \<Rightarrow> string \<Rightarrow> string list \<Rightarrow> string result" where
  "canonicalFilterValue value label allowed =
     (let value = TrimSpace value in
      if value = '''' then Inr ''''
      else case find (\<lambda>candidate. EqualFold value candidate) allowed of
             Some candidate \<Rightarrow> Inr candidate
           | None \<Rightarrow>
               (if label = '''' then Inr value
                else Inl (ErrMsg (Sprintf ''invalid %s %q: use %s'' [FStr label, FStr value, FStr (Join allowed '' or '')]))))"

definition source_kind_filters :: "string list" where
  "source_kind_filters = [sourceKindIngressFilter, sourceKindHTTPRouteFilter, sourceKindTCPRouteFilter, sourceKindUDPRouteFilter]"

definition record_type_filters :: "string list" where
  "record_type_filters = [recordTypeAFilter, recordTypeAAAAFilter]"

definition value_or_empty :: "string result \<Rightarrow> string" where
  "value_or_empty r = (case r of Inl _ \<Rightarrow> '''' | Inr s \<Rightarrow> s)"

definition filters_of :: "recordFilterOptions \<Rightarrow> string \<Rightarrow> filters" where
  "filters_of o' namespace =
     \<lparr>fNamespace = namespace, fProvider = optProvider o',
      fSourceKind = value_or_empty (canonicalFilterValue (optSourceKind o') '''' source_kind_filters),
      fRecordType = value_or_empty (canonicalFilterValue (optRecordType o') '''' record_type_filters)\<rparr>"

definition validate :: "recordFilterOptions \<Rightarrow> goerr option" where
  "validate o' =
     (case canonicalFilterValue (optSourceKind o') ''source kind'' source_kind_filters of
        Inl e \<Rightarrow> Some e
      | Inr _ \<Rightarrow>
          (case canonicalFilterValue (optRecordType o') ''record type'' record_type_filters of
             Inl e \<Rightarrow> Some e | Inr _ \<Rightarrow> None))"

text \<open>The options before any flag is parsed.\<close>

definition default_display :: "(string \<Rightarrow> string option) option \<Rightarrow> bool option \<Rightarrow> displayOptions" where
  "default_display getenv isTerminal =
     \<lparr>optOutput = ''table'', optColor = colorAuto, optGetenv = getenv, optIsTerminal = isTerminal\<rparr>"

definition no_filter_options :: recordFilterOptions where
  "no_filter_options = \<lparr>optProvider = '''', optSourceKind = '''', optRecordType = ''''\<rparr>"

section \<open>Commands\<close>

definition writeOutput :: "'w io_writer \<Rightarrow> string \<Rightarrow> json \<Rightarrow> 'w action \<Rightarrow> 'w action" where
  "writeOutput W format value table w =
     (let f = ToLower format in
      if f = ''table'' then table w
      else if f = ''json'' then writeJSON W value w
      else Some (Some (ErrMsg (Sprintf ''invalid output format %q: use table or json'' [FStr format])), w))"

definition fail_with :: "goerr \<Rightarrow> 'w action" where
  "fail_with e w = Some (Some e, w)"

record connectionOptions =
  optKubeconfig :: string
  optContext :: string
  optNamespace :: string
  optTimeout :: int

record commandOptions =
  optConnection :: connectionOptions
  optFilters :: recordFilterOptions
  optDisplay :: displayOptions

text \<open>The Kubernetes libraries that \<open>prepare\<close> calls: loading a configuration from a kubeconfig path and a context
  name, and making the client and the discovery client.  The client's answers already take the deadline of the
  context into account.\<close>

record ('cfg, 's) kube_library =
  loadConfig :: "string \<Rightarrow> string \<Rightarrow> 'cfg result"
  setTimeout :: "int \<Rightarrow> 'cfg \<Rightarrow> 'cfg"
  schemes :: "'s scheme_library"
  newClient :: "'cfg \<Rightarrow> 's \<Rightarrow> cli_client result"
  newDiscoveryClient :: "'cfg \<Rightarrow> resourceDiscovery result"

text \<open>\<open>noArgs\<close> and \<open>exactArgs\<close> are cobra's argument checks.\<close>

record ('cfg, 's) cli_env =
  kubeLibrary :: "('cfg, 's) kube_library"
  dnsLibrary :: dns_library
  nameCheck :: name_check
  noArgs :: "string list \<Rightarrow> goerr option"
  exactArgs :: "nat \<Rightarrow> string list \<Rightarrow> goerr option"

definition prepare :: "('cfg, 's) kube_library \<Rightarrow> connectionOptions \<Rightarrow> cli_client result" where
  "prepare K options =
     (case loadConfig K (optKubeconfig options) (optContext options) of
        Inl e \<Rightarrow> Inl (WrapErr ''load kubeconfig: '' e)
      | Inr loaded \<Rightarrow>
          (let config = setTimeout K (optTimeout options) loaded; L = schemes K in
           case add_each
                  [Install L ''corev1'', Install L ''appsv1'', Install L ''networkingv1'', SchemeBuilder L,
                   Install L ''externaldnsv1alpha1'', Install L ''gatewayv1'', Install L ''gatewayv1beta1''] (NewScheme L) of
             Inl e \<Rightarrow> Inl (WrapErr ''build Kubernetes scheme: '' e)
           | Inr scheme \<Rightarrow>
               (case newClient K config scheme of
                  Inl e \<Rightarrow> Inl (WrapErr ''create Kubernetes client: '' e)
                | Inr kubeClient \<Rightarrow>
                    (case newDiscoveryClient K config of
                       Inl e \<Rightarrow> Inl (WrapErr ''create Kubernetes discovery client: '' e)
                     | Inr discoveryClient \<Rightarrow> Inr (kubeClient\<lparr>cliDiscovery := discoveryClient\<rparr>)))))"

definition list_command :: "('cfg, 's) cli_env \<Rightarrow> commandOptions \<Rightarrow> 'w io_writer \<Rightarrow> string list \<Rightarrow> 'w action" where
  "list_command E o' W args =
     (case (case noArgs E args of Some e \<Rightarrow> Some e | None \<Rightarrow> validate (optFilters o')) of
        Some e \<Rightarrow> fail_with e
      | None \<Rightarrow>
          (case prepare (kubeLibrary E) (optConnection o') of
             Inl e \<Rightarrow> fail_with e
           | Inr C \<Rightarrow>
               (case records C (filters_of (optFilters o') (optNamespace (optConnection o'))) of
                  Inl e \<Rightarrow> fail_with e
                | Inr rs \<Rightarrow>
                    writeOutput W (optOutput (optDisplay o')) (records_json rs) (writeRecords W rs (colorizer (optDisplay o'))))))"

definition lookup_failed :: "recordDetails \<Rightarrow> bool" where
  "lookup_failed ds \<longleftrightarrow> list_ex (\<lambda>d. case dDNS d of None \<Rightarrow> False | Some l \<Rightarrow> dlError l \<noteq> '''') (dsItems ds)"

definition show_command :: "('cfg, 's) cli_env \<Rightarrow> commandOptions \<Rightarrow> string \<Rightarrow> 'w io_writer \<Rightarrow> string list \<Rightarrow> 'w action" where
  "show_command E o' dnsServer W args =
     (case (case exactArgs E 1 args of Some e \<Rightarrow> Some e | None \<Rightarrow> validate (optFilters o')) of
        Some e \<Rightarrow> fail_with e
      | None \<Rightarrow>
          (case NormalizeHostname (nameCheck E) (hd args) of
             Inl e \<Rightarrow> fail_with (WrapErr ''invalid DNS name: '' e)
           | Inr name \<Rightarrow>
               (case prepare (kubeLibrary E) (optConnection o') of
                  Inl e \<Rightarrow> fail_with e
                | Inr C \<Rightarrow>
                    (case details C (lookupDNS (dnsLibrary E) None) name (filters_of (optFilters o') (optNamespace (optConnection o'))) dnsServer of
                       Inl e \<Rightarrow> fail_with e
                     | Inr ds \<Rightarrow>
                         and_next
                           (writeOutput W (optOutput (optDisplay o')) (details_json ds) (writeDetails W ds (colorizer (optDisplay o'))))
                           (if lookup_failed ds then fail_with (ErrMsg ''one or more DNS lookups failed'') else done_ok)))))"

definition status_command :: "('cfg, 's) cli_env \<Rightarrow> commandOptions \<Rightarrow> string \<Rightarrow> string \<Rightarrow> 'w io_writer \<Rightarrow> string list \<Rightarrow> 'w action" where
  "status_command E o' controllerNamespace controllerName W args =
     (case noArgs E args of
        Some e \<Rightarrow> fail_with e
      | None \<Rightarrow>
          (case prepare (kubeLibrary E) (optConnection o') of
             Inl e \<Rightarrow> fail_with e
           | Inr C \<Rightarrow>
               (let selectedNamespace = (if controllerNamespace = '''' then optNamespace (optConnection o') else controllerNamespace);
                    (result, failed) = status C selectedNamespace controllerName
                in and_next
                     (writeOutput W (optOutput (optDisplay o')) (status_json result) (writeStatus W result (colorizer (optDisplay o'))))
                     (if failed then fail_with (ErrMsg ''labdns status is unhealthy'') else done_ok))))"

section \<open>The command tree\<close>

text \<open>A flag as it is registered: its name, shorthand (empty for none), default as text, help text and the option it
  sets.  Registering a flag gives its variable the default.  What a command runs includes its check of the
  arguments, which cobra calls first.  Parsing and dispatch are cobra's.\<close>

record invocation =
  invOptions :: commandOptions
  invDNSServer :: string
  invControllerNamespace :: string
  invControllerName :: string

datatype flag_target =
    StringVar "string \<Rightarrow> invocation \<Rightarrow> invocation"
  | DurationVar "int \<Rightarrow> invocation \<Rightarrow> invocation"
  | ValueVar "string \<Rightarrow> invocation \<Rightarrow> invocation result"

record cli_flag =
  flagName :: string
  flagShorthand :: string
  flagDefault :: string
  flagUsage :: string
  flagTarget :: flag_target

record 'w cobra_command =
  cmdUse :: string
  cmdShort :: string
  cmdFlags :: "cli_flag list"
  cmdRun :: "invocation \<Rightarrow> string list \<Rightarrow> 'w action"

record 'w cobra_root =
  rootUse :: string
  rootShort :: string
  rootVersion :: string
  rootSilenceUsage :: bool
  rootSilenceErrors :: bool
  rootPersistentFlags :: "cli_flag list"
  rootCommands :: "'w cobra_command list"

definition string_flag :: "string \<Rightarrow> string \<Rightarrow> string \<Rightarrow> string \<Rightarrow> (string \<Rightarrow> invocation \<Rightarrow> invocation) \<Rightarrow> cli_flag" where
  "string_flag name shorthand value usage assign =
     \<lparr>flagName = name, flagShorthand = shorthand, flagDefault = value, flagUsage = usage, flagTarget = StringVar assign\<rparr>"

definition with_connection :: "(connectionOptions \<Rightarrow> connectionOptions) \<Rightarrow> invocation \<Rightarrow> invocation" where
  "with_connection change i = i\<lparr>invOptions := (invOptions i)\<lparr>optConnection := change (optConnection (invOptions i))\<rparr>\<rparr>"

definition with_filters :: "(recordFilterOptions \<Rightarrow> recordFilterOptions) \<Rightarrow> invocation \<Rightarrow> invocation" where
  "with_filters change i = i\<lparr>invOptions := (invOptions i)\<lparr>optFilters := change (optFilters (invOptions i))\<rparr>\<rparr>"

definition with_display :: "(displayOptions \<Rightarrow> displayOptions) \<Rightarrow> invocation \<Rightarrow> invocation" where
  "with_display change i = i\<lparr>invOptions := (invOptions i)\<lparr>optDisplay := change (optDisplay (invOptions i))\<rparr>\<rparr>"

definition persistent_flags :: "cli_flag list" where
  "persistent_flags =
     [string_flag ''kubeconfig'' '''' '''' ''Path to the kubeconfig file'' (\<lambda>v. with_connection (optKubeconfig_update (\<lambda>_. v))),
      string_flag ''context'' '''' '''' ''Kubeconfig context to use'' (\<lambda>v. with_connection (optContext_update (\<lambda>_. v))),
      string_flag ''namespace'' ''n'' '''' ''Limit inspection to a namespace'' (\<lambda>v. with_connection (optNamespace_update (\<lambda>_. v))),
      string_flag ''output'' ''o'' ''table'' ''Output format: table or json'' (\<lambda>v. with_display (optOutput_update (\<lambda>_. v))),
      \<lparr>flagName = ''request-timeout'', flagShorthand = '''', flagDefault = Duration_String (10 * second_ns),
       flagUsage = ''Timeout for Kubernetes and DNS requests'',
       flagTarget = DurationVar (\<lambda>d. with_connection (optTimeout_update (\<lambda>_. d)))\<rparr>,
      \<lparr>flagName = ''color'', flagShorthand = '''', flagDefault = colorAuto,
       flagUsage = ''Color table output: auto, always, or never'',
       flagTarget = ValueVar (\<lambda>v i. case colorMode_Set v of Inl e \<Rightarrow> Inl e | Inr m \<Rightarrow> Inr (with_display (optColor_update (\<lambda>_. m)) i))\<rparr>]"

definition addRecordFilters :: "cli_flag list" where
  "addRecordFilters =
     [string_flag ''provider'' '''' '''' ''Limit records to a logical DNSProvider'' (\<lambda>v. with_filters (optProvider_update (\<lambda>_. v))),
      string_flag ''source-kind'' '''' '''' ''Limit records to Ingress, HTTPRoute, TCPRoute, or UDPRoute sources''
        (\<lambda>v. with_filters (optSourceKind_update (\<lambda>_. v))),
      string_flag ''record-type'' '''' '''' ''Limit records to a DNS record type'' (\<lambda>v. with_filters (optRecordType_update (\<lambda>_. v)))]"

definition newListCommand :: "('cfg, 's) cli_env \<Rightarrow> 'w io_writer \<Rightarrow> 'w cobra_command" where
  "newListCommand E W =
     \<lparr>cmdUse = ''list'', cmdShort = ''List labdns-managed records'', cmdFlags = addRecordFilters,
      cmdRun = (\<lambda>i. list_command E (invOptions i) W)\<rparr>"

definition newShowCommand :: "('cfg, 's) cli_env \<Rightarrow> 'w io_writer \<Rightarrow> 'w cobra_command" where
  "newShowCommand E W =
     \<lparr>cmdUse = ''show <fqdn>'', cmdShort = ''Show labdns, ExternalDNS, and optional live DNS state for a record'',
      cmdFlags = addRecordFilters @
        [string_flag ''dns-server'' '''' '''' ''DNS resolver host or host:port for live comparison'' (\<lambda>v. invDNSServer_update (\<lambda>_. v))],
      cmdRun = (\<lambda>i. show_command E (invOptions i) (invDNSServer i) W)\<rparr>"

definition newStatusCommand :: "('cfg, 's) cli_env \<Rightarrow> 'w io_writer \<Rightarrow> 'w cobra_command" where
  "newStatusCommand E W =
     \<lparr>cmdUse = ''status'', cmdShort = ''Summarize labdns health and publication state'',
      cmdFlags =
        [string_flag ''controller-namespace'' '''' '''' ''Limit controller discovery to a namespace'' (\<lambda>v. invControllerNamespace_update (\<lambda>_. v)),
         string_flag ''controller-name'' '''' '''' ''Select an exact controller Deployment name'' (\<lambda>v. invControllerName_update (\<lambda>_. v))],
      cmdRun = (\<lambda>i. status_command E (invOptions i) (invControllerNamespace i) (invControllerName i) W)\<rparr>"

definition newCommand :: "('cfg, 's) cli_env \<Rightarrow> string \<Rightarrow> 'w io_writer \<Rightarrow> 'w cobra_root" where
  "newCommand E version W =
     \<lparr>rootUse = ''labdns'', rootShort = ''Inspect labdns publication state'', rootVersion = version,
      rootSilenceUsage = True, rootSilenceErrors = True, rootPersistentFlags = persistent_flags, rootCommands = [newListCommand E W, newShowCommand E W, newStatusCommand E W]\<rparr>"

text \<open>The options when all flags are registered and none is set.\<close>

definition default_invocation :: "(string \<Rightarrow> string option) option \<Rightarrow> bool option \<Rightarrow> invocation" where
  "default_invocation getenv isTerminal =
     \<lparr>invOptions =
        \<lparr>optConnection = \<lparr>optKubeconfig = '''', optContext = '''', optNamespace = '''', optTimeout = 10 * second_ns\<rparr>,
         optFilters = no_filter_options, optDisplay = default_display getenv isTerminal\<rparr>,
      invDNSServer = '''', invControllerNamespace = '''', invControllerName = ''''\<rparr>"

text \<open>A writer is a terminal when it has a file descriptor that is one.\<close>

definition outputIsTerminal :: "(nat \<Rightarrow> bool) \<Rightarrow> nat option \<Rightarrow> bool" where
  "outputIsTerminal IsTerminal fd = (case fd of None \<Rightarrow> False | Some d \<Rightarrow> IsTerminal d)"

definition NewCommand_options :: "(string \<Rightarrow> string option) \<Rightarrow> (nat \<Rightarrow> bool) \<Rightarrow> nat option \<Rightarrow> invocation" where
  "NewCommand_options LookupEnv IsTerminal fd = default_invocation (Some LookupEnv) (Some (outputIsTerminal IsTerminal fd))"

text \<open>\<^verbatim>\<open>cmd/labdns\<close>: the exit code and what goes to the error output.\<close>

definition labdns_main :: "goerr option \<Rightarrow> nat \<times> string" where
  "labdns_main err = (case err of None \<Rightarrow> (0, '''') | Some e \<Rightarrow> (1, Error e @ ''\<newline>''))"

section \<open>Commands return\<close>

definition returns :: "'w action \<Rightarrow> bool" where
  "returns a \<longleftrightarrow> (\<forall>w. a w \<noteq> None)"

lemma returnsD: "returns a \<Longrightarrow> \<exists>err w'. a w = Some (err, w')"
  unfolding returns_def by (metis not_None_eq prod.exhaust)

lemma returns_next: "returns a \<Longrightarrow> returns b \<Longrightarrow> returns (and_next a b)"
  unfolding returns_def and_next_def
proof (intro allI)
  fix w
  assume a: "\<forall>w. a w \<noteq> None" and b: "\<forall>w. b w \<noteq> None"
  obtain err w' where "a w = Some (err, w')" using a by (metis not_None_eq prod.exhaust)
  then show "Option.bind (a w) (\<lambda>(err, w'). case err of Some e \<Rightarrow> Some (Some e, w') | None \<Rightarrow> b w') \<noteq> None"
    using b by (cases err) simp_all
qed

lemma returns_basic: "returns done_ok" "returns (fail_with e)" "returns (writeString W s)" "returns (writeTable W rows enabled)" "returns (writeJSON W v)"
  by (auto simp: returns_def done_ok_def fail_with_def writeTable_eq writeJSON_def writes_one writes_def split: prod.split)

lemma returns_writeOutput: "returns table \<Longrightarrow> returns (writeOutput W format v table)"
  using returns_basic(5) [of W v] by (simp add: returns_def writeOutput_def Let_def)

lemma returns_write_details: "returns (write_details W enabled index ds)"
  by (induction ds arbitrary: index) (simp_all add: returns_basic returns_next)

lemma returns_writers: "returns (writeRecords W rs enabled)" "returns (writeDetails W ds enabled)" "returns (writeStatus W st enabled)"
  unfolding writeRecords_def writeDetails_def writeStatus_def by (rule returns_basic(4) returns_write_details)+

lemma returns_list: "returns (list_command E o' W args)"
  by (simp add: list_command_def returns_basic returns_writeOutput returns_writers split: option.split sum.split)

lemma returns_show: "returns (show_command E o' dnsServer W args)"
  by (simp add: show_command_def returns_basic returns_writeOutput returns_writers returns_next split: option.split sum.split)

lemma returns_status: "returns (status_command E o' controllerNamespace controllerName W args)"
  by (simp add: status_command_def Let_def returns_basic returns_writeOutput returns_writers returns_next split: option.split sum.split prod.split)


end
