(* ===== verification/Gateway_Flag.thy ===== *)
theory Gateway_Flag
  imports Inspect
begin

text \<open>
  Two readers of one command line.  The controller reads its flags with \<^verbatim>\<open>flag.Parse\<close> (\<open>main\<close>); the command
  line tool looks at the arguments in the controller's Deployment (\<open>gatewayAPIEnabled\<close>) to tell whether the
  Gateway API is enabled.  They agree on the arguments that \<open>Parse\<close> reads as flags.  They can differ when an argument
  that is the value of another flag, or stands behind the first argument that is no flag, looks like the flag.
\<close>

definition gateway_flag :: string where
  "gateway_flag = ''enable-gateway-api''"

definition looks_like_gateway_flag :: "string \<Rightarrow> bool" where
  "looks_like_gateway_flag arg \<longleftrightarrow>
     (\<exists>dashes \<in> {''-'', ''--''}. arg = dashes @ gateway_flag \<or> prefix (dashes @ gateway_flag @ ''='') arg)"

abbreviation gateway_step :: "string \<Rightarrow> bool \<Rightarrow> bool result" where
  "gateway_step \<equiv> gateway_arg [''--enable-gateway-api'', ''-enable-gateway-api'']"

lemma gateway_spellings:
  "''--enable-gateway-api'' = ''--'' @ gateway_flag" "''-enable-gateway-api'' = ''-'' @ gateway_flag"
  by (simp_all add: gateway_flag_def)

lemma gateway_step_other: "\<not> looks_like_gateway_flag arg \<Longrightarrow> gateway_step arg enabled = Inr enabled"
  unfolding gateway_spellings looks_like_gateway_flag_def by (auto simp: CutPrefix_def)

lemma gateway_step_plain: "dashes = ''-'' \<or> dashes = ''--'' \<Longrightarrow> gateway_step (dashes @ gateway_flag) enabled = Inr True"
  by (auto simp: CutPrefix_def gateway_flag_def)

lemma gateway_step_value:
  "dashes = ''-'' \<or> dashes = ''--'' \<Longrightarrow> gateway_step (dashes @ gateway_flag @ ''='' @ value) enabled =
     (case ParseBool value of
        None \<Rightarrow> Inl (WrapErr (Sprintf ''invalid enable-gateway-api value %q: '' [FStr value]) std_error)
      | Some parsed \<Rightarrow> Inr parsed)"
  by (auto simp: CutPrefix_def gateway_flag_def numeral_eq_Suc split: option.split)

lemma looks_likeD:
  assumes "looks_like_gateway_flag s"
  obtains dashes r where "dashes = ''-'' \<or> dashes = ''--''" "s = dashes @ gateway_flag @ r" "r = '''' \<or> (\<exists>v. r = ''='' @ v)"
proof -
  from assms obtain dashes where d: "dashes = ''-'' \<or> dashes = ''--''"
    and s: "s = dashes @ gateway_flag @ '''' \<or> (\<exists>v. s = dashes @ gateway_flag @ ''='' @ v)"
    unfolding looks_like_gateway_flag_def prefix_def by (simp del: append_Cons) blast
  then show thesis using that by blast
qed

declare gateway_arg.simps [simp del]

section \<open>One argument\<close>

text \<open>What an argument that reads as a flag looks like.\<close>

lemma split_equals:
  assumes "CHR ''='' \<in> set name"
  shows "name = takeWhile (\<lambda>c. c \<noteq> CHR ''='') name @ ''='' @ drop 1 (dropWhile (\<lambda>c. c \<noteq> CHR ''='') name)"
proof -
  have "dropWhile (\<lambda>c. c \<noteq> CHR ''='') name \<noteq> []" using assms by auto
  then have "dropWhile (\<lambda>c. c \<noteq> CHR ''='') name = CHR ''='' # drop 1 (dropWhile (\<lambda>c. c \<noteq> CHR ''='') name)"
    using hd_dropWhile [of "\<lambda>c. c \<noteq> CHR ''=''" name] by (cases "dropWhile (\<lambda>c. c \<noteq> CHR ''='') name") auto
  then show ?thesis by (metis append_Cons append_Nil takeWhile_dropWhile_id)
qed

lemma read_arg_FlagArg:
  assumes "read_arg s = FlagArg name given"
  obtains dashes where "dashes = ''-'' \<or> dashes = ''--''" "name \<noteq> []" "hd name \<noteq> CHR ''-''" "CHR ''='' \<notin> set name"
    "s = dashes @ name @ (case given of None \<Rightarrow> '''' | Some value \<Rightarrow> ''='' @ value)"
proof -
  define n where "n = (if s ! 1 = CHR ''-'' then 2 else (1::nat))"
  define body where "body = drop n s"
  have s: "\<not> (length s < 2 \<or> s ! 0 \<noteq> CHR ''-'')" "s \<noteq> ''--''" "\<not> (body = [] \<or> body ! 0 = CHR ''-'' \<or> body ! 0 = CHR ''='')"
    and r: "(if CHR ''='' \<in> set body
       then FlagArg (takeWhile (\<lambda>c. c \<noteq> CHR ''='') body) (Some (drop 1 (dropWhile (\<lambda>c. c \<noteq> CHR ''='') body)))
       else FlagArg body None) = FlagArg name given"
    using assms unfolding read_arg_def Let_def n_def [symmetric] body_def [symmetric] by (auto split: if_splits)
  obtain a b t where abt: "s = a # b # t" using s(1) by (cases s; cases "tl s") auto
  then have dashes: "take n s = (if b = CHR ''-'' then ''--'' else ''-'')" using s(1) by (simp add: n_def)
  have whole: "s = take n s @ body" by (simp add: body_def)
  have body_text: "body = name @ (case given of None \<Rightarrow> '''' | Some value \<Rightarrow> ''='' @ value)" and clean: "CHR ''='' \<notin> set name"
    using r split_equals [of body] by (auto split: if_splits dest: set_takeWhileD)
  have "hd body = body ! 0" using s(3) by (simp add: hd_conv_nth)
  then have "name \<noteq> []" "hd name \<noteq> CHR ''-''"
    using s(3) body_text by (cases name; auto split: option.splits)+
  then show thesis using that [of "take n s"] dashes whole body_text clean by auto
qed

lemma equals_split:
  assumes "CHR ''='' \<notin> set name" "CHR ''='' \<notin> set name'"
  shows "name @ ''='' @ v = name' @ ''='' @ v' \<longleftrightarrow> name = name' \<and> v = v'"
proof
  assume eq: "name @ ''='' @ v = name' @ ''='' @ v'"
  have "takeWhile (\<lambda>c. c \<noteq> CHR ''='') (n @ ''='' @ w) = n" if "CHR ''='' \<notin> set n" for n w
    using that by (simp add: takeWhile_append)
  then have "name = name'" using assms eq by metis
  with eq show "name = name' \<and> v = v'" by simp
qed simp

lemma gateway_step_flag:
  assumes "read_arg s = FlagArg name given"
  shows "gateway_step s enabled =
     (if name \<noteq> gateway_flag then Inr enabled
      else case given of
             None \<Rightarrow> Inr True
           | Some value \<Rightarrow>
               (case ParseBool value of
                  None \<Rightarrow> Inl (WrapErr (Sprintf ''invalid enable-gateway-api value %q: '' [FStr value]) std_error)
                | Some parsed \<Rightarrow> Inr parsed))"
proof -
  obtain dashes where d: "dashes = ''-'' \<or> dashes = ''--''" and name: "name \<noteq> []" "hd name \<noteq> CHR ''-''" "CHR ''='' \<notin> set name"
    and s: "s = dashes @ name @ (case given of None \<Rightarrow> '''' | Some value \<Rightarrow> ''='' @ value)"
    by (rule read_arg_FlagArg [OF assms])
  show ?thesis
  proof (cases "name = gateway_flag")
    case True
    with d s show ?thesis
      by (cases given) (simp_all only: gateway_step_plain gateway_step_value append_Nil2 option.case if_False not_True_eq_False simp_thms)
  next
    case False
    have g: "CHR ''='' \<notin> set gateway_flag" "gateway_flag \<noteq> []" "hd gateway_flag \<noteq> CHR ''-''"
      by (simp_all add: gateway_flag_def)
    have strip: "dashes @ a = dashes' @ b \<longleftrightarrow> dashes = dashes' \<and> a = b"
      if "dashes' = ''-'' \<or> dashes' = ''--''" "a \<noteq> []" "hd a \<noteq> CHR ''-''" "b \<noteq> []" "hd b \<noteq> CHR ''-''" for dashes' a b
      using d that by (cases a; cases b) auto
    have "\<not> looks_like_gateway_flag s"
    proof
      assume "looks_like_gateway_flag s"
      then obtain dashes' r where shape: "dashes' = ''-'' \<or> dashes' = ''--''" "s = dashes' @ gateway_flag @ r" "r = '''' \<or> (\<exists>v. r = ''='' @ v)"
        by (rule looks_likeD)
      then have "name @ (case given of None \<Rightarrow> '''' | Some value \<Rightarrow> ''='' @ value) = gateway_flag @ r"
        using strip [OF shape(1), of "name @ (case given of None \<Rightarrow> '''' | Some value \<Rightarrow> ''='' @ value)" "gateway_flag @ r"] s name g by simp
      then have "name = gateway_flag"
      proof (cases given)
        case None
        then have eq: "name = gateway_flag @ r" using \<open>name @ _ = _\<close> by simp
        then show ?thesis using shape(3) name(3) by auto
      next
        case (Some w)
        then have eq: "name @ ''='' @ w = gateway_flag @ r" using \<open>name @ _ = _\<close> by simp
        have "r \<noteq> ''''" using eq g(1) by (metis append.right_neutral in_set_conv_decomp append_Cons append_Nil)
        then show ?thesis using shape(3) eq equals_split [OF name(3) g(1)] by blast
      qed
      with False show False ..
    qed
    then show ?thesis using False by (simp add: gateway_step_other)
  qed
qed

section \<open>The command line\<close>

lemma gateway_lookup: "map_of (command_line names) gateway_flag = Some (BoolFlag (\<lambda>b f. f\<lparr>enableGatewayAPI := b\<rparr>))"
  by (simp add: command_line_def main_flags_def gateway_flag_def)

lemma library_lookup: "map_of (library_flags names) name = Some v \<Longrightarrow> v = StringFlag (\<lambda>v f. f)"
  by (auto simp: library_flags_def dest: map_of_SomeD)

lemma other_lookup:
  assumes "map_of (command_line names) name = Some v" "name \<noteq> gateway_flag"
  shows "(\<forall>assign b f. v = BoolFlag assign \<longrightarrow> enableGatewayAPI (assign b f) = enableGatewayAPI f) \<and>
    (\<forall>assign w f. v = StringFlag assign \<longrightarrow> enableGatewayAPI (assign w f) = enableGatewayAPI f)"
  using assms by (auto simp: command_line_def main_flags_def gateway_flag_def map_add_def split: if_splits option.splits dest: library_lookup)

lemma parse_gateway:
  assumes "Parse (command_line names) args f = Inr (f', rest)"
  shows "gateway_args (flag_args (command_line names) args) (enableGatewayAPI f) = Inr (enableGatewayAPI f')"
  using assms
proof (induction "command_line names" args f rule: Parse.induct)
  case (2 s args f)
  show ?case
  proof (cases "read_arg s")
    case (FlagArg name given)
    note read = FlagArg
    show ?thesis
    proof (cases "map_of (command_line names) name")
      case None
      with 2 read show ?thesis by simp
    next
      case (Some v)
      show ?thesis
      proof (cases "name = gateway_flag")
        case True
        with 2 read show ?thesis
          by (auto simp: gateway_lookup is_flag_arg_def takes_next_def gateway_step_flag [OF read] split: option.splits)
      next
        case False
        note kept = other_lookup [OF Some this]
        have step: "gateway_step s enabled = Inr enabled" for enabled
          using False by (simp add: gateway_step_flag [OF read])
        show ?thesis
        proof (cases v)
          case (BoolFlag assign)
          with 2 read Some kept show ?thesis
            by (auto simp: is_flag_arg_def takes_next_def step split: option.splits)
        next
          case (StringFlag assign)
          with 2 read Some kept show ?thesis
            by (auto simp: is_flag_arg_def takes_next_def step split: option.splits list.splits)
        qed
      qed
    qed
  qed (use 2 in \<open>auto simp: is_flag_arg_def\<close>)
qed simp

lemma gateway_args_others:
  assumes "\<forall>a \<in> set (other_args flags args). \<not> looks_like_gateway_flag a"
  shows "gateway_args args enabled = gateway_args (flag_args flags args) enabled"
  using assms
proof (induction flags args arbitrary: enabled rule: flag_args.induct)
  case (2 flags s args)
  have rest: "gateway_args xs e = Inr e" if "\<forall>a \<in> set xs. \<not> looks_like_gateway_flag a" for xs e
    using that by (induction xs) (simp_all add: gateway_step_other)
  show ?case
  proof (cases "is_flag_arg s")
    case False
    with 2(3) rest [of "s # args" enabled] show ?thesis by simp
  next
    case True
    with 2 show ?thesis
      by (cases args) (auto simp: gateway_step_other split: sum.split)
  qed
qed simp

section \<open>Agreement\<close>

text \<open>C24: the command line tool reads the Gateway API flag as the controller does.  Whenever the controller accepts
  its command line, the tool's answer on the arguments that are read as flags is the controller's setting, and
  so is its answer on the whole line unless an argument that is no flag looks like the flag.  That condition is
  needed: behind \<^verbatim>\<open>--leader-elect true\<close> the controller stops reading flags, and the tool does not.\<close>

theorem gateway_flag_agrees:
  assumes "Parse (command_line names) args default_flags = Inr (f, rest)"
  shows "gatewayAPIEnabled (flag_args (command_line names) args) = Inr (enableGatewayAPI f) \<and>
    (list_ex looks_like_gateway_flag (other_args (command_line names) args) \<or> gatewayAPIEnabled args = Inr (enableGatewayAPI f)) \<and>
    (let line = [''--leader-elect'', ''true'', ''--enable-gateway-api''] in
     Parse (command_line names) line default_flags = Inr (default_flags\<lparr>leaderElect := True\<rparr>, tl line) \<and>
     \<not> enableGatewayAPI (default_flags\<lparr>leaderElect := True\<rparr>) \<and> gatewayAPIEnabled line = Inr True)"
proof (intro conjI)
  have start: "enableGatewayAPI default_flags = False" by (simp add: default_flags_def)
  show flags: "gatewayAPIEnabled (flag_args (command_line names) args) = Inr (enableGatewayAPI f)"
    using parse_gateway [OF assms] by (simp add: gatewayAPIEnabled_def start)
  show "list_ex looks_like_gateway_flag (other_args (command_line names) args) \<or> gatewayAPIEnabled args = Inr (enableGatewayAPI f)"
    using flags gateway_args_others [of "command_line names" args False]
    by (auto simp: gatewayAPIEnabled_def list_ex_iff)
  show "let line = [''--leader-elect'', ''true'', ''--enable-gateway-api''] in
     Parse (command_line names) line default_flags = Inr (default_flags\<lparr>leaderElect := True\<rparr>, tl line) \<and>
     \<not> enableGatewayAPI (default_flags\<lparr>leaderElect := True\<rparr>) \<and> gatewayAPIEnabled line = Inr True"
    by (simp add: read_arg_def Let_def command_line_def main_flags_def start gatewayAPIEnabled_def gateway_arg.simps CutPrefix_def)
qed

lemma gateway_flag_agrees_witness:
  "gatewayAPIEnabled [''--metrics-addr'', '':8443'', ''-leader-elect=t'', ''--enable-gateway-api''] = Inr True"
proof -
  let ?args = "[''--metrics-addr'', '':8443'', ''-leader-elect=t'', ''--enable-gateway-api'']"
  let ?f = "default_flags\<lparr>metricsAddr := '':8443'', leaderElect := True, enableGatewayAPI := True\<rparr>"
  have parse: "Parse (command_line [''kubeconfig'']) ?args default_flags = Inr (?f, [])"
    by (simp add: read_arg_def Let_def command_line_def main_flags_def ParseBool_def)
  have "\<not> list_ex looks_like_gateway_flag (other_args (command_line [''kubeconfig'']) ?args)"
    by (simp add: read_arg_def Let_def command_line_def main_flags_def is_flag_arg_def takes_next_def looks_like_gateway_flag_def)
  with gateway_flag_agrees [OF parse] show ?thesis by simp
qed

end
