(* ===== verification/Deep_Copy.thy ===== *)
theory Deep_Copy
  imports Kube_Types
begin

text \<open>
  \<^verbatim>\<open>api/v1alpha1/zz_generated.deepcopy.go\<close>: the deep copies of the API types, on an explicit store.  Elsewhere in this
  development an object is a value; a Go object holds pointers and slices, and the cached objects that the
  controllers read are shared.  What makes them values is that a deep copy shares no cell with the
  original, so that writing to the one never changes the other.

  A \<open>store\<close> maps addresses to cells; a pointer or slice is \<open>None\<close> (nil) or an address.  A cell holds a struct or the
  elements of a slice.  A \<open>copier\<close> is a copying function that allocates everything its result refers to; it is closed
  under structs, slices and pointers, and \<open>deep_copier\<close> draws the conclusions.  Metadata is the library's:
  its copying is a parameter, with the documented behaviour \<open>metadata_doc\<close>.
\<close>

section \<open>The store\<close>

type_synonym ref = "nat option"

record IPSources_v =
  vIPv4 :: ref
  vIPv6 :: ref

record RecordDefaults_v =
  vTTL :: int
  vDeletionDelay :: ref

record ProviderSpecific_v =
  vDefaults :: ref
  vAnnotationKeys :: ref

record DNSProviderSpec_v =
  vZones :: ref
  vIPSources :: IPSources_v
  vRecordDefaults :: RecordDefaults_v
  vProviderSpecific :: ProviderSpecific_v

record 'm DNSProvider_v =
  vTypeMeta :: "string \<times> string"
  vObjectMeta :: 'm
  vSpec :: DNSProviderSpec_v

record 'm DNSProviderList_v =
  vListTypeMeta :: "string \<times> string"
  vListMeta :: 'm
  vItems :: ref

text \<open>A \<open>Foreign\<close> cell belongs to the metadata library.\<close>

datatype 'm cell =
    ZoneSlice "DNSZone list"
  | PropertySlice "Property list"
  | KeySlice "string list"
  | ProviderSlice "'m DNSProvider_v list"
  | DurationCell int
  | LabelCell NodeLabelSource
  | ZoneCell DNSZone
  | PropertyCell Property
  | IPSourcesCell IPSources_v
  | RecordDefaultsCell RecordDefaults_v
  | ProviderSpecificCell ProviderSpecific_v
  | SpecCell DNSProviderSpec_v
  | ProviderCell "'m DNSProvider_v"
  | ListCell "'m DNSProviderList_v"
  | Foreign string

fun zone_slice where "zone_slice (ZoneSlice x) = Some x" | "zone_slice _ = None"
fun property_slice where "property_slice (PropertySlice x) = Some x" | "property_slice _ = None"
fun key_slice where "key_slice (KeySlice x) = Some x" | "key_slice _ = None"
fun provider_slice where "provider_slice (ProviderSlice x) = Some x" | "provider_slice _ = None"
fun duration_cell where "duration_cell (DurationCell x) = Some x" | "duration_cell _ = None"
fun label_cell where "label_cell (LabelCell x) = Some x" | "label_cell _ = None"
fun zone_cell where "zone_cell (ZoneCell x) = Some x" | "zone_cell _ = None"
fun property_cell where "property_cell (PropertyCell x) = Some x" | "property_cell _ = None"
fun ip_sources_cell where "ip_sources_cell (IPSourcesCell x) = Some x" | "ip_sources_cell _ = None"
fun record_defaults_cell where "record_defaults_cell (RecordDefaultsCell x) = Some x" | "record_defaults_cell _ = None"
fun provider_specific_cell where "provider_specific_cell (ProviderSpecificCell x) = Some x" | "provider_specific_cell _ = None"
fun spec_cell where "spec_cell (SpecCell x) = Some x" | "spec_cell _ = None"
fun provider_cell where "provider_cell (ProviderCell x) = Some x" | "provider_cell _ = None"
fun list_cell where "list_cell (ListCell x) = Some x" | "list_cell _ = None"

text \<open>\<open>next_cell\<close> is the next free address.\<close>

record 'm store =
  cells :: "nat \<rightharpoonup> 'm cell"
  next_cell :: nat

definition wf_store :: "'m store \<Rightarrow> bool" where
  "wf_store s \<longleftrightarrow> (\<forall>a \<in> dom (cells s). a < next_cell s)"

definition alloc :: "'m cell \<Rightarrow> 'm store \<Rightarrow> nat \<times> 'm store" where
  "alloc c s = (next_cell s, \<lparr>cells = (cells s)(next_cell s \<mapsto> c), next_cell = next_cell s + 1\<rparr>)"

section \<open>Copying\<close>

text \<open>\<^verbatim>\<open>*out = new(T); in.DeepCopyInto(*out)\<close>, or \<^verbatim>\<open>make\<close> and a copy of the elements: a new cell with a copy of
  what the old one holds.  Nil is copied to nil; a pointer of Go never dangles.\<close>

definition copy_ref :: "('m cell \<Rightarrow> 'v option) \<Rightarrow> ('v \<Rightarrow> 'm cell) \<Rightarrow> ('v \<Rightarrow> 'm store \<Rightarrow> 'v \<times> 'm store) \<Rightarrow> ref \<Rightarrow> 'm store \<Rightarrow> ref \<times> 'm store" where
  "copy_ref unwrap wrap into r s =
     (case Option.bind r (\<lambda>a. Option.bind (cells s a) unwrap) of
        None \<Rightarrow> (None, s)
      | Some v \<Rightarrow> (let (v', s1) = into v s; (b, s2) = alloc (wrap v') s1 in (Some b, s2)))"

text \<open>\<^verbatim>\<open>*out = *in\<close> of a struct without pointers.\<close>

definition copy_plain :: "'v \<Rightarrow> 'm store \<Rightarrow> 'v \<times> 'm store" where
  "copy_plain v s = (v, s)"

fun copy_each :: "('v \<Rightarrow> 'm store \<Rightarrow> 'v \<times> 'm store) \<Rightarrow> 'v list \<Rightarrow> 'm store \<Rightarrow> 'v list \<times> 'm store" where
  "copy_each into [] s = ([], s)"
| "copy_each into (v # vs) s = (let (v', s1) = into v s; (vs', s2) = copy_each into vs s1 in (v' # vs', s2))"

definition DNSZone_DeepCopyInto :: "DNSZone \<Rightarrow> 'm store \<Rightarrow> DNSZone \<times> 'm store" where
  "DNSZone_DeepCopyInto = copy_plain"

definition NodeLabelSource_DeepCopyInto :: "NodeLabelSource \<Rightarrow> 'm store \<Rightarrow> NodeLabelSource \<times> 'm store" where
  "NodeLabelSource_DeepCopyInto = copy_plain"

definition ProviderProperty_DeepCopyInto :: "Property \<Rightarrow> 'm store \<Rightarrow> Property \<times> 'm store" where
  "ProviderProperty_DeepCopyInto = copy_plain"

definition IPSources_DeepCopyInto :: "IPSources_v \<Rightarrow> 'm store \<Rightarrow> IPSources_v \<times> 'm store" where
  "IPSources_DeepCopyInto v s =
     (let (p4, s1) = copy_ref label_cell LabelCell copy_plain (vIPv4 v) s;
          (p6, s2) = copy_ref label_cell LabelCell copy_plain (vIPv6 v) s1
      in (v\<lparr>vIPv4 := p4, vIPv6 := p6\<rparr>, s2))"

definition RecordDefaults_DeepCopyInto :: "RecordDefaults_v \<Rightarrow> 'm store \<Rightarrow> RecordDefaults_v \<times> 'm store" where
  "RecordDefaults_DeepCopyInto v s =
     (let (p, s1) = copy_ref duration_cell DurationCell copy_plain (vDeletionDelay v) s in (v\<lparr>vDeletionDelay := p\<rparr>, s1))"

definition ProviderSpecific_DeepCopyInto :: "ProviderSpecific_v \<Rightarrow> 'm store \<Rightarrow> ProviderSpecific_v \<times> 'm store" where
  "ProviderSpecific_DeepCopyInto v s =
     (let (d, s1) = copy_ref property_slice PropertySlice copy_plain (vDefaults v) s;
          (k, s2) = copy_ref key_slice KeySlice copy_plain (vAnnotationKeys v) s1
      in (v\<lparr>vDefaults := d, vAnnotationKeys := k\<rparr>, s2))"

definition DNSProviderSpec_DeepCopyInto :: "DNSProviderSpec_v \<Rightarrow> 'm store \<Rightarrow> DNSProviderSpec_v \<times> 'm store" where
  "DNSProviderSpec_DeepCopyInto v s =
     (let (z, s1) = copy_ref zone_slice ZoneSlice copy_plain (vZones v) s;
          (ip, s2) = IPSources_DeepCopyInto (vIPSources v) s1;
          (rd, s3) = RecordDefaults_DeepCopyInto (vRecordDefaults v) s2;
          (ps, s4) = ProviderSpecific_DeepCopyInto (vProviderSpecific v) s3
      in (v\<lparr>vZones := z, vIPSources := ip, vRecordDefaults := rd, vProviderSpecific := ps\<rparr>, s4))"

type_synonym 'm copy_metadata = "'m \<Rightarrow> 'm store \<Rightarrow> 'm \<times> 'm store"

definition DNSProvider_DeepCopyInto :: "'m copy_metadata \<Rightarrow> 'm DNSProvider_v \<Rightarrow> 'm store \<Rightarrow> 'm DNSProvider_v \<times> 'm store" where
  "DNSProvider_DeepCopyInto copyMeta v s =
     (let (m, s1) = copyMeta (vObjectMeta v) s; (spec, s2) = DNSProviderSpec_DeepCopyInto (vSpec v) s1
      in (v\<lparr>vObjectMeta := m, vSpec := spec\<rparr>, s2))"

definition DNSProviderList_DeepCopyInto :: "'m copy_metadata \<Rightarrow> 'm DNSProviderList_v \<Rightarrow> 'm store \<Rightarrow> 'm DNSProviderList_v \<times> 'm store" where
  "DNSProviderList_DeepCopyInto copyMeta v s =
     (let (m, s1) = copyMeta (vListMeta v) s;
          (items, s2) = copy_ref provider_slice ProviderSlice (copy_each (DNSProvider_DeepCopyInto copyMeta)) (vItems v) s1
      in (v\<lparr>vListMeta := m, vItems := items\<rparr>, s2))"

text \<open>The \<^verbatim>\<open>DeepCopy\<close> methods, on pointers.\<close>

definition DNSZone_DeepCopy :: "ref \<Rightarrow> 'm store \<Rightarrow> ref \<times> 'm store" where
  "DNSZone_DeepCopy = copy_ref zone_cell ZoneCell DNSZone_DeepCopyInto"

definition NodeLabelSource_DeepCopy :: "ref \<Rightarrow> 'm store \<Rightarrow> ref \<times> 'm store" where
  "NodeLabelSource_DeepCopy = copy_ref label_cell LabelCell NodeLabelSource_DeepCopyInto"

definition ProviderProperty_DeepCopy :: "ref \<Rightarrow> 'm store \<Rightarrow> ref \<times> 'm store" where
  "ProviderProperty_DeepCopy = copy_ref property_cell PropertyCell ProviderProperty_DeepCopyInto"

definition IPSources_DeepCopy :: "ref \<Rightarrow> 'm store \<Rightarrow> ref \<times> 'm store" where
  "IPSources_DeepCopy = copy_ref ip_sources_cell IPSourcesCell IPSources_DeepCopyInto"

definition RecordDefaults_DeepCopy :: "ref \<Rightarrow> 'm store \<Rightarrow> ref \<times> 'm store" where
  "RecordDefaults_DeepCopy = copy_ref record_defaults_cell RecordDefaultsCell RecordDefaults_DeepCopyInto"

definition ProviderSpecific_DeepCopy :: "ref \<Rightarrow> 'm store \<Rightarrow> ref \<times> 'm store" where
  "ProviderSpecific_DeepCopy = copy_ref provider_specific_cell ProviderSpecificCell ProviderSpecific_DeepCopyInto"

definition DNSProviderSpec_DeepCopy :: "ref \<Rightarrow> 'm store \<Rightarrow> ref \<times> 'm store" where
  "DNSProviderSpec_DeepCopy = copy_ref spec_cell SpecCell DNSProviderSpec_DeepCopyInto"

definition DNSProvider_DeepCopy :: "'m copy_metadata \<Rightarrow> ref \<Rightarrow> 'm store \<Rightarrow> ref \<times> 'm store" where
  "DNSProvider_DeepCopy copyMeta = copy_ref provider_cell ProviderCell (DNSProvider_DeepCopyInto copyMeta)"

definition DNSProviderList_DeepCopy :: "'m copy_metadata \<Rightarrow> ref \<Rightarrow> 'm store \<Rightarrow> ref \<times> 'm store" where
  "DNSProviderList_DeepCopy copyMeta = copy_ref list_cell ListCell (DNSProviderList_DeepCopyInto copyMeta)"

text \<open>A nil pointer becomes the nil interface, any other the pointer in an interface.\<close>

definition DNSProvider_DeepCopyObject :: "'m copy_metadata \<Rightarrow> ref \<Rightarrow> 'm store \<Rightarrow> ref \<times> 'm store" where
  "DNSProvider_DeepCopyObject copyMeta r s =
     (case DNSProvider_DeepCopy copyMeta r s of (Some c, s') \<Rightarrow> (Some c, s') | (None, s') \<Rightarrow> (None, s'))"

definition DNSProviderList_DeepCopyObject :: "'m copy_metadata \<Rightarrow> ref \<Rightarrow> 'm store \<Rightarrow> ref \<times> 'm store" where
  "DNSProviderList_DeepCopyObject copyMeta r s =
     (case DNSProviderList_DeepCopy copyMeta r s of (Some c, s') \<Rightarrow> (Some c, s') | (None, s') \<Rightarrow> (None, s'))"

section \<open>What a reference denotes\<close>

text \<open>The value behind a reference, and the addresses that it depends on.\<close>

definition read_ref :: "('m cell \<Rightarrow> 'v option) \<Rightarrow> ('m store \<Rightarrow> 'v \<Rightarrow> 'a) \<Rightarrow> 'm store \<Rightarrow> ref \<Rightarrow> 'a option" where
  "read_ref unwrap rd s r = map_option (rd s) (Option.bind r (\<lambda>a. Option.bind (cells s a) unwrap))"

definition refs_ref :: "('m cell \<Rightarrow> 'v option) \<Rightarrow> ('m store \<Rightarrow> 'v \<Rightarrow> nat set) \<Rightarrow> 'm store \<Rightarrow> ref \<Rightarrow> nat set" where
  "refs_ref unwrap rf s r =
     (case r of
        None \<Rightarrow> {}
      | Some a \<Rightarrow> insert a (case Option.bind (cells s a) unwrap of None \<Rightarrow> {} | Some v \<Rightarrow> rf s v))"

abbreviation plain_value :: "'m store \<Rightarrow> 'v \<Rightarrow> 'v" where "plain_value \<equiv> \<lambda>_ v. v"
abbreviation no_refs :: "'m store \<Rightarrow> 'v \<Rightarrow> nat set" where "no_refs \<equiv> \<lambda>_ _. {}"

abbreviation plain_at :: "('m cell \<Rightarrow> 'v option) \<Rightarrow> 'm store \<Rightarrow> ref \<Rightarrow> 'v option" where
  "plain_at unwrap \<equiv> read_ref unwrap plain_value"

abbreviation plain_refs :: "('m cell \<Rightarrow> 'v option) \<Rightarrow> 'm store \<Rightarrow> ref \<Rightarrow> nat set" where
  "plain_refs unwrap \<equiv> refs_ref unwrap no_refs"

definition IPSources_value :: "'m store \<Rightarrow> IPSources_v \<Rightarrow> IPSources" where
  "IPSources_value s v = \<lparr>ipv4 = plain_at label_cell s (vIPv4 v), ipv6 = plain_at label_cell s (vIPv6 v)\<rparr>"

definition IPSources_refs :: "'m store \<Rightarrow> IPSources_v \<Rightarrow> nat set" where
  "IPSources_refs s v = plain_refs label_cell s (vIPv4 v) \<union> plain_refs label_cell s (vIPv6 v)"

definition RecordDefaults_value :: "'m store \<Rightarrow> RecordDefaults_v \<Rightarrow> RecordDefaults" where
  "RecordDefaults_value s v = \<lparr>defaultTTL = vTTL v, defaultDelay = plain_at duration_cell s (vDeletionDelay v)\<rparr>"

definition RecordDefaults_refs :: "'m store \<Rightarrow> RecordDefaults_v \<Rightarrow> nat set" where
  "RecordDefaults_refs s v = plain_refs duration_cell s (vDeletionDelay v)"

definition elements :: "'a list option \<Rightarrow> 'a list" where
  "elements r = (case r of None \<Rightarrow> [] | Some xs \<Rightarrow> xs)"

definition ProviderSpecific_value :: "'m store \<Rightarrow> ProviderSpecific_v \<Rightarrow> ProviderSpecific" where
  "ProviderSpecific_value s v =
     \<lparr>Defaults = elements (plain_at property_slice s (vDefaults v)), AnnotationKeys = elements (plain_at key_slice s (vAnnotationKeys v))\<rparr>"

definition ProviderSpecific_refs :: "'m store \<Rightarrow> ProviderSpecific_v \<Rightarrow> nat set" where
  "ProviderSpecific_refs s v = plain_refs property_slice s (vDefaults v) \<union> plain_refs key_slice s (vAnnotationKeys v)"

definition DNSProviderSpec_value :: "'m store \<Rightarrow> DNSProviderSpec_v \<Rightarrow> DNSProviderSpec" where
  "DNSProviderSpec_value s v =
     \<lparr>Zones = elements (plain_at zone_slice s (vZones v)), ipSources = IPSources_value s (vIPSources v),
      recordDefaults = RecordDefaults_value s (vRecordDefaults v), providerSpecific = ProviderSpecific_value s (vProviderSpecific v)\<rparr>"

definition DNSProviderSpec_refs :: "'m store \<Rightarrow> DNSProviderSpec_v \<Rightarrow> nat set" where
  "DNSProviderSpec_refs s v =
     plain_refs zone_slice s (vZones v) \<union> IPSources_refs s (vIPSources v) \<union>
     RecordDefaults_refs s (vRecordDefaults v) \<union> ProviderSpecific_refs s (vProviderSpecific v)"

section \<open>Copiers\<close>

definition copier :: "('v \<Rightarrow> 'm store \<Rightarrow> 'v \<times> 'm store) \<Rightarrow> ('m store \<Rightarrow> 'v \<Rightarrow> nat set) \<Rightarrow> ('m store \<Rightarrow> 'v \<Rightarrow> 'a) \<Rightarrow> bool" where
  "copier copy refs value \<longleftrightarrow>
     (\<forall>v s v' s'. wf_store s \<longrightarrow> refs s v \<subseteq> dom (cells s) \<longrightarrow> copy v s = (v', s') \<longrightarrow>
        wf_store s' \<and> cells s \<subseteq>\<^sub>m cells s' \<and> refs s' v' \<subseteq> dom (cells s') - dom (cells s) \<and> value s' v' = value s v) \<and>
     (\<forall>v s t. (\<forall>a \<in> refs s v. cells t a = cells s a) \<longrightarrow> refs t v = refs s v \<and> value t v = value s v)"

lemma copierI:
  assumes "\<And>v s v' s'. wf_store s \<Longrightarrow> refs s v \<subseteq> dom (cells s) \<Longrightarrow> copy v s = (v', s') \<Longrightarrow>
      wf_store s' \<and> cells s \<subseteq>\<^sub>m cells s' \<and> refs s' v' \<subseteq> dom (cells s') - dom (cells s) \<and> value s' v' = value s v"
    and "\<And>v s t. \<forall>a \<in> refs s v. cells t a = cells s a \<Longrightarrow> refs t v = refs s v \<and> value t v = value s v"
  shows "copier copy refs value"
  unfolding copier_def using assms by blast

lemma copierD:
  assumes "copier copy refs value" "wf_store s" "refs s v \<subseteq> dom (cells s)" "copy v s = (v', s')"
  shows "wf_store s'" "cells s \<subseteq>\<^sub>m cells s'" "refs s' v' \<subseteq> dom (cells s') - dom (cells s)" "value s' v' = value s v"
  using assms unfolding copier_def by blast+

lemma copier_frame:
  assumes "copier copy refs value" "\<forall>a \<in> refs s v. cells t a = cells s a"
  shows "refs t v = refs s v" "value t v = value s v"
  using assms unfolding copier_def by blast+

lemma grown_same: "cells s \<subseteq>\<^sub>m cells t \<Longrightarrow> a \<in> dom (cells s) \<Longrightarrow> cells t a = cells s a"
  by (metis map_le_def)

lemma copier_grown:
  assumes "copier copy refs value" "refs s v \<subseteq> dom (cells s)" "cells s \<subseteq>\<^sub>m cells t"
  shows "refs t v = refs s v" "value t v = value s v"
proof -
  have same: "\<forall>a \<in> refs s v. cells t a = cells s a" using grown_same [OF assms(3)] assms(2) by blast
  show "refs t v = refs s v" by (rule copier_frame(1) [OF assms(1) same])
  show "value t v = value s v" by (rule copier_frame(2) [OF assms(1) same])
qed

lemma alloc_facts:
  assumes "wf_store s" "alloc c s = (b, s')"
  shows "wf_store s'" "cells s \<subseteq>\<^sub>m cells s'" "b \<notin> dom (cells s)" "cells s' b = Some c"
proof -
  have s': "b = next_cell s" "s' = \<lparr>cells = (cells s)(next_cell s \<mapsto> c), next_cell = next_cell s + 1\<rparr>"
    using assms(2) by (auto simp: alloc_def)
  have below: "a < next_cell s" if "a \<in> dom (cells s)" for a using assms(1) that by (simp add: wf_store_def)
  show "b \<notin> dom (cells s)" using below [of b] unfolding s'(1) by blast
  show "wf_store s'" using below unfolding wf_store_def s'(2) by (fastforce simp: less_Suc_eq)
  show "cells s \<subseteq>\<^sub>m cells s'" using below unfolding s'(2) map_le_def by fastforce
  show "cells s' b = Some c" unfolding s' by simp
qed

lemma copier_plain: "copier copy_plain no_refs plain_value"
  by (rule copierI) (auto simp: copy_plain_def)

lemma copier_ref:
  assumes into: "copier into rf rd" and wrap: "\<And>v. unwrap (wrap v) = Some v"
  shows "copier (copy_ref unwrap wrap into) (refs_ref unwrap rf) (read_ref unwrap rd)"
proof (rule copierI)
  fix r s r' s'
  assume s: "wf_store s" "refs_ref unwrap rf s r \<subseteq> dom (cells s)" "copy_ref unwrap wrap into r s = (r', s')"
  show "wf_store s' \<and> cells s \<subseteq>\<^sub>m cells s' \<and> refs_ref unwrap rf s' r' \<subseteq> dom (cells s') - dom (cells s) \<and>
      read_ref unwrap rd s' r' = read_ref unwrap rd s r"
  proof (cases "Option.bind r (\<lambda>a. Option.bind (cells s a) unwrap)")
    case None
    with s show ?thesis by (simp add: copy_ref_def refs_ref_def read_ref_def)
  next
    case (Some v)
    obtain v' s1 where one: "into v s = (v', s1)" by fastforce
    obtain b where b: "alloc (wrap v') s1 = (b, s')" "r' = Some b"
      using s(3) Some one by (auto simp: copy_ref_def split: prod.splits)
    have "rf s v \<subseteq> dom (cells s)" using s(2) Some by (auto simp: refs_ref_def split: option.splits bind_splits)
    note v' = copierD [OF into s(1) this one]
    note new = alloc_facts [OF v'(1) b(1)]
    have "rf s1 v' \<subseteq> dom (cells s1)" using v'(3) by blast
    note kept = copier_grown [OF into this new(2)]
    have "cells s \<subseteq>\<^sub>m cells s'" using v'(2) new(2) by (rule map_le_trans)
    moreover have "b \<in> dom (cells s')" "dom (cells s1) \<subseteq> dom (cells s')" using new(2,4) by (auto dest: map_le_implies_dom_le)
    moreover have "b \<notin> dom (cells s)" using new(3) v'(2) map_le_implies_dom_le by blast
    ultimately have "insert b (rf s' v') \<subseteq> dom (cells s') - dom (cells s)" using v'(3) kept(1) by blast
    then show ?thesis
      using \<open>cells s \<subseteq>\<^sub>m cells s'\<close> v'(4) new(1,4) kept Some b(2) by (simp add: refs_ref_def read_ref_def wrap)
  qed
next
  fix r and s t :: "'b store"
  assume *: "\<forall>a \<in> refs_ref unwrap rf s r. cells t a = cells s a"
  show "refs_ref unwrap rf t r = refs_ref unwrap rf s r \<and> read_ref unwrap rd t r = read_ref unwrap rd s r"
  proof (cases r)
    case (Some a)
    then have "cells t a = cells s a" using * by (simp add: refs_ref_def)
    show ?thesis
    proof (cases "Option.bind (cells s a) unwrap")
      case None
      then show ?thesis using Some \<open>cells t a = cells s a\<close> by (simp add: refs_ref_def read_ref_def)
    next
      case (Some v)
      then have "\<forall>a \<in> rf s v. cells t a = cells s a" using * \<open>r = Some a\<close> by (simp add: refs_ref_def)
      note same = copier_frame [OF into this]
      show ?thesis using Some \<open>r = Some a\<close> \<open>cells t a = cells s a\<close> same by (simp add: refs_ref_def read_ref_def)
    qed
  qed (simp add: refs_ref_def read_ref_def)
qed

lemma copier_pair:
  assumes one: "copier copy1 refs1 value1" and two: "copier copy2 refs2 value2"
  shows "copier (\<lambda>(x, y) s. let (x', s1) = copy1 x s; (y', s2) = copy2 y s1 in ((x', y'), s2))
    (\<lambda>s (x, y). refs1 s x \<union> refs2 s y) (\<lambda>s (x, y). (value1 s x, value2 s y))"
proof (rule copierI)
  fix v :: "'a \<times> 'd" and s v' s'
  obtain x y where v: "v = (x, y)" by fastforce
  assume s: "wf_store s" "(\<lambda>(x, y). refs1 s x \<union> refs2 s y) v \<subseteq> dom (cells s)"
    "(\<lambda>(x, y) s. let (x', s1) = copy1 x s; (y', s2) = copy2 y s1 in ((x', y'), s2)) v s = (v', s')"
  obtain x' s1 where x': "copy1 x s = (x', s1)" by fastforce
  obtain y' where y': "copy2 y s1 = (y', s')" and v': "v' = (x', y')"
    using s(3) x' unfolding v by (auto split: prod.splits)
  have r: "refs1 s x \<subseteq> dom (cells s)" "refs2 s y \<subseteq> dom (cells s)" using s(2) v by simp_all
  note X = copierD [OF one s(1) r(1) x']
  note y = copier_grown [OF two r(2) X(2)]
  have "refs2 s1 y \<subseteq> dom (cells s1)" using y(1) r(2) map_le_implies_dom_le [OF X(2)] by simp
  note Y = copierD [OF two X(1) this y']
  have "refs1 s1 x' \<subseteq> dom (cells s1)" using X(3) by blast
  note x = copier_grown [OF one this Y(2)]
  have "dom (cells s) \<subseteq> dom (cells s1)" "dom (cells s1) \<subseteq> dom (cells s')" "cells s \<subseteq>\<^sub>m cells s'"
    by (rule map_le_implies_dom_le [OF X(2)], rule map_le_implies_dom_le [OF Y(2)], rule map_le_trans [OF X(2) Y(2)])
  moreover from this have "refs1 s' x' \<union> refs2 s' y' \<subseteq> dom (cells s') - dom (cells s)" using X(3) Y(3) x(1) by blast
  ultimately show "wf_store s' \<and> cells s \<subseteq>\<^sub>m cells s' \<and> (\<lambda>(x, y). refs1 s' x \<union> refs2 s' y) v' \<subseteq> dom (cells s') - dom (cells s) \<and>
      (\<lambda>(x, y). (value1 s' x, value2 s' y)) v' = (\<lambda>(x, y). (value1 s x, value2 s y)) v"
    using X(4) Y(1,4) x(2) y(2) unfolding v v' by simp
next
  fix v :: "'a \<times> 'd" and s t :: "'b store"
  obtain x y where v: "v = (x, y)" by fastforce
  assume "\<forall>a \<in> (\<lambda>(x, y). refs1 s x \<union> refs2 s y) v. cells t a = cells s a"
  then have "\<forall>a \<in> refs1 s x. cells t a = cells s a" "\<forall>a \<in> refs2 s y. cells t a = cells s a" by (simp_all add: v)
  note same = copier_frame [OF one this(1)] copier_frame [OF two this(2)]
  show "(\<lambda>(x, y). refs1 t x \<union> refs2 t y) v = (\<lambda>(x, y). refs1 s x \<union> refs2 s y) v \<and>
      (\<lambda>(x, y). (value1 t x, value2 t y)) v = (\<lambda>(x, y). (value1 s x, value2 s y)) v"
    by (simp add: v same)
qed

text \<open>A struct is copied by copying some of its fields; the others are kept.\<close>

lemma copier_via:
  assumes copy: "copier copy refs value" and fields: "\<And>v x. get (put v x) = x" "\<And>v x. rest (put v x) = rest v"
  shows "copier (\<lambda>v s. let (x, s') = copy (get v) s in (put v x, s')) (\<lambda>s v. refs s (get v)) (\<lambda>s v. mk (rest v) (value s (get v)))"
proof (rule copierI)
  fix v s v' s'
  assume s: "wf_store s" "refs s (get v) \<subseteq> dom (cells s)" "(let (x, s') = copy (get v) s in (put v x, s')) = (v', s')"
  obtain x where x: "copy (get v) s = (x, s')" "v' = put v x" using s(3) by (auto split: prod.splits)
  from copierD [OF copy s(1,2) x(1)]
  show "wf_store s' \<and> cells s \<subseteq>\<^sub>m cells s' \<and> refs s' (get v') \<subseteq> dom (cells s') - dom (cells s) \<and>
      mk (rest v') (value s' (get v')) = mk (rest v) (value s (get v))"
    by (simp add: x(2) fields)
next
  fix v and s t :: "'b store"
  assume "\<forall>a \<in> refs s (get v). cells t a = cells s a"
  note same = copier_frame [OF copy this]
  show "refs t (get v) = refs s (get v) \<and> mk (rest v) (value t (get v)) = mk (rest v) (value s (get v))" by (simp add: same)
qed

lemma copier_each:
  assumes into: "copier into refs value"
  shows "copier (copy_each into) (\<lambda>s vs. \<Union>v \<in> set vs. refs s v) (\<lambda>s vs. map (value s) vs)"
proof (rule copierI)
  fix vs s vs' s'
  assume "wf_store s" "(\<Union>v \<in> set vs. refs s v) \<subseteq> dom (cells s)" "copy_each into vs s = (vs', s')"
  then show "wf_store s' \<and> cells s \<subseteq>\<^sub>m cells s' \<and> (\<Union>v \<in> set vs'. refs s' v) \<subseteq> dom (cells s') - dom (cells s) \<and>
      map (value s') vs' = map (value s) vs"
  proof (induction vs arbitrary: s vs')
    case (Cons v vs)
    obtain v' s1 where v': "into v s = (v', s1)" by fastforce
    obtain ws where ws: "copy_each into vs s1 = (ws, s')" "vs' = v' # ws"
      using Cons.prems(3) v' by (auto split: prod.splits)
    have r: "refs s v \<subseteq> dom (cells s)" "refs s w \<subseteq> dom (cells s)" if "w \<in> set vs" for w using Cons.prems(2) that by auto
    have "refs s v \<subseteq> dom (cells s)" using Cons.prems(2) by simp
    note V = copierD [OF into Cons.prems(1) this v']
    note kept = copier_grown [OF into r(2) V(2)]
    have "(\<Union>w \<in> set vs. refs s1 w) \<subseteq> dom (cells s1)" using kept(1) r(2) map_le_implies_dom_le [OF V(2)] by fastforce
    note W = Cons.IH [OF V(1) this ws(1)]
    have grown: "cells s1 \<subseteq>\<^sub>m cells s'" using W by blast
    have "refs s1 v' \<subseteq> dom (cells s1)" using V(3) by blast
    note head = copier_grown [OF into this grown]
    have doms: "dom (cells s) \<subseteq> dom (cells s1)" "dom (cells s1) \<subseteq> dom (cells s')" "cells s \<subseteq>\<^sub>m cells s'"
      by (rule map_le_implies_dom_le [OF V(2)], rule map_le_implies_dom_le [OF grown], rule map_le_trans [OF V(2) grown])
    have "refs s' v' \<subseteq> dom (cells s') - dom (cells s)" using V(3) doms(2) head(1) by blast
    moreover have "(\<Union>v \<in> set ws. refs s' v) \<subseteq> dom (cells s') - dom (cells s)" using W doms(1) by blast
    ultimately have "(\<Union>v \<in> set vs'. refs s' v) \<subseteq> dom (cells s') - dom (cells s)" by (simp add: ws(2))
    moreover have "map (value s') vs' = map (value s) (v # vs)" using W V(4) head(2) kept(2) by (simp add: ws(2))
    ultimately show ?case using W doms(3) by blast
  qed simp
next
  fix vs and s t :: "'b store"
  assume "\<forall>a \<in> (\<Union>v \<in> set vs. refs s v). cells t a = cells s a"
  then have "refs t v = refs s v \<and> value t v = value s v" if "v \<in> set vs" for v
    using that copier_frame [OF into] by (metis UN_I)
  then show "(\<Union>v \<in> set vs. refs t v) = (\<Union>v \<in> set vs. refs s v) \<and> map (value t) vs = map (value s) vs"
    by simp
qed

text \<open>The interface of a copying function, and what a client may rely on: after a copy the two values are equal, share
  nothing, and no write to what the one refers to changes the other.\<close>

definition separate_copy :: "('m store \<Rightarrow> 'v \<Rightarrow> nat set) \<Rightarrow> ('m store \<Rightarrow> 'v \<Rightarrow> 'a) \<Rightarrow> 'm store \<Rightarrow> 'v \<Rightarrow> 'v \<times> 'm store \<Rightarrow> bool" where
  "separate_copy refs value s v out \<longleftrightarrow>
     (case out of (v', s') \<Rightarrow>
        value s' v' = value s v \<and> value s' v = value s v \<and> refs s' v' \<inter> refs s' v = {} \<and>
        (\<forall>t. (\<forall>a. a \<notin> refs s' v' \<longrightarrow> cells t a = cells s' a) \<longrightarrow> value t v = value s v) \<and>
        (\<forall>t. (\<forall>a. a \<notin> refs s' v \<longrightarrow> cells t a = cells s' a) \<longrightarrow> value t v' = value s v))"

locale deep_copier =
  fixes copy :: "'v \<Rightarrow> 'm store \<Rightarrow> 'v \<times> 'm store" and refs :: "'m store \<Rightarrow> 'v \<Rightarrow> nat set" and meaning :: "'m store \<Rightarrow> 'v \<Rightarrow> 'a"
  assumes copies: "copier copy refs meaning"
begin

lemma separate:
  assumes "wf_store s" "refs s v \<subseteq> dom (cells s)"
  shows "separate_copy refs meaning s v (copy v s)"
proof -
  obtain v' s' where out: "copy v s = (v', s')" by fastforce
  note c = copierD [OF copies assms out]
  note kept = copier_grown [OF copies assms(2) c(2)]
  have apart: "refs s' v' \<inter> refs s' v = {}" using c(3) kept(1) assms(2) by blast
  have "meaning t v = meaning s v" if "\<forall>a. a \<notin> refs s' v' \<longrightarrow> cells t a = cells s' a" for t
    using copier_frame(2) [OF copies, of s' v t] that apart kept(2) by (metis disjoint_iff)
  moreover have "meaning t v' = meaning s v" if "\<forall>a. a \<notin> refs s' v \<longrightarrow> cells t a = cells s' a" for t
    using copier_frame(2) [OF copies, of s' v' t] that apart c(4) by (metis disjoint_iff)
  ultimately show ?thesis using c(4) kept(2) apart by (simp add: separate_copy_def out)
qed

end

section \<open>The API types\<close>

lemmas copier_unfold = fun_eq_iff split_def Let_def Un_assoc

lemma copier_slices:
  "copier (copy_ref zone_slice ZoneSlice copy_plain) (plain_refs zone_slice) (plain_at zone_slice)"
  "copier (copy_ref property_slice PropertySlice copy_plain) (plain_refs property_slice) (plain_at property_slice)"
  "copier (copy_ref key_slice KeySlice copy_plain) (plain_refs key_slice) (plain_at key_slice)"
  "copier (copy_ref label_cell LabelCell copy_plain) (plain_refs label_cell) (plain_at label_cell)"
  "copier (copy_ref duration_cell DurationCell copy_plain) (plain_refs duration_cell) (plain_at duration_cell)"
  by (rule copier_ref [OF copier_plain], simp)+

lemma copier_IPSources: "copier IPSources_DeepCopyInto IPSources_refs IPSources_value"
  using copier_via [OF copier_pair [OF copier_slices(4) copier_slices(4)], where get = "\<lambda>v. (vIPv4 v, vIPv6 v)"
      and put = "\<lambda>v (a, b). v\<lparr>vIPv4 := a, vIPv6 := b\<rparr>" and rest = "\<lambda>v. ()" and mk = "\<lambda>_ (a, b). \<lparr>ipv4 = a, ipv6 = b\<rparr>"]
  by (simp add: copier_unfold IPSources_DeepCopyInto_def [abs_def] IPSources_refs_def [abs_def] IPSources_value_def [abs_def])

lemma copier_RecordDefaults: "copier RecordDefaults_DeepCopyInto RecordDefaults_refs RecordDefaults_value"
  using copier_via [OF copier_slices(5), where get = vDeletionDelay and put = "\<lambda>v a. v\<lparr>vDeletionDelay := a\<rparr>" and rest = vTTL
      and mk = "\<lambda>ttl a. \<lparr>defaultTTL = ttl, defaultDelay = a\<rparr>"]
  by (simp add: copier_unfold RecordDefaults_DeepCopyInto_def [abs_def] RecordDefaults_refs_def [abs_def] RecordDefaults_value_def [abs_def])

lemma copier_ProviderSpecific: "copier ProviderSpecific_DeepCopyInto ProviderSpecific_refs ProviderSpecific_value"
  using copier_via [OF copier_pair [OF copier_slices(2,3)], where get = "\<lambda>v. (vDefaults v, vAnnotationKeys v)"
      and put = "\<lambda>v (a, b). v\<lparr>vDefaults := a, vAnnotationKeys := b\<rparr>" and rest = "\<lambda>v. ()"
      and mk = "\<lambda>_ (a, b). \<lparr>Defaults = elements a, AnnotationKeys = elements b\<rparr>"]
  by (simp add: copier_unfold ProviderSpecific_DeepCopyInto_def [abs_def] ProviderSpecific_refs_def [abs_def] ProviderSpecific_value_def [abs_def])

lemma copier_DNSProviderSpec: "copier DNSProviderSpec_DeepCopyInto DNSProviderSpec_refs DNSProviderSpec_value"
  using copier_via [OF copier_pair [OF copier_slices(1) copier_pair [OF copier_IPSources copier_pair [OF copier_RecordDefaults copier_ProviderSpecific]]],
      where get = "\<lambda>v. (vZones v, vIPSources v, vRecordDefaults v, vProviderSpecific v)"
      and put = "\<lambda>v (z, ip, rd, ps). v\<lparr>vZones := z, vIPSources := ip, vRecordDefaults := rd, vProviderSpecific := ps\<rparr>" and rest = "\<lambda>v. ()"
      and mk = "\<lambda>_ (z, ip, rd, ps). \<lparr>Zones = elements z, ipSources = ip, recordDefaults = rd, providerSpecific = ps\<rparr>"]
  by (simp add: copier_unfold DNSProviderSpec_DeepCopyInto_def [abs_def] DNSProviderSpec_refs_def [abs_def] DNSProviderSpec_value_def [abs_def])

interpretation ip_sources: deep_copier IPSources_DeepCopyInto IPSources_refs IPSources_value
  by (rule deep_copier.intro [OF copier_IPSources])

interpretation record_defaults: deep_copier RecordDefaults_DeepCopyInto RecordDefaults_refs RecordDefaults_value
  by (rule deep_copier.intro [OF copier_RecordDefaults])

interpretation provider_specific: deep_copier ProviderSpecific_DeepCopyInto ProviderSpecific_refs ProviderSpecific_value
  by (rule deep_copier.intro [OF copier_ProviderSpecific])

interpretation provider_spec: deep_copier DNSProviderSpec_DeepCopyInto DNSProviderSpec_refs DNSProviderSpec_value
  by (rule deep_copier.intro [OF copier_DNSProviderSpec])

section \<open>Objects and lists\<close>

text \<open>What the metadata of an object refers to and means is the library's; its own deep copy is documented to be one.\<close>

record ('m, 'x) metadata =
  copyMeta :: "'m copy_metadata"
  metaRefs :: "'m store \<Rightarrow> 'm \<Rightarrow> nat set"
  metaValue :: "'m store \<Rightarrow> 'm \<Rightarrow> 'x"

definition metadata_doc :: "('m, 'x) metadata \<Rightarrow> bool" where
  "metadata_doc M \<longleftrightarrow> copier (copyMeta M) (metaRefs M) (metaValue M)"

definition DNSProvider_refs :: "('m, 'x) metadata \<Rightarrow> 'm store \<Rightarrow> 'm DNSProvider_v \<Rightarrow> nat set" where
  "DNSProvider_refs M s v = metaRefs M s (vObjectMeta v) \<union> DNSProviderSpec_refs s (vSpec v)"

definition DNSProvider_value :: "('m, 'x) metadata \<Rightarrow> 'm store \<Rightarrow> 'm DNSProvider_v \<Rightarrow> (string \<times> string) \<times> 'x \<times> DNSProviderSpec" where
  "DNSProvider_value M s v = (vTypeMeta v, metaValue M s (vObjectMeta v), DNSProviderSpec_value s (vSpec v))"

definition DNSProviderList_refs :: "('m, 'x) metadata \<Rightarrow> 'm store \<Rightarrow> 'm DNSProviderList_v \<Rightarrow> nat set" where
  "DNSProviderList_refs M s v =
     metaRefs M s (vListMeta v) \<union> refs_ref provider_slice (\<lambda>s vs. \<Union>v \<in> set vs. DNSProvider_refs M s v) s (vItems v)"

definition DNSProviderList_value ::
  "('m, 'x) metadata \<Rightarrow> 'm store \<Rightarrow> 'm DNSProviderList_v \<Rightarrow> (string \<times> string) \<times> 'x \<times> ((string \<times> string) \<times> 'x \<times> DNSProviderSpec) list option" where
  "DNSProviderList_value M s v =
     (vListTypeMeta v, metaValue M s (vListMeta v), read_ref provider_slice (\<lambda>s. map (DNSProvider_value M s)) s (vItems v))"

lemma copier_DNSProvider:
  assumes "metadata_doc M"
  shows "copier (DNSProvider_DeepCopyInto (copyMeta M)) (DNSProvider_refs M) (DNSProvider_value M)"
  using copier_via [OF copier_pair [OF assms [unfolded metadata_doc_def] copier_DNSProviderSpec], where get = "\<lambda>v. (vObjectMeta v, vSpec v)"
      and put = "\<lambda>v (m, spec). v\<lparr>vObjectMeta := m, vSpec := spec\<rparr>" and rest = vTypeMeta and mk = Pair]
  by (simp add: copier_unfold DNSProvider_DeepCopyInto_def [abs_def] DNSProvider_refs_def [abs_def] DNSProvider_value_def [abs_def])

lemma copier_DNSProviderList:
  assumes "metadata_doc M"
  shows "copier (DNSProviderList_DeepCopyInto (copyMeta M)) (DNSProviderList_refs M) (DNSProviderList_value M)"
proof -
  have items: "copier (copy_ref provider_slice ProviderSlice (copy_each (DNSProvider_DeepCopyInto (copyMeta M))))
      (refs_ref provider_slice (\<lambda>s vs. \<Union>v \<in> set vs. DNSProvider_refs M s v)) (read_ref provider_slice (\<lambda>s. map (DNSProvider_value M s)))"
    by (rule copier_ref [OF copier_each [OF copier_DNSProvider [OF assms]]]) simp
  show ?thesis
    using copier_via [OF copier_pair [OF assms [unfolded metadata_doc_def] items], where get = "\<lambda>v. (vListMeta v, vItems v)"
        and put = "\<lambda>v (m, items). v\<lparr>vListMeta := m, vItems := items\<rparr>" and rest = vListTypeMeta and mk = Pair]
    by (simp add: copier_unfold DNSProviderList_DeepCopyInto_def [abs_def] DNSProviderList_refs_def [abs_def] DNSProviderList_value_def [abs_def])
qed

text \<open>Pointers to objects.\<close>

abbreviation provider_refs :: "('m, 'x) metadata \<Rightarrow> 'm store \<Rightarrow> ref \<Rightarrow> nat set" where
  "provider_refs M \<equiv> refs_ref provider_cell (DNSProvider_refs M)"

abbreviation provider_at :: "('m, 'x) metadata \<Rightarrow> 'm store \<Rightarrow> ref \<Rightarrow> ((string \<times> string) \<times> 'x \<times> DNSProviderSpec) option" where
  "provider_at M \<equiv> read_ref provider_cell (DNSProvider_value M)"

abbreviation list_refs :: "('m, 'x) metadata \<Rightarrow> 'm store \<Rightarrow> ref \<Rightarrow> nat set" where
  "list_refs M \<equiv> refs_ref list_cell (DNSProviderList_refs M)"

abbreviation list_at :: "('m, 'x) metadata \<Rightarrow> 'm store \<Rightarrow> ref \<Rightarrow>
    ((string \<times> string) \<times> 'x \<times> ((string \<times> string) \<times> 'x \<times> DNSProviderSpec) list option) option" where
  "list_at M \<equiv> read_ref list_cell (DNSProviderList_value M)"

lemma deep_copier_DeepCopy:
  assumes "metadata_doc M"
  shows "deep_copier (DNSProvider_DeepCopy (copyMeta M)) (provider_refs M) (provider_at M)"
    and "deep_copier (DNSProviderList_DeepCopy (copyMeta M)) (list_refs M) (list_at M)"
  unfolding DNSProvider_DeepCopy_def DNSProviderList_DeepCopy_def
  by (rule deep_copier.intro [OF copier_ref [OF copier_DNSProvider [OF assms]]] deep_copier.intro [OF copier_ref [OF copier_DNSProviderList [OF assms]]], simp)+

lemma DeepCopyObject_eq:
  "DNSProvider_DeepCopyObject copy = DNSProvider_DeepCopy copy" "DNSProviderList_DeepCopyObject copy = DNSProviderList_DeepCopy copy"
  by (auto simp: fun_eq_iff DNSProvider_DeepCopyObject_def DNSProviderList_DeepCopyObject_def split: prod.split option.split)

text \<open>A metadata library: a pointer to a text, copied with its cell.\<close>

fun foreign_cell where "foreign_cell (Foreign x) = Some x" | "foreign_cell _ = None"

definition pointer_metadata :: "(ref, string option) metadata" where
  "pointer_metadata = \<lparr>copyMeta = copy_ref foreign_cell Foreign copy_plain, metaRefs = plain_refs foreign_cell, metaValue = plain_at foreign_cell\<rparr>"

lemma pointer_metadata_doc: "metadata_doc pointer_metadata"
  unfolding metadata_doc_def pointer_metadata_def by simp (rule copier_ref [OF copier_plain], simp)

interpretation pointer_provider: deep_copier "DNSProvider_DeepCopy (copyMeta pointer_metadata)" "provider_refs pointer_metadata" "provider_at pointer_metadata"
  by (rule deep_copier_DeepCopy(1) [OF pointer_metadata_doc])

text \<open>C40: a deep copy is a copy and is separate.  Copying an object or a list of objects of the API, through
  \<^verbatim>\<open>DeepCopy\<close> or \<^verbatim>\<open>DeepCopyObject\<close>, gives an equal value and changes nothing; original and copy have no pointer or
  slice in common, so whatever is written to the cells of the one, the other keeps its value.  This is what a cache
  relies on that hands out copies, and why the model may treat objects as values.\<close>

theorem DeepCopy_separate:
  assumes "metadata_doc M" "wf_store s" "provider_refs M s p \<subseteq> dom (cells s)" "list_refs M s l \<subseteq> dom (cells s)"
  shows "separate_copy (provider_refs M) (provider_at M) s p (DNSProvider_DeepCopy (copyMeta M) p s) \<and>
    separate_copy (provider_refs M) (provider_at M) s p (DNSProvider_DeepCopyObject (copyMeta M) p s) \<and>
    separate_copy (list_refs M) (list_at M) s l (DNSProviderList_DeepCopy (copyMeta M) l s) \<and>
    separate_copy (list_refs M) (list_at M) s l (DNSProviderList_DeepCopyObject (copyMeta M) l s)"
  unfolding DeepCopyObject_eq
  by (intro conjI deep_copier.separate [OF deep_copier_DeepCopy(1) [OF assms(1)] assms(2,3)]
      deep_copier.separate [OF deep_copier_DeepCopy(2) [OF assms(1)] assms(2,4)])

text \<open>A provider in a store, with a zone, an IPv4 label and a deletion delay, and a list that holds it by value.\<close>

definition sample_object :: "ref DNSProvider_v" where
  "sample_object =
     \<lparr>vTypeMeta = (''DNSProvider'', ''labdns.shednet.dev/v1alpha1''), vObjectMeta = Some 0,
      vSpec = \<lparr>vZones = Some 1, vIPSources = \<lparr>vIPv4 = Some 2, vIPv6 = None\<rparr>, vRecordDefaults = \<lparr>vTTL = 300, vDeletionDelay = Some 3\<rparr>,
        vProviderSpecific = \<lparr>vDefaults = None, vAnnotationKeys = None\<rparr>\<rparr>\<rparr>"

definition sample_store :: "ref store" where
  "sample_store =
     \<lparr>cells = [0 \<mapsto> Foreign ''www'', 1 \<mapsto> ZoneSlice [\<lparr>zoneName = ''example.com''\<rparr>], 2 \<mapsto> LabelCell \<lparr>NodeLabel = ''example.com/ip''\<rparr>,
        3 \<mapsto> DurationCell 60, 4 \<mapsto> ProviderCell sample_object, 5 \<mapsto> ProviderSlice [sample_object],
        6 \<mapsto> ListCell \<lparr>vListTypeMeta = (''DNSProviderList'', ''labdns.shednet.dev/v1alpha1''), vListMeta = None, vItems = Some 5\<rparr>],
      next_cell = 7\<rparr>"

lemmas sample_simps = sample_store_def sample_object_def pointer_metadata_def refs_ref_def read_ref_def DNSProvider_refs_def
  DNSProviderList_refs_def DNSProviderSpec_refs_def IPSources_refs_def RecordDefaults_refs_def ProviderSpecific_refs_def

lemma DeepCopy_separate_witness:
  "separate_copy (provider_refs pointer_metadata) (provider_at pointer_metadata) sample_store (Some 4)
     (DNSProvider_DeepCopy (copyMeta pointer_metadata) (Some 4) sample_store) \<and>
   fst (DNSProvider_DeepCopy (copyMeta pointer_metadata) (Some 4) sample_store) = Some 11"
proof
  have "wf_store sample_store" by (auto simp: wf_store_def sample_store_def split: if_splits)
  moreover have "provider_refs pointer_metadata sample_store (Some 4) \<subseteq> dom (cells sample_store)"
    "list_refs pointer_metadata sample_store (Some 6) \<subseteq> dom (cells sample_store)"
    by (simp_all add: sample_simps)
  ultimately show "separate_copy (provider_refs pointer_metadata) (provider_at pointer_metadata) sample_store (Some 4)
     (DNSProvider_DeepCopy (copyMeta pointer_metadata) (Some 4) sample_store)"
    by (rule DeepCopy_separate [OF pointer_metadata_doc, THEN conjunct1])
  show "fst (DNSProvider_DeepCopy (copyMeta pointer_metadata) (Some 4) sample_store) = Some 11"
    by (simp add: DNSProvider_DeepCopy_def DNSProvider_DeepCopyInto_def DNSProviderSpec_DeepCopyInto_def IPSources_DeepCopyInto_def
        RecordDefaults_DeepCopyInto_def ProviderSpecific_DeepCopyInto_def copy_ref_def copy_plain_def alloc_def sample_simps)
qed

end
